(* ===== verification/Chronos_Prelude.thy ===== *)
theory Chronos_Prelude
  imports Main "HOL-Library.Word"
begin

text \<open>
  Vocabulary and lemmas shared by the component theories: the widths of the C++ integers, the
  faults a C++ operation can end in, the layout rule that the \<^verbatim>\<open>static_assert\<close>s of the headers
  rely on, and the automation collections (\<open>chronos_defs\<close> for definitions that may be unfolded
  freely, \<open>word_bounds\<close> for facts that move a word comparison to \<open>nat\<close>).
\<close>

named_theorems chronos_defs \<open>definitions of the model that proofs unfold freely\<close>
named_theorems word_bounds \<open>facts that move word arithmetic to natural numbers\<close>

section \<open>Integer types\<close>

type_synonym u8 = "8 word"
type_synonym u16 = "16 word"
type_synonym u32 = "32 word"
type_synonym u64 = "64 word"
type_synonym i64 = "64 word" \<comment> \<open>read with \<^const>\<open>sint\<close>\<close>

section \<open>Faults\<close>

text \<open>
  What a C++ expression can do instead of returning: undefined behaviour (named by its cause), or an
  exception of the standard library that the source does not catch.
\<close>

datatype fault =
    UB_float_to_int      \<comment> \<open>\<^verbatim>\<open>static_cast\<close> of a double that the integer type cannot hold\<close>
  | UB_signed_overflow   \<comment> \<open>signed arithmetic outside its type\<close>
  | UB_out_of_bounds     \<comment> \<open>\<^verbatim>\<open>operator[]\<close> of a vector past its size\<close>
  | Length_error         \<comment> \<open>\<^verbatim>\<open>std::length_error\<close> from \<^verbatim>\<open>std::vector::reserve\<close>\<close>
  | Yaml_error           \<comment> \<open>a \<^verbatim>\<open>YAML::Exception\<close> that nothing catches\<close>
  | Filesystem_error     \<comment> \<open>\<^verbatim>\<open>std::filesystem::filesystem_error\<close> from \<^verbatim>\<open>create_directories\<close>\<close>

type_synonym 'a outcome = "fault + 'a"

definition bind_outcome :: "'a outcome \<Rightarrow> ('a \<Rightarrow> 'b outcome) \<Rightarrow> 'b outcome" where
  "bind_outcome r f = (case r of Inl e \<Rightarrow> Inl e | Inr x \<Rightarrow> f x)"

lemma bind_outcome_simps [simp]:
  "bind_outcome (Inl e) f = Inl e"
  "bind_outcome (Inr x) f = f x"
  by (simp_all add: bind_outcome_def)

lemma bind_outcome_assoc: "bind_outcome (bind_outcome r f) g = bind_outcome r (\<lambda>x. bind_outcome (f x) g)"
  by (cases r) simp_all

lemma bind_outcome_Inr_iff:
  "bind_outcome r f = Inr y \<longleftrightarrow> (\<exists>x. r = Inr x \<and> f x = Inr y)"
  by (cases r) auto

lemma bind_outcome_InrE:
  assumes "bind_outcome r f = Inr y"
  obtains x where "r = Inr x" and "f x = Inr y"
  using assms by (auto simp: bind_outcome_Inr_iff)

lemma bind_outcome_cong [fundef_cong]:
  assumes "r = r'" and "\<And>x. r' = Inr x \<Longrightarrow> f x = g x"
  shows "bind_outcome r f = bind_outcome r' g"
  using assms by (cases r') auto

section \<open>Struct layout\<close>

text \<open>
  The layout rule of the platforms the headers are written for: members in order, each at the next
  multiple of its alignment, the size of the struct rounded up to its own alignment. A member is
  \<open>(name, size, alignment)\<close>.
\<close>

type_synonym member = "string \<times> nat \<times> nat"

definition align_up :: "nat \<Rightarrow> nat \<Rightarrow> nat" where
  "align_up a n = (n + (a - 1)) div a * a"

fun offsets_from :: "nat \<Rightarrow> member list \<Rightarrow> (string \<times> nat) list" where
  "offsets_from n [] = []"
| "offsets_from n ((m, s, a) # ms) = (m, align_up a n) # offsets_from (align_up a n + s) ms"

fun end_offset :: "nat \<Rightarrow> member list \<Rightarrow> nat" where
  "end_offset n [] = n"
| "end_offset n ((m, s, a) # ms) = end_offset (align_up a n + s) ms"

definition sizeof_struct :: "nat \<Rightarrow> member list \<Rightarrow> nat" where
  "sizeof_struct alignas ms = align_up (fold (\<lambda>(m, s, a) b. max a b) ms alignas) (end_offset 0 ms)"

definition offsetof :: "member list \<Rightarrow> string \<Rightarrow> nat option" where
  "offsetof ms m = map_of (offsets_from 0 ms) m"

lemma align_up_ge: "0 < a \<Longrightarrow> n \<le> align_up a n"
  using dividend_less_div_times [of a "n + (a - 1)"] by (simp add: align_up_def)

lemma align_up_dvd: "a dvd align_up a n"
  by (simp add: align_up_def)

text \<open>Members never overlap: each starts at or after the end of the ones before it.\<close>

lemma offsets_from_ge:
  "\<forall>(m, s, a) \<in> set ms. 0 < a \<Longrightarrow> (m, off) \<in> set (offsets_from n ms) \<Longrightarrow> n \<le> off"
proof (induction n ms rule: offsets_from.induct)
  case (2 n m' s a ms)
  then have "n \<le> align_up a n"
    by (simp add: align_up_ge)
  with 2 show ?case by fastforce
qed simp

section \<open>Words\<close>

lemma unat_add_small [word_bounds]:
  fixes a b :: "'a::len word"
  shows "unat a + unat b < 2 ^ LENGTH('a) \<Longrightarrow> unat (a + b) = unat a + unat b"
  by (simp add: unat_word_ariths)

lemma unat_Suc_small [word_bounds]:
  fixes a :: "'a::len word"
  shows "Suc (unat a) < 2 ^ LENGTH('a) \<Longrightarrow> unat (a + 1) = Suc (unat a)"
  by (simp add: unat_word_ariths)

lemma sint_eq_unat [word_bounds]:
  fixes a :: u64
  assumes "unat a < 2 ^ 63"
  shows "sint a = int (unat a)"
proof -
  have "int (unat a) < int (2 ^ 63)"
    using assms by (simp only: of_nat_less_iff)
  then have "uint a < 2 ^ 63"
    by simp
  moreover have "- (2 ^ 63) \<le> uint a"
    by (rule order_trans [OF _ uint_ge_0]) simp
  ultimately have "signed_take_bit 63 (uint a) = uint a"
    by (intro signed_take_bit_int_eq_self)
  then show ?thesis by (simp add: sint_uint)
qed

end
