(* ===== verification/Binary64.thy ===== *)
theory Binary64
  imports Chronos_Prelude "HOL-Library.Log_Nat"
begin

text \<open>
  The C++ \<^verbatim>\<open>double\<close> as the sources use it: IEEE 754 binary64 with round to nearest, ties to even.
  A finite value is the rational it denotes, so both zeros are \<open>Fin 0\<close>; no operation of the sources
  distinguishes them (no division by a signed zero computed from a negative value, and comparisons
  and conversions treat them alike). Every operation is executable: it computes the exact rational
  result and rounds it to 53 significant bits, with gradual underflow and overflow to infinity.
\<close>

section \<open>Values and rounding\<close>

datatype Double = Fin rat | PInf | NInf | NaN

definition p2 :: "int \<Rightarrow> rat" where
  "p2 e = 2 powi e"

lemma p2_code [code]:
  "p2 e = (if 0 \<le> e then of_int (push_bit (nat e) 1) else inverse (of_int (push_bit (nat (- e)) 1)))"
  by (simp add: p2_def power_int_def push_bit_eq_mult power_one_over inverse_eq_divide)

definition ilog2 :: "rat \<Rightarrow> int" where
  "ilog2 q =
     (let (n, d) = quotient_of q; k = bitlen n - bitlen d
      in if p2 k \<le> q then k else k - 1)"

definition round_half_even :: "rat \<Rightarrow> int" where
  "round_half_even q =
     (let f = \<lfloor>q\<rfloor>; r = q - of_int f
      in if r < 1 / 2 then f else if 1 / 2 < r then f + 1 else if even f then f else f + 1)"

definition ulp_exponent :: "rat \<Rightarrow> int" where
  "ulp_exponent q = max (- 1074) (ilog2 \<bar>q\<bar> - 52)"

definition round_finite :: "rat \<Rightarrow> rat" where
  "round_finite q =
     (if q = 0 then 0
      else let e = ulp_exponent q in of_int (round_half_even (q / p2 e)) * p2 e)"

definition overflows :: "rat \<Rightarrow> bool" where
  "overflows r \<longleftrightarrow> p2 1024 \<le> \<bar>r\<bar>"

definition rnd :: "rat \<Rightarrow> Double" where
  "rnd q =
     (let r = round_finite q
      in if overflows r then (if 0 < r then PInf else NInf) else Fin r)"

lemma two_powi_pos: "(0::rat) < 2 powi e"
  by simp

lemma powi_le_iff: "(2::rat) powi a \<le> 2 powi b \<longleftrightarrow> a \<le> b"
  by (meson power_int_increasing power_int_strict_increasing linorder_not_le one_less_numeral_iff
      semiring_norm(76) order_less_imp_le)

lemma powi_less_iff: "(2::rat) powi a < 2 powi b \<longleftrightarrow> a < b"
  using powi_le_iff [of b a] by (simp only: linorder_not_le [symmetric])

lemma powi_mult: "(2::rat) powi a * 2 powi b = 2 powi (a + b)"
  by (simp add: power_int_add)

lemma powi_div: "(2::rat) powi a / 2 powi b = 2 powi (a - b)"
  by (simp add: power_int_diff)

lemma ilog2_bounds:
  assumes "0 < q"
  shows "2 powi (ilog2 q) \<le> q" and "q < 2 powi (ilog2 q + 1)"
proof -
  obtain n d where nd: "quotient_of q = (n, d)" by fastforce
  then have d: "0 < d" and q: "q = of_int n / of_int d"
    by (auto simp: quotient_of_denom_pos quotient_of_div)
  with assms have n: "0 < n"
    by (simp add: zero_less_divide_iff)
  define a b where "a = bitlen n" and "b = bitlen d"
  have bit: "(2::rat) powi (bitlen x - 1) \<le> of_int x \<and> of_int x < (2::rat) powi (bitlen x)"
    if "0 < x" for x :: int
  proof -
    have ge: "1 \<le> bitlen x" using that by (simp add: bitlen_ge_iff_power)
    have "2 ^ nat (bitlen x - 1) \<le> x" "x < 2 ^ nat (bitlen x)"
      using bitlen_bounds [OF that] by auto
    then have "(of_int (2 ^ nat (bitlen x - 1)) :: rat) \<le> of_int x"
      and "(of_int x :: rat) < of_int (2 ^ nat (bitlen x))"
      by (simp_all only: of_int_le_iff of_int_less_iff)
    then show ?thesis using ge by (simp add: power_int_def)
  qed
  have lo: "2 powi (a - b - 1) \<le> q"
  proof -
    have "(2::rat) powi (a - b - 1) = 2 powi (a - 1) / 2 powi b"
      unfolding powi_div by (simp add: algebra_simps)
    also have "\<dots> \<le> of_int n / of_int d"
      using bit [OF n] bit [OF d] d n unfolding a_def b_def by (intro frac_le) auto
    finally show ?thesis by (simp add: q)
  qed
  have hi: "q < 2 powi (a - b + 1)"
  proof -
    have "of_int n / of_int d < (2::rat) powi a / 2 powi (b - 1)"
      using bit [OF n] bit [OF d] d n unfolding a_def b_def by (intro frac_less) auto
    also have "\<dots> = 2 powi (a - b + 1)"
      unfolding powi_div by (simp add: algebra_simps)
    finally show ?thesis by (simp add: q)
  qed
  have "ilog2 q = (if 2 powi (a - b) \<le> q then a - b else a - b - 1)"
    by (simp add: ilog2_def nd a_def b_def Let_def p2_def)
  with lo hi show "2 powi (ilog2 q) \<le> q" "q < 2 powi (ilog2 q + 1)"
    by (auto split: if_splits)
qed

lemma ilog2_unique:
  assumes "2 powi k \<le> q" and "q < 2 powi (k + 1)"
  shows "ilog2 q = k"
proof -
  have "0 < q" using two_powi_pos assms(1) by (rule less_le_trans)
  note b = ilog2_bounds [OF this]
  have "(2::rat) powi ilog2 q < 2 powi (k + 1)" and "(2::rat) powi k < 2 powi (ilog2 q + 1)"
    using b assms by linarith+
  then show ?thesis by (simp only: powi_less_iff)
qed

lemma ilog2_mono:
  assumes "0 < p" and "p \<le> q"
  shows "ilog2 p \<le> ilog2 q"
proof -
  have "0 < q" using assms by linarith
  then have "(2::rat) powi ilog2 p < 2 powi (ilog2 q + 1)"
    using ilog2_bounds [of p] ilog2_bounds [of q] assms by linarith
  then show ?thesis by (simp only: powi_less_iff)
qed

lemma overflows_code [code]: "overflows r \<longleftrightarrow> r \<noteq> 0 \<and> 1024 \<le> ilog2 \<bar>r\<bar>"
proof (cases "r = 0")
  case True
  then show ?thesis by (simp add: overflows_def p2_def)
next
  case False
  then have pos: "0 < \<bar>r\<bar>" by simp
  have "2 powi 1024 \<le> \<bar>r\<bar>" if "1024 \<le> ilog2 \<bar>r\<bar>"
  proof -
    have "(2::rat) powi 1024 \<le> 2 powi (ilog2 \<bar>r\<bar>)" using that by (simp only: powi_le_iff)
    then show ?thesis using ilog2_bounds(1) [OF pos] by (rule order_trans)
  qed
  moreover have "1024 \<le> ilog2 \<bar>r\<bar>" if "2 powi 1024 \<le> \<bar>r\<bar>"
  proof -
    have "(2::rat) powi 1024 < 2 powi (ilog2 \<bar>r\<bar> + 1)"
      using that ilog2_bounds(2) [OF pos] by (rule le_less_trans)
    then show ?thesis by (simp only: powi_less_iff)
  qed
  ultimately show ?thesis using False by (auto simp: overflows_def p2_def)
qed

lemma round_half_even_of_int [simp]: "round_half_even (of_int m) = m"
  by (simp add: round_half_even_def)

lemma round_half_even_bounds:
  "\<lfloor>q\<rfloor> \<le> round_half_even q" "round_half_even q \<le> \<lfloor>q\<rfloor> + 1"
  "\<bar>of_int (round_half_even q) - q\<bar> \<le> 1 / 2"
proof -
  show "\<lfloor>q\<rfloor> \<le> round_half_even q" "round_half_even q \<le> \<lfloor>q\<rfloor> + 1"
    by (auto simp: round_half_even_def Let_def)
  have "of_int \<lfloor>q\<rfloor> \<le> q" "q < of_int \<lfloor>q\<rfloor> + 1"
    by linarith+
  then show "\<bar>of_int (round_half_even q) - q\<bar> \<le> 1 / 2"
    by (auto simp: round_half_even_def Let_def abs_le_iff)
qed

lemma round_half_even_mono:
  assumes "p \<le> q"
  shows "round_half_even p \<le> round_half_even q"
proof (cases "\<lfloor>p\<rfloor> = \<lfloor>q\<rfloor>")
  case True
  then show ?thesis using assms by (auto simp: round_half_even_def Let_def)
next
  case False
  then have "\<lfloor>p\<rfloor> + 1 \<le> \<lfloor>q\<rfloor>"
    using floor_mono [OF assms] by linarith
  then show ?thesis
    using round_half_even_bounds(2) [of p] round_half_even_bounds(1) [of q] by linarith
qed

lemma round_half_even_minus: "round_half_even (- q) = - round_half_even q"
proof (cases "q = of_int \<lfloor>q\<rfloor>")
  case True
  then show ?thesis by (metis of_int_minus round_half_even_of_int)
next
  case False
  then have "\<lfloor>- q\<rfloor> = - \<lfloor>q\<rfloor> - 1"
    by linarith
  then show ?thesis by (auto simp: round_half_even_def Let_def)
qed

lemma ulp_exponent_minus [simp]: "ulp_exponent (- q) = ulp_exponent q"
  by (simp add: ulp_exponent_def)

lemma round_finite_0 [simp]: "round_finite 0 = 0"
  by (simp add: round_finite_def)

lemma round_finite_minus: "round_finite (- q) = - round_finite q"
  by (simp add: round_finite_def Let_def round_half_even_minus p2_def)

lemma round_finite_nonneg:
  assumes "0 \<le> q"
  shows "0 \<le> round_finite q"
proof -
  have "round_half_even 0 \<le> round_half_even (q / 2 powi ulp_exponent q)"
    using assms by (intro round_half_even_mono) simp
  then have "0 \<le> round_half_even (q / 2 powi ulp_exponent q)"
    using round_half_even_of_int [of 0] by simp
  then show ?thesis by (simp add: round_finite_def Let_def p2_def)
qed

text \<open>The significand of a normal number has 53 bits, of a subnormal one at most 53.\<close>

lemma scaled_bounds:
  assumes "0 < q"
  shows "q / 2 powi ulp_exponent q < 2 ^ 53"
    and "- 1074 < ulp_exponent q \<Longrightarrow> 2 ^ 52 \<le> q / 2 powi ulp_exponent q"
proof -
  let ?e = "ulp_exponent q"
  have "(2::rat) powi (ilog2 q + 1) \<le> 2 powi (?e + 53)"
    using assms by (simp only: powi_le_iff) (simp add: ulp_exponent_def)
  then have "q < 2 powi (?e + 53)"
    using ilog2_bounds(2) [OF assms] by (rule less_le_trans [rotated])
  also have "\<dots> = 2 ^ 53 * 2 powi ?e"
    by (simp add: power_int_add)
  finally show "q / 2 powi ?e < 2 ^ 53"
    by (simp only: pos_divide_less_eq [OF two_powi_pos])
  assume "- 1074 < ?e"
  then have "?e + 52 = ilog2 q"
    using assms by (simp add: ulp_exponent_def)
  then have "2 ^ 52 * 2 powi ?e = (2::rat) powi ilog2 q"
    by (metis mult.commute power_int_add power_int_numeral zero_neq_numeral)
  then have "2 ^ 52 * 2 powi ?e \<le> q"
    using ilog2_bounds(1) [OF assms] by simp
  then show "2 ^ 52 \<le> q / 2 powi ?e"
    by (simp only: pos_le_divide_eq [OF two_powi_pos])
qed

lemma ulp_exponent_mono: "0 < p \<Longrightarrow> p \<le> q \<Longrightarrow> ulp_exponent p \<le> ulp_exponent q"
  using ilog2_mono [of p q] by (simp add: ulp_exponent_def)

lemma round_finite_mono_pos:
  assumes "0 < p" and "p \<le> q"
  shows "round_finite p \<le> round_finite q"
proof (cases "ulp_exponent p = ulp_exponent q")
  case True
  have "round_half_even (p / 2 powi ulp_exponent q) \<le> round_half_even (q / 2 powi ulp_exponent q)"
    using assms(2) by (intro round_half_even_mono divide_right_mono) auto
  then show ?thesis
    using assms True by (simp add: round_finite_def Let_def p2_def)
next
  case False
  let ?a = "ulp_exponent p" and ?b = "ulp_exponent q"
  have lt: "?a < ?b"
    using ulp_exponent_mono [OF assms] False by linarith
  then have "- 1074 < ?b" by (simp add: ulp_exponent_def)
  have q: "0 < q" using assms by linarith
  have "round_half_even (p / 2 powi ?a) \<le> round_half_even (of_int (2 ^ 53))"
    using scaled_bounds(1) [OF assms(1)] by (intro round_half_even_mono) simp
  then have "of_int (round_half_even (p / 2 powi ?a)) \<le> (2::rat) ^ 53"
    unfolding round_half_even_of_int
    using of_int_le_iff [of "round_half_even (p / 2 powi ?a)" "2 ^ 53", where ?'a = rat] by simp
  then have "round_finite p \<le> 2 ^ 53 * 2 powi ?a"
    using assms(1) by (simp add: round_finite_def Let_def mult_right_mono p2_def)
  also have "\<dots> = 2 powi (?a + 53)"
    by (simp add: power_int_add)
  also have "\<dots> \<le> 2 powi (?b + 52)"
    using lt by (simp only: powi_le_iff)
  also have "\<dots> = 2 ^ 52 * 2 powi ?b"
    by (simp add: power_int_add)
  also have "\<dots> \<le> round_finite q"
  proof -
    have "round_half_even (of_int (2 ^ 52)) \<le> round_half_even (q / 2 powi ?b)"
      using scaled_bounds(2) [OF q \<open>- 1074 < ?b\<close>] by (intro round_half_even_mono) simp
    then have "(2::rat) ^ 52 \<le> of_int (round_half_even (q / 2 powi ?b))"
      unfolding round_half_even_of_int
      using of_int_le_iff [of "2 ^ 52" "round_half_even (q / 2 powi ?b)", where ?'a = rat] by simp
    then show ?thesis using q by (simp add: round_finite_def Let_def mult_right_mono p2_def)
  qed
  finally show ?thesis .
qed

lemma round_finite_mono:
  assumes "p \<le> q"
  shows "round_finite p \<le> round_finite q"
proof -
  consider "0 < p" | "p = 0" | "p < 0" "0 \<le> q" | "q < 0" "p < 0" using assms by linarith
  then show ?thesis
  proof cases
    case 1 then show ?thesis using assms by (rule round_finite_mono_pos)
  next
    case 2 then show ?thesis using assms by (simp add: round_finite_nonneg)
  next
    case 3
    then have "0 \<le> round_finite (- p)" and "0 \<le> round_finite q"
      by (simp_all add: round_finite_nonneg)
    then show ?thesis by (simp add: round_finite_minus)
  next
    case 4
    then have "round_finite (- q) \<le> round_finite (- p)"
      using assms by (intro round_finite_mono_pos) auto
    then show ?thesis by (simp add: round_finite_minus)
  qed
qed

definition representable :: "rat \<Rightarrow> bool" where
  "representable q \<longleftrightarrow>
     (\<exists>m e. q = of_int m * 2 powi e \<and> \<bar>m\<bar> \<le> 2 ^ 53 \<and> - 1074 \<le> e)"

lemma round_finite_exact:
  assumes "representable q"
  shows "round_finite q = q"
proof (cases "q = 0")
  case False
  obtain m e where q: "q = of_int m * 2 powi e" and m: "\<bar>m\<bar> \<le> 2 ^ 53" and e: "- 1074 \<le> e"
    using assms by (auto simp: representable_def)
  let ?u = "ulp_exponent q"
  have pos: "0 < \<bar>q\<bar>" using False by simp
  have "?u \<le> e \<or> \<bar>m\<bar> = 2 ^ 53 \<and> ?u = e + 1"
  proof -
    have "\<bar>q\<bar> = of_int \<bar>m\<bar> * 2 powi e"
      by (simp add: q abs_mult)
    also have "\<dots> \<le> of_int (2 ^ 53) * 2 powi e"
      using m by (intro mult_right_mono) (simp_all only: of_int_le_iff, simp)
    also have "\<dots> = 2 powi (e + 53)"
      by (simp add: power_int_add)
    finally have le: "\<bar>q\<bar> \<le> 2 powi (e + 53)" .
    have "2 powi (ilog2 \<bar>q\<bar>) \<le> (2::rat) powi (e + 53)"
      using ilog2_bounds(1) [OF pos] le by (rule order_trans)
    then have "ilog2 \<bar>q\<bar> \<le> e + 53" by (simp only: powi_le_iff)
    moreover have "\<bar>m\<bar> = 2 ^ 53" if "ilog2 \<bar>q\<bar> = e + 53"
    proof -
      have "2 powi (e + 53) \<le> \<bar>q\<bar>" using ilog2_bounds(1) [OF pos] that by simp
      with le have "of_int \<bar>m\<bar> * 2 powi e = (of_int (2 ^ 53) :: rat) * 2 powi e"
        by (simp add: q abs_mult power_int_add)
      then have "(of_int \<bar>m\<bar> :: rat) = of_int (2 ^ 53)"
        by (simp only: mult_cancel_right) simp
      then show ?thesis by (simp only: of_int_eq_iff)
    qed
    ultimately show ?thesis
      using e by (cases "ilog2 \<bar>q\<bar> = e + 53") (auto simp: ulp_exponent_def)
  qed
  then obtain k where k: "q / 2 powi ?u = of_int k"
  proof
    assume le: "?u \<le> e"
    have "q / 2 powi ?u = of_int m * 2 powi (e - ?u)"
      by (simp add: q power_int_diff)
    also have "\<dots> = of_int (m * 2 ^ nat (e - ?u))"
      using le by (simp add: power_int_def)
    finally show ?thesis by (rule that)
  next
    assume *: "\<bar>m\<bar> = 2 ^ 53 \<and> ?u = e + 1"
    then have "2 dvd \<bar>m\<bar>" by (simp only:) simp
    then obtain k where "m = 2 * k" by (auto)
    have "q / 2 powi ?u = of_int m / 2"
      by (subst q) (simp add: * power_int_add)
    also have "\<dots> = of_int k"
      by (simp add: \<open>m = 2 * k\<close>)
    finally show ?thesis by (rule that)
  qed
  then have "round_finite q = of_int k * 2 powi ?u"
    using False by (simp add: round_finite_def Let_def p2_def)
  also have "\<dots> = q"
    unfolding k [symmetric] by simp
  finally show ?thesis .
qed simp

lemma rnd_exact: "representable q \<Longrightarrow> \<not> overflows q \<Longrightarrow> rnd q = Fin q"
  by (simp add: rnd_def round_finite_exact)

text \<open>Rounding is idempotent: what it gives is a double.\<close>

lemma representable_minus: "representable q \<Longrightarrow> representable (- q)"
proof -
  assume "representable q"
  then obtain m e where "q = of_int m * 2 powi e" "\<bar>m\<bar> \<le> 2 ^ 53" "- 1074 \<le> e"
    by (auto simp: representable_def)
  then show ?thesis
    unfolding representable_def by (intro exI [of _ "- m"] exI [of _ e]) simp
qed

lemma representable_round_pos:
  assumes "0 < q"
  shows "representable (round_finite q)"
proof -
  let ?e = "ulp_exponent q"
  let ?m = "round_half_even (q / 2 powi ?e)"
  have "round_half_even (q / 2 powi ?e) \<le> round_half_even (of_int (2 ^ 53))"
    using scaled_bounds(1) [OF assms] by (intro round_half_even_mono) simp
  then have "?m \<le> 2 ^ 53" unfolding round_half_even_of_int .
  moreover have "round_half_even (of_int 0) \<le> ?m"
    using assms by (intro round_half_even_mono) simp
  then have "0 \<le> ?m" unfolding round_half_even_of_int .
  moreover have "round_finite q = of_int ?m * 2 powi ?e"
    using assms by (simp add: round_finite_def Let_def p2_def)
  moreover have "- 1074 \<le> ?e" by (simp add: ulp_exponent_def)
  ultimately show ?thesis
    unfolding representable_def by (intro exI [of _ ?m] exI [of _ ?e]) simp
qed

lemma representable_round_finite: "representable (round_finite q)"
proof (cases q "0 :: rat" rule: linorder_cases)
  case less
  then show ?thesis
    using representable_minus [OF representable_round_pos [of "- q"]] by (simp add: round_finite_minus)
next
  case equal
  then show ?thesis
    unfolding representable_def by (intro exI [of _ 0]) auto
qed (rule representable_round_pos)

lemma rnd_idem: "rnd q = Fin r \<Longrightarrow> rnd r = Fin r"
  using representable_round_finite [of q] by (auto simp: rnd_def Let_def round_finite_exact split: if_splits)

lemma round_finite_of_int_pow2:
  "\<bar>m\<bar> \<le> 2 ^ 53 \<Longrightarrow> round_finite (of_int m / 2 ^ k) = of_int m / 2 ^ k" if "k \<le> 1074"
proof -
  assume m: "\<bar>m\<bar> \<le> 2 ^ 53"
  have "of_int m / 2 ^ k = of_int m * (2::rat) powi (- int k)"
    by (simp add: power_int_minus divide_inverse)
  then have "representable (of_int m / 2 ^ k)"
    using m that unfolding representable_def by (intro exI [of _ m] exI [of _ "- int k"]) auto
  then show ?thesis by (rule round_finite_exact)
qed

lemma not_overflows:
  assumes "\<bar>q\<bar> \<le> 2 ^ 1000"
  shows "\<not> overflows q"
proof -
  have "\<bar>q\<bar> < 2 powi 1024"
    by (rule le_less_trans [OF assms]) (simp add: power_int_def power_strict_increasing)
  then show ?thesis by (simp add: overflows_def p2_def)
qed

lemma rnd_of_int_pow2:
  assumes "\<bar>m\<bar> \<le> 2 ^ 53" and "k \<le> 1074"
  shows "rnd (of_int m / 2 ^ k) = Fin (of_int m / 2 ^ k)"
proof -
  have "\<bar>of_int m / 2 ^ k\<bar> \<le> (of_int \<bar>m\<bar> :: rat)"
    by (simp add: divide_le_eq mult_le_cancel_left1)
  also have "\<dots> \<le> of_int (2 ^ 53)"
    using assms(1) by (simp only: of_int_le_iff)
  also have "\<dots> \<le> 2 ^ 1000"
    unfolding of_int_power of_int_numeral by (rule power_increasing) simp_all
  finally have "\<not> overflows (of_int m / 2 ^ k)"
    by (rule not_overflows)
  then show ?thesis
    using round_finite_of_int_pow2 [OF assms(2,1)] by (simp add: rnd_def Let_def)
qed

lemma rnd_0 [simp]: "rnd 0 = Fin 0"
  by (simp add: rnd_def not_overflows)

lemma rnd_FinD: "rnd q = Fin r \<Longrightarrow> r = round_finite q"
  by (auto simp: rnd_def Let_def split: if_splits)

lemma rnd_mono: "p \<le> q \<Longrightarrow> rnd p = Fin a \<Longrightarrow> rnd q = Fin b \<Longrightarrow> a \<le> b"
  by (auto dest!: rnd_FinD intro: round_finite_mono)

section \<open>Operations\<close>

fun is_fin :: "Double \<Rightarrow> bool" where
  "is_fin (Fin q) = True"
| "is_fin _ = False"

definition d_of_int :: "int \<Rightarrow> Double" where
  "d_of_int n = rnd (of_int n)"

fun d_neg :: "Double \<Rightarrow> Double" where
  "d_neg (Fin q) = Fin (- q)"
| "d_neg PInf = NInf"
| "d_neg NInf = PInf"
| "d_neg NaN = NaN"

fun d_add :: "Double \<Rightarrow> Double \<Rightarrow> Double" where
  "d_add (Fin a) (Fin b) = rnd (a + b)"
| "d_add NaN _ = NaN"
| "d_add _ NaN = NaN"
| "d_add PInf NInf = NaN"
| "d_add NInf PInf = NaN"
| "d_add PInf _ = PInf"
| "d_add _ PInf = PInf"
| "d_add NInf _ = NInf"
| "d_add _ NInf = NInf"

definition d_sub :: "Double \<Rightarrow> Double \<Rightarrow> Double" where
  "d_sub a b = d_add a (d_neg b)"

definition signed_inf :: "rat \<Rightarrow> Double" where
  "signed_inf s = (if 0 < s then PInf else if s < 0 then NInf else NaN)"

fun d_sign :: "Double \<Rightarrow> rat" where
  "d_sign (Fin q) = sgn q"
| "d_sign PInf = 1"
| "d_sign NInf = - 1"
| "d_sign NaN = 0"

fun d_mul :: "Double \<Rightarrow> Double \<Rightarrow> Double" where
  "d_mul (Fin a) (Fin b) = rnd (a * b)"
| "d_mul NaN _ = NaN"
| "d_mul _ NaN = NaN"
| "d_mul a b = signed_inf (d_sign a * d_sign b)"

text \<open>Division by \<open>Fin 0\<close> is division by a positive zero.\<close>

fun d_div :: "Double \<Rightarrow> Double \<Rightarrow> Double" where
  "d_div (Fin a) (Fin b) = (if b = 0 then signed_inf a else rnd (a / b))"
| "d_div NaN _ = NaN"
| "d_div _ NaN = NaN"
| "d_div (Fin a) _ = Fin 0"
| "d_div a (Fin b) = signed_inf (d_sign a * (if b < 0 then - 1 else 1))"
| "d_div _ _ = NaN"

fun d_less :: "Double \<Rightarrow> Double \<Rightarrow> bool" where
  "d_less (Fin a) (Fin b) = (a < b)"
| "d_less NaN _ = False"
| "d_less _ NaN = False"
| "d_less NInf b = (b \<noteq> NInf)"
| "d_less a PInf = (a \<noteq> PInf)"
| "d_less _ _ = False"

text \<open>\<^verbatim>\<open>std::min(a, b)\<close> is \<^verbatim>\<open>b < a ? b : a\<close>, \<^verbatim>\<open>std::max(a, b)\<close> is \<^verbatim>\<open>a < b ? b : a\<close>.\<close>

definition d_min :: "Double \<Rightarrow> Double \<Rightarrow> Double" where
  "d_min a b = (if d_less b a then b else a)"

definition d_max :: "Double \<Rightarrow> Double \<Rightarrow> Double" where
  "d_max a b = (if d_less a b then b else a)"

text \<open>\<^verbatim>\<open>std::round\<close>: to the nearest integer, halves away from zero (exact, so never rounded).\<close>

definition round_half_away :: "rat \<Rightarrow> int" where
  "round_half_away q = (if 0 \<le> q then \<lfloor>q + 1 / 2\<rfloor> else - \<lfloor>- q + 1 / 2\<rfloor>)"

fun d_round :: "Double \<Rightarrow> Double" where
  "d_round (Fin q) = Fin (of_int (round_half_away q))"
| "d_round d = d"

text \<open>\<^verbatim>\<open>static_cast<int64_t>\<close>: truncation; undefined when the integer does not fit.\<close>

definition trunc_rat :: "rat \<Rightarrow> int" where
  "trunc_rat q = (if 0 \<le> q then \<lfloor>q\<rfloor> else - \<lfloor>- q\<rfloor>)"

fun d_to_i64 :: "Double \<Rightarrow> int outcome" where
  "d_to_i64 (Fin q) =
     (let n = trunc_rat q in if - (2 ^ 63) \<le> n \<and> n < 2 ^ 63 then Inr n else Inl UB_float_to_int)"
| "d_to_i64 _ = Inl UB_float_to_int"

section \<open>Lemmas on the operations\<close>

lemma d_less_irrefl: "\<not> d_less a a"
  by (cases a) auto

lemma d_less_trans: "d_less a b \<Longrightarrow> d_less b c \<Longrightarrow> d_less a c"
  by (cases a; cases b; cases c) auto

lemma d_less_asym: "d_less a b \<Longrightarrow> \<not> d_less b a"
  by (cases a; cases b) auto

lemma trunc_rat_of_int [simp]: "trunc_rat (of_int n) = n"
  by (simp add: trunc_rat_def flip: of_int_minus)

lemma trunc_rat_mono:
  assumes "p \<le> q"
  shows "trunc_rat p \<le> trunc_rat q"
proof -
  consider "0 \<le> p" | "p < 0" "0 \<le> q" | "q < 0" using assms by linarith
  then show ?thesis
  proof cases
    case 1 then show ?thesis using assms by (simp add: trunc_rat_def floor_mono)
  next
    case 2
    then have "0 \<le> \<lfloor>- p\<rfloor>" "0 \<le> \<lfloor>q\<rfloor>" by (simp_all add: le_floor_iff)
    then have "- \<lfloor>- p\<rfloor> \<le> \<lfloor>q\<rfloor>" by linarith
    with 2 show ?thesis unfolding trunc_rat_def by (simp only: not_le [symmetric] if_True if_False)
  next
    case 3
    have "\<lfloor>- q\<rfloor> \<le> \<lfloor>- p\<rfloor>" using assms by (intro floor_mono) simp
    with 3 assms show ?thesis by (simp add: trunc_rat_def)
  qed
qed

lemma trunc_rat_error: "\<bar>of_int (trunc_rat q) - q\<bar> < 1"
proof (cases "0 \<le> q")
  case True
  then show ?thesis
    using floor_correct [of q] by (simp add: trunc_rat_def abs_less_iff)
next
  case False
  define k where "k = \<lfloor>- q\<rfloor>"
  have "of_int k \<le> - q" and "- q < of_int k + 1"
    unfolding k_def by linarith+
  moreover have "trunc_rat q = - k"
    using False by (simp add: trunc_rat_def k_def)
  ultimately show ?thesis by (simp add: abs_less_iff)
qed

lemma trunc_rat_abs_le: "\<bar>of_int (trunc_rat q)\<bar> \<le> \<bar>q\<bar>"
proof (cases "0 \<le> q")
  case True
  then have "0 \<le> \<lfloor>q\<rfloor>" by simp
  with True show ?thesis
    using floor_correct [of q] by (simp add: trunc_rat_def)
next
  case False
  then have "0 \<le> \<lfloor>- q\<rfloor>" by simp
  with False show ?thesis
    using floor_correct [of "- q"] by (simp add: trunc_rat_def del: floor_correct)
qed

lemma round_half_away_of_int [simp]: "round_half_away (of_int n) = n"
proof -
  have "\<lfloor>of_int k + 1 / 2 :: rat\<rfloor> = k" for k by linarith
  from this [of n] this [of "- n"] show ?thesis by (simp add: round_half_away_def)
qed

lemma d_to_i64_bounds: "d_to_i64 d = Inr n \<Longrightarrow> - (2 ^ 63) \<le> n \<and> n < 2 ^ 63"
  by (cases d) (auto simp: Let_def split: if_splits)

lemma d_to_i64_InrD:
  assumes "d_to_i64 d = Inr n"
  obtains q where "d = Fin q" and "n = trunc_rat q"
proof (cases d)
  case (Fin q)
  with assms have "n = trunc_rat q"
    by (simp add: Let_def split: if_splits)
  with Fin show thesis by (rule that)
qed (use assms in simp_all)

end
