(* ===== verification/Fixed_Decimal.thy ===== *)
theory Fixed_Decimal
  imports Binary64
begin

text \<open>
  \<^verbatim>\<open>Decimal\<close> of \<^verbatim>\<open>core/types.hpp\<close>: a 64-bit raw value with 32 fractional bits, and its conversions
  from and to \<^verbatim>\<open>double\<close>. The arithmetic of \<^verbatim>\<open>fpm::fixed\<close> is a third-party library; the operations
  the sources call are the record \<open>fpm_ops\<close>, an argument of the definitions that use them, and
  \<open>fpm_raw_order\<close> names what the library documents about comparison.
\<close>

section \<open>The type and its conversions\<close>

datatype Decimal = from_raw_value (raw_value: i64)

definition decimal_scale :: Double where
  "decimal_scale = Fin (2 ^ 32)"

definition toDecimal :: "Double \<Rightarrow> Decimal outcome" where
  "toDecimal value =
     bind_outcome (d_to_i64 (d_mul value decimal_scale)) (\<lambda>n. Inr (from_raw_value (word_of_int n)))"

definition toDouble :: "Decimal \<Rightarrow> Double" where
  "toDouble value = d_div (d_of_int (sint (raw_value value))) decimal_scale"

text \<open>The number a \<open>Decimal\<close> denotes.\<close>

definition decimal_rat :: "Decimal \<Rightarrow> rat" where
  "decimal_rat d = of_int (sint (raw_value d)) / 2 ^ 32"

definition decimal_zero :: Decimal where
  "decimal_zero = from_raw_value 0"

lemma sint_word_of_int_64:
  assumes "- (2 ^ 63) \<le> n" and "n < 2 ^ 63"
  shows "sint (word_of_int n :: i64) = n"
proof -
  have "signed_take_bit 63 n = n"
    using assms by (intro signed_take_bit_int_eq_self)
  then show ?thesis by (simp add: sint_sbintrunc')
qed

lemma sint_bounds_64: "- (2 ^ 63) \<le> sint (w :: i64) \<and> sint w < 2 ^ 63"
  using sint_ge [of w] sint_lt [of w] by simp

lemma Decimal_eqI: "sint (raw_value a) = sint (raw_value b) \<Longrightarrow> a = b"
  by (cases a; cases b) (simp add: signed_word_eqI)

text \<open>Decimals are ordered as their raw integers.\<close>

instantiation Decimal :: linorder
begin

definition less_eq_Decimal :: "Decimal \<Rightarrow> Decimal \<Rightarrow> bool" where
  "less_eq_Decimal a b \<longleftrightarrow> sint (raw_value a) \<le> sint (raw_value b)"

definition less_Decimal :: "Decimal \<Rightarrow> Decimal \<Rightarrow> bool" where
  "less_Decimal a b \<longleftrightarrow> sint (raw_value a) < sint (raw_value b)"

instance
proof
  fix a b c :: Decimal
  show "a < b \<longleftrightarrow> a \<le> b \<and> \<not> b \<le> a"
    by (auto simp: less_eq_Decimal_def less_Decimal_def)
  show "a \<le> a" by (simp add: less_eq_Decimal_def)
  show "a \<le> b \<Longrightarrow> b \<le> c \<Longrightarrow> a \<le> c" by (simp add: less_eq_Decimal_def)
  show "a \<le> b \<Longrightarrow> b \<le> a \<Longrightarrow> a = b"
    by (rule Decimal_eqI) (simp add: less_eq_Decimal_def)
  show "a \<le> b \<or> b \<le> a" by (auto simp: less_eq_Decimal_def)
qed

end

lemma toDouble_small:
  assumes "\<bar>sint (raw_value d)\<bar> \<le> 2 ^ 53"
  shows "toDouble d = Fin (decimal_rat d)"
  using rnd_of_int_pow2 [OF assms, of 0] rnd_of_int_pow2 [OF assms, of 32]
  by (simp add: toDouble_def d_of_int_def decimal_scale_def decimal_rat_def)

lemma representable_scale: "representable q \<Longrightarrow> representable (q * 2 ^ 32)"
proof -
  assume "representable q"
  then obtain m e where q: "q = of_int m * 2 powi e" and m: "\<bar>m\<bar> \<le> 2 ^ 53" "- 1074 \<le> e"
    by (auto simp: representable_def)
  have "q * 2 ^ 32 = of_int m * 2 powi (e + 32)"
    by (simp add: q power_int_add)
  then show ?thesis
    unfolding representable_def using m by (intro exI [of _ m] exI [of _ "e + 32"]) auto
qed

lemma toDecimal_Fin:
  assumes "representable q" and "- (2 ^ 31) \<le> q" and "q < 2 ^ 31"
  shows "toDecimal (Fin q) = Inr (from_raw_value (word_of_int (trunc_rat (q * 2 ^ 32))))"
    and "- (2 ^ 63) \<le> trunc_rat (q * 2 ^ 32)" and "trunc_rat (q * 2 ^ 32) < 2 ^ 63"
proof -
  have rep: "representable (q * 2 ^ 32)"
    using assms(1) by (rule representable_scale)
  have lo: "of_int (- (2 ^ 63)) \<le> q * 2 ^ 32" and hi: "q * 2 ^ 32 < of_int (2 ^ 63)"
    using assms(2,3) by simp_all
  have "\<bar>q * 2 ^ 32\<bar> \<le> of_int (2 ^ 63)"
    using lo hi by (simp add: abs_le_iff)
  also have "\<dots> \<le> 2 ^ 1000"
    unfolding of_int_power of_int_numeral by (rule power_increasing) simp_all
  finally have "\<not> overflows (q * 2 ^ 32)"
    by (rule not_overflows)
  then have r: "rnd (q * 2 ^ 32) = Fin (q * 2 ^ 32)"
    by (rule rnd_exact [OF rep])
  show l: "- (2 ^ 63) \<le> trunc_rat (q * 2 ^ 32)"
    using trunc_rat_mono [OF lo] unfolding trunc_rat_of_int .
  show h: "trunc_rat (q * 2 ^ 32) < 2 ^ 63"
  proof (cases "0 \<le> q")
    case True
    then show ?thesis using hi by (simp add: trunc_rat_def floor_less_iff)
  next
    case False
    then have "trunc_rat (q * 2 ^ 32) \<le> trunc_rat (of_int 0)" by (intro trunc_rat_mono) simp
    then show ?thesis unfolding trunc_rat_of_int by (rule le_less_trans) simp
  qed
  show "toDecimal (Fin q) = Inr (from_raw_value (word_of_int (trunc_rat (q * 2 ^ 32))))"
    using r l h by (simp add: toDecimal_def decimal_scale_def Let_def del: trunc_rat_of_int)
qed

lemma decimal_rat_word:
  assumes "- (2 ^ 63) \<le> n" and "n < 2 ^ 63"
  shows "decimal_rat (from_raw_value (word_of_int n)) = of_int n / 2 ^ 32"
  by (simp add: decimal_rat_def sint_word_of_int_64 [OF assms])

lemma toDecimal_InrD:
  assumes "toDecimal v = Inr d"
  obtains n where "d_to_i64 (d_mul v decimal_scale) = Inr n" and "d = from_raw_value (word_of_int n)"
    and "sint (raw_value d) = n"
proof -
  obtain n where n: "d_to_i64 (d_mul v decimal_scale) = Inr n" "d = from_raw_value (word_of_int n)"
    using assms by (auto simp: toDecimal_def bind_outcome_Inr_iff)
  then have "sint (raw_value d) = n"
    using d_to_i64_bounds [OF n(1)] by (simp add: sint_word_of_int_64)
  with n show thesis by (rule that)
qed

section \<open>Comparison in the library\<close>

text \<open>
  The operations of \<^verbatim>\<open>fpm::fixed\<close> that the sources call. What the library documents, and what the
  properties below rely on: values compare as their raw integers do.
\<close>

record fpm_ops =
  fpm_mul :: "Decimal \<Rightarrow> Decimal \<Rightarrow> Decimal"
  fpm_add :: "Decimal \<Rightarrow> Decimal \<Rightarrow> Decimal"
  fpm_sub :: "Decimal \<Rightarrow> Decimal \<Rightarrow> Decimal"
  fpm_less :: "Decimal \<Rightarrow> Decimal \<Rightarrow> bool"
  fpm_eq :: "Decimal \<Rightarrow> Decimal \<Rightarrow> bool"
  fpm_of_int :: "int \<Rightarrow> Decimal"

definition fpm_raw_order :: "fpm_ops \<Rightarrow> bool" where
  "fpm_raw_order F \<longleftrightarrow>
     (\<forall>a b. fpm_less F a b \<longleftrightarrow> a < b) \<and>
     (\<forall>a b. fpm_eq F a b \<longleftrightarrow> a = b) \<and>
     raw_value (fpm_of_int F 0) = 0"

definition fpm_sub_mul_zero :: "fpm_ops \<Rightarrow> bool" where
  "fpm_sub_mul_zero F \<longleftrightarrow>
     (\<forall>a. raw_value (fpm_sub F a a) = 0) \<and>
     (\<forall>a. raw_value (fpm_mul F a (from_raw_value 0)) = 0) \<and>
     (\<forall>a. raw_value (fpm_mul F (from_raw_value 0) a) = 0) \<and>
     (\<forall>a. fpm_add F a (from_raw_value 0) = a)"

text \<open>A concrete instance, for the witnesses: 64-bit raw arithmetic with a truncated product.\<close>

definition fpm_example :: fpm_ops where
  "fpm_example =
     \<lparr>fpm_mul = (\<lambda>a b. from_raw_value (word_of_int (sint (raw_value a) * sint (raw_value b) div 2 ^ 32))),
      fpm_add = (\<lambda>a b. from_raw_value (raw_value a + raw_value b)),
      fpm_sub = (\<lambda>a b. from_raw_value (raw_value a - raw_value b)),
      fpm_less = (\<lambda>a b. sint (raw_value a) < sint (raw_value b)),
      fpm_eq = (\<lambda>a b. raw_value a = raw_value b),
      fpm_of_int = (\<lambda>n. from_raw_value (word_of_int (n * 2 ^ 32)))\<rparr>"

lemma fpm_example_order: "fpm_raw_order fpm_example"
  by (auto simp: fpm_raw_order_def fpm_example_def less_Decimal_def intro: Decimal.expand)

lemma fpm_example_zero: "fpm_sub_mul_zero fpm_example"
  by (simp add: fpm_sub_mul_zero_def fpm_example_def)

section \<open>Properties\<close>

text \<open>
  Property C30: a \<open>Decimal\<close> whose raw value is at most \<open>2^53\<close> in magnitude (a price below 2,097,152)
  survives the trip through \<^verbatim>\<open>double\<close>: \<^verbatim>\<open>toDecimal(toDouble(d)) == d\<close>.
\<close>

theorem decimal_double_roundtrip:
  assumes "\<bar>sint (raw_value d)\<bar> \<le> 2 ^ 53"
  shows "toDecimal (toDouble d) = Inr d"
proof -
  define n where "n = sint (raw_value d)"
  have "rnd (of_int n) = Fin (of_int n)"
    using rnd_of_int_pow2 [of n 0] assms by (simp add: n_def)
  moreover have "decimal_rat d = of_int n / 2 ^ 32"
    by (simp only: decimal_rat_def n_def)
  moreover have "- (2 ^ 63) \<le> n \<and> n < 2 ^ 63"
    unfolding n_def by (rule sint_bounds_64)
  moreover have "word_of_int n = raw_value d"
    by (simp add: n_def)
  ultimately show ?thesis
    by (simp add: toDouble_small [OF assms] toDecimal_def decimal_scale_def Let_def)
qed

theorem decimal_double_roundtrip_witness:
  "toDecimal (toDouble (from_raw_value 5302428712960)) = Inr (from_raw_value 5302428712960)"
  by (rule decimal_double_roundtrip) simp

text \<open>
  The bound of the round trip is sharp, so the conversions do lose precision: the raw
  value \<open>2^53 + 1\<close> comes back as \<open>2^53\<close>.
\<close>

theorem decimal_double_roundtrip_sharp:
  "toDecimal (toDouble (from_raw_value (2 ^ 53 + 1))) = Inr (from_raw_value (2 ^ 53))"
proof -
  have "rnd (of_int 9007199254740993) = Fin (of_int 9007199254740992)"
    and "rnd (of_int 9007199254740992 / of_int 4294967296) = Fin (of_int 2097152)"
    and "rnd (of_int 9007199254740992) = Fin (of_int 9007199254740992)"
    by code_simp+
  moreover have "sint (9007199254740993 :: i64) = 9007199254740993"
    by simp
  ultimately show ?thesis
    using trunc_rat_of_int [of 9007199254740992]
    by (simp add: toDouble_def d_of_int_def toDecimal_def decimal_scale_def Let_def)
qed

text \<open>
  Property C31: on a double in \<open>[-2^31, 2^31)\<close>, \<^verbatim>\<open>toDecimal\<close> is defined, off by less than one unit of
  the last place \<open>2^-32\<close>, and never larger in magnitude than its argument (it truncates).
\<close>

theorem toDecimal_truncates:
  assumes "representable q" and "- (2 ^ 31) \<le> q" and "q < 2 ^ 31"
  shows "\<exists>d. toDecimal (Fin q) = Inr d \<and> \<bar>decimal_rat d - q\<bar> < 1 / 2 ^ 32 \<and> \<bar>decimal_rat d\<bar> \<le> \<bar>q\<bar>"
proof -
  let ?n = "trunc_rat (q * 2 ^ 32)"
  note F = toDecimal_Fin [OF assms]
  have d: "decimal_rat (from_raw_value (word_of_int ?n)) = of_int ?n / 2 ^ 32"
    by (rule decimal_rat_word) (rule F)+
  have "of_int ?n / 2 ^ 32 - q = (of_int ?n - q * 2 ^ 32) / 2 ^ 32"
    by (simp add: diff_divide_distrib)
  then have "\<bar>of_int ?n / 2 ^ 32 - q\<bar> = \<bar>(of_int ?n - q * 2 ^ 32) / 2 ^ 32\<bar>"
    by (simp only:)
  also have "\<dots> = \<bar>of_int ?n - q * 2 ^ 32\<bar> / 2 ^ 32"
    by (simp only: abs_divide) simp
  also have "\<dots> < 1 / 2 ^ 32"
    by (intro divide_strict_right_mono trunc_rat_error) simp
  finally have err: "\<bar>of_int ?n / 2 ^ 32 - q\<bar> < 1 / 2 ^ 32" .
  have "\<bar>of_int ?n / 2 ^ 32\<bar> \<le> \<bar>q\<bar>"
    using trunc_rat_abs_le [of "q * 2 ^ 32"] by (simp add: divide_le_eq abs_mult)
  with err show ?thesis
    by (intro exI [of _ "from_raw_value (word_of_int ?n)"] conjI F(1)) (simp_all only: d)
qed

lemma representable_of_int: "\<bar>n\<bar> \<le> 2 ^ 53 \<Longrightarrow> representable (of_int n)"
  unfolding representable_def by (intro exI [of _ n] exI [of _ 0]) auto

theorem toDecimal_truncates_witness:
  "\<exists>d. toDecimal (Fin 95) = Inr d \<and> \<bar>decimal_rat d - 95\<bar> < 1 / 2 ^ 32 \<and> \<bar>decimal_rat d\<bar> \<le> \<bar>95\<bar>"
  using representable_of_int [of 95] by (intro toDecimal_truncates) simp_all

lemma trunc_rat_ge: "2 ^ 31 \<le> q \<Longrightarrow> 2 ^ 63 \<le> trunc_rat (q * 2 ^ 32)"
  using trunc_rat_mono [of "of_int (2 ^ 63)" "q * 2 ^ 32"] unfolding trunc_rat_of_int by simp

text \<open>Below \<open>-2^31\<close> the doubles are at least \<open>2^-21\<close> apart, so truncation cannot reach back.\<close>

lemma scaled_below:
  assumes "representable q" and "q < - (2 ^ 31)"
  shows "trunc_rat (q * 2 ^ 32) < - (2 ^ 63)"
proof -
  obtain m e where q: "q = of_int m * 2 powi e" and m: "\<bar>m\<bar> \<le> 2 ^ 53" and e: "- 1074 \<le> e"
    using assms(1) by (auto simp: representable_def)
  have "- 32 \<le> e"
  proof (rule ccontr)
    assume "\<not> - 32 \<le> e"
    then have "(2::rat) powi e \<le> 2 powi (- 32)"
      by (simp only: powi_le_iff)
    moreover have "\<bar>of_int m\<bar> \<le> (2::rat) ^ 53"
      using m of_int_le_iff [of "\<bar>m\<bar>" "2 ^ 53", where ?'a = rat] by simp
    ultimately have "\<bar>of_int m\<bar> * 2 powi e \<le> (2::rat) ^ 53 * 2 powi (- 32)"
      by (intro mult_mono) auto
    then have "\<bar>q\<bar> \<le> 2 ^ 21"
      by (simp add: q abs_mult power_int_minus)
    with assms(2) show False by (simp add: abs_le_iff)
  qed
  then have "(2::rat) powi (e + 32) = of_int (2 ^ nat (e + 32))"
    by (simp add: power_int_def)
  moreover have "q * 2 ^ 32 = of_int m * 2 powi (e + 32)"
    by (simp add: q power_int_add)
  ultimately have "q * 2 ^ 32 = of_int (m * 2 ^ nat (e + 32))"
    by (simp only: of_int_mult)
  then obtain k where k: "q * 2 ^ 32 = of_int k" by blast
  have "(of_int k :: rat) < of_int (- (2 ^ 63))"
    unfolding k [symmetric] using assms(2) by simp
  then have "k < - (2 ^ 63)" by (simp only: of_int_less_iff)
  then show ?thesis by (simp only: k trunc_rat_of_int)
qed

lemma toDecimal_overflow:
  assumes "representable q" and *: "q < - (2 ^ 31) \<or> 2 ^ 31 \<le> q"
  shows "toDecimal (Fin q) = Inl UB_float_to_int"
proof (cases "rnd (q * 2 ^ 32)")
  case (Fin x)
  have x: "x = q * 2 ^ 32"
    using rnd_FinD [OF Fin] round_finite_exact [OF representable_scale [OF assms(1)]] by simp
  have "trunc_rat x < - (2 ^ 63) \<or> 2 ^ 63 \<le> trunc_rat x"
    unfolding x using * scaled_below [OF assms(1)] trunc_rat_ge [of q] by blast
  then show ?thesis
    using Fin by (auto simp: toDecimal_def decimal_scale_def Let_def)
qed (simp_all add: toDecimal_def decimal_scale_def)

text \<open>
  Property C33: the only finite doubles \<^verbatim>\<open>toDecimal\<close> cannot convert are those outside
  \<open>[-2^31, 2^31)\<close>, where the \<^verbatim>\<open>static_cast\<close> is undefined behaviour; the code has no check.
\<close>

theorem toDecimal_undefined_iff:
  assumes "representable q"
  shows "toDecimal (Fin q) = Inl UB_float_to_int \<longleftrightarrow> q < - (2 ^ 31) \<or> 2 ^ 31 \<le> q"
  using toDecimal_overflow [OF assms] toDecimal_Fin [OF assms] by (cases "q < - (2 ^ 31) \<or> 2 ^ 31 \<le> q") auto

theorem toDecimal_undefined_iff_witness:
  "toDecimal (Fin 3000000000) = Inl UB_float_to_int"
  using toDecimal_undefined_iff [OF representable_of_int [of 3000000000]] by simp

text \<open>Larger doubles never convert to smaller decimals.\<close>

lemma toDecimal_mono:
  assumes "p \<le> q" and "toDecimal (Fin p) = Inr a" and "toDecimal (Fin q) = Inr b"
  shows "a \<le> b"
proof -
  obtain n where n: "d_to_i64 (d_mul (Fin p) decimal_scale) = Inr n" "sint (raw_value a) = n"
    using assms(2) by (rule toDecimal_InrD)
  obtain m where m: "d_to_i64 (d_mul (Fin q) decimal_scale) = Inr m" "sint (raw_value b) = m"
    using assms(3) by (rule toDecimal_InrD)
  obtain x where x: "rnd (p * 2 ^ 32) = Fin x" "n = trunc_rat x"
    using n(1) unfolding decimal_scale_def d_mul.simps by (rule d_to_i64_InrD)
  obtain y where y: "rnd (q * 2 ^ 32) = Fin y" "m = trunc_rat y"
    using m(1) unfolding decimal_scale_def d_mul.simps by (rule d_to_i64_InrD)
  have "x \<le> y"
    by (rule rnd_mono [OF _ x(1) y(1)]) (simp add: assms(1))
  then show ?thesis
    unfolding less_eq_Decimal_def n(2) m(2) x(2) y(2) by (rule trunc_rat_mono)
qed

end
