(* ===== verification/Core_Types.thy ===== *)
theory Core_Types
  imports Fixed_Decimal
begin

text \<open>
  \<^verbatim>\<open>core/types.hpp\<close>: the enumerations with their underlying values and names, the message structs with
  their default constructors and memory layout, and \<^verbatim>\<open>Position\<close> with its profit queries. Enumerators
  that several C++ enums share carry a prefix; record fields carry the struct's.
\<close>

section \<open>Enumerations\<close>

datatype OrderSide = BUY | SELL

datatype ExchangeId = Exch_UNKNOWN | Exch_BINANCE | Exch_OKX

datatype TickSide = BID | ASK | TRADE

datatype OrderType = LIMIT | MARKET | STOP_LOSS | STOP_LIMIT

datatype TimeInForce = GTC | IOC | FOK | DAY

datatype ConnectionStatus = DISCONNECTED | CONNECTING | CONNECTED | RECONNECTING | Conn_ERROR

datatype ErrorSeverity = Sev_DEBUG | Sev_INFO | Sev_WARNING | Sev_ERROR | Sev_CRITICAL

datatype LogLevel = Log_TRACE | Log_DEBUG | Log_INFO | Log_WARNING | Log_ERROR | Log_CRITICAL

datatype EventType = Ev_TICK | Ev_ORDER | Ev_FILL | Ev_SNAPSHOT | Ev_TIMER

datatype OrderStatus = PENDING | ACCEPTED | REJECTED | PARTIALLY_FILLED | FILLED | CANCELLED | EXPIRED

text \<open>The underlying values, \<^verbatim>\<open>static_cast<uint8_t>(e)\<close>.\<close>

fun OrderSide_value :: "OrderSide \<Rightarrow> u8" where
  "OrderSide_value BUY = 0"
| "OrderSide_value SELL = 1"

fun ExchangeId_value :: "ExchangeId \<Rightarrow> u32" where
  "ExchangeId_value Exch_UNKNOWN = 0"
| "ExchangeId_value Exch_BINANCE = 1"
| "ExchangeId_value Exch_OKX = 2"

fun TickSide_value :: "TickSide \<Rightarrow> u8" where
  "TickSide_value BID = 0"
| "TickSide_value ASK = 1"
| "TickSide_value TRADE = 2"

fun OrderType_value :: "OrderType \<Rightarrow> u8" where
  "OrderType_value LIMIT = 0"
| "OrderType_value MARKET = 1"
| "OrderType_value STOP_LOSS = 2"
| "OrderType_value STOP_LIMIT = 3"

fun TimeInForce_value :: "TimeInForce \<Rightarrow> u8" where
  "TimeInForce_value GTC = 0"
| "TimeInForce_value IOC = 1"
| "TimeInForce_value FOK = 2"
| "TimeInForce_value DAY = 3"

fun ConnectionStatus_value :: "ConnectionStatus \<Rightarrow> u8" where
  "ConnectionStatus_value DISCONNECTED = 0"
| "ConnectionStatus_value CONNECTING = 1"
| "ConnectionStatus_value CONNECTED = 2"
| "ConnectionStatus_value RECONNECTING = 3"
| "ConnectionStatus_value Conn_ERROR = 4"

fun ErrorSeverity_value :: "ErrorSeverity \<Rightarrow> u8" where
  "ErrorSeverity_value Sev_DEBUG = 0"
| "ErrorSeverity_value Sev_INFO = 1"
| "ErrorSeverity_value Sev_WARNING = 2"
| "ErrorSeverity_value Sev_ERROR = 3"
| "ErrorSeverity_value Sev_CRITICAL = 4"

fun LogLevel_value :: "LogLevel \<Rightarrow> u8" where
  "LogLevel_value Log_TRACE = 0"
| "LogLevel_value Log_DEBUG = 1"
| "LogLevel_value Log_INFO = 2"
| "LogLevel_value Log_WARNING = 3"
| "LogLevel_value Log_ERROR = 4"
| "LogLevel_value Log_CRITICAL = 5"

fun EventType_value :: "EventType \<Rightarrow> u8" where
  "EventType_value Ev_TICK = 0"
| "EventType_value Ev_ORDER = 1"
| "EventType_value Ev_FILL = 2"
| "EventType_value Ev_SNAPSHOT = 3"
| "EventType_value Ev_TIMER = 4"

fun OrderStatus_value :: "OrderStatus \<Rightarrow> u8" where
  "OrderStatus_value PENDING = 0"
| "OrderStatus_value ACCEPTED = 1"
| "OrderStatus_value REJECTED = 2"
| "OrderStatus_value PARTIALLY_FILLED = 3"
| "OrderStatus_value FILLED = 4"
| "OrderStatus_value CANCELLED = 5"
| "OrderStatus_value EXPIRED = 6"

text \<open>
  Relational operators on a scoped enumeration compare the underlying values: the severities are
  linearly ordered.
\<close>

instantiation ErrorSeverity :: linorder
begin

definition less_eq_ErrorSeverity :: "ErrorSeverity \<Rightarrow> ErrorSeverity \<Rightarrow> bool" where
  "less_eq_ErrorSeverity a b \<longleftrightarrow> ErrorSeverity_value a \<le> ErrorSeverity_value b"

definition less_ErrorSeverity :: "ErrorSeverity \<Rightarrow> ErrorSeverity \<Rightarrow> bool" where
  "less_ErrorSeverity a b \<longleftrightarrow> ErrorSeverity_value a < ErrorSeverity_value b"

instance
proof
  fix a b c :: ErrorSeverity
  show "a < b \<longleftrightarrow> a \<le> b \<and> \<not> b \<le> a"
    by (auto simp: less_eq_ErrorSeverity_def less_ErrorSeverity_def)
  show "a \<le> a" by (simp add: less_eq_ErrorSeverity_def)
  show "a \<le> b \<Longrightarrow> b \<le> c \<Longrightarrow> a \<le> c" by (simp add: less_eq_ErrorSeverity_def)
  show "a \<le> b \<Longrightarrow> b \<le> a \<Longrightarrow> a = b"
    by (cases a; cases b) (auto simp: less_eq_ErrorSeverity_def word_le_nat_alt)
  show "a \<le> b \<or> b \<le> a" by (auto simp: less_eq_ErrorSeverity_def)
qed

end

section \<open>Names of the enumerators\<close>

text \<open>
  The \<^verbatim>\<open>toString\<close> overloads switch over the stored byte: a value that is no enumerator (it can come
  from a log file or a cast) falls to the \<^verbatim>\<open>default\<close> label.
\<close>

definition toString_OrderSide :: "u8 \<Rightarrow> string" where
  "toString_OrderSide side =
     (if side = OrderSide_value BUY then ''BUY''
      else if side = OrderSide_value SELL then ''SELL''
      else ''UNKNOWN'')"

definition toString_OrderType :: "u8 \<Rightarrow> string" where
  "toString_OrderType type =
     (if type = OrderType_value LIMIT then ''LIMIT''
      else if type = OrderType_value MARKET then ''MARKET''
      else if type = OrderType_value STOP_LOSS then ''STOP_LOSS''
      else if type = OrderType_value STOP_LIMIT then ''STOP_LIMIT''
      else ''UNKNOWN'')"

definition toString_TimeInForce :: "u8 \<Rightarrow> string" where
  "toString_TimeInForce tif =
     (if tif = TimeInForce_value GTC then ''GTC''
      else if tif = TimeInForce_value IOC then ''IOC''
      else if tif = TimeInForce_value FOK then ''FOK''
      else if tif = TimeInForce_value DAY then ''DAY''
      else ''UNKNOWN'')"

definition toString_OrderStatus :: "u8 \<Rightarrow> string" where
  "toString_OrderStatus status =
     (if status = OrderStatus_value PENDING then ''PENDING''
      else if status = OrderStatus_value ACCEPTED then ''ACCEPTED''
      else if status = OrderStatus_value REJECTED then ''REJECTED''
      else if status = OrderStatus_value PARTIALLY_FILLED then ''PARTIALLY_FILLED''
      else if status = OrderStatus_value FILLED then ''FILLED''
      else if status = OrderStatus_value CANCELLED then ''CANCELLED''
      else if status = OrderStatus_value EXPIRED then ''EXPIRED''
      else ''UNKNOWN'')"

definition toString_ConnectionStatus :: "u8 \<Rightarrow> string" where
  "toString_ConnectionStatus status =
     (if status = ConnectionStatus_value DISCONNECTED then ''DISCONNECTED''
      else if status = ConnectionStatus_value CONNECTING then ''CONNECTING''
      else if status = ConnectionStatus_value CONNECTED then ''CONNECTED''
      else if status = ConnectionStatus_value RECONNECTING then ''RECONNECTING''
      else if status = ConnectionStatus_value Conn_ERROR then ''ERROR''
      else ''UNKNOWN'')"

definition toString_ErrorSeverity :: "u8 \<Rightarrow> string" where
  "toString_ErrorSeverity severity =
     (if severity = ErrorSeverity_value Sev_DEBUG then ''DEBUG''
      else if severity = ErrorSeverity_value Sev_INFO then ''INFO''
      else if severity = ErrorSeverity_value Sev_WARNING then ''WARNING''
      else if severity = ErrorSeverity_value Sev_ERROR then ''ERROR''
      else if severity = ErrorSeverity_value Sev_CRITICAL then ''CRITICAL''
      else ''UNKNOWN'')"

text \<open>The contract of such a pair of an enumeration and its naming function.\<close>

locale named_enum =
  fixes val :: "'e \<Rightarrow> u8"
    and enumerators :: "'e list"
    and shown :: "u8 \<Rightarrow> string"
  assumes complete: "e \<in> set enumerators"
    and distinct_names: "distinct (map (\<lambda>e. shown (val e)) enumerators)"
    and known: "shown (val e) \<noteq> ''UNKNOWN''"
    and unknown: "\<forall>e. w \<noteq> val e \<Longrightarrow> shown w = ''UNKNOWN''"
begin

lemma name_inj: "shown (val a) = shown (val b) \<Longrightarrow> a = b"
  using distinct_names complete [of a] complete [of b] by (auto simp: distinct_map inj_on_def)

lemma name_identifies: "shown w = shown (val e) \<longleftrightarrow> w = val e"
proof
  assume eq: "shown w = shown (val e)"
  show "w = val e"
  proof (cases "\<exists>e'. w = val e'")
    case True
    then show ?thesis using eq name_inj by blast
  next
    case False
    then have "shown w = ''UNKNOWN''" by (intro unknown) blast
    then show ?thesis using eq known by metis
  qed
qed simp

lemma unknown_iff: "shown w = ''UNKNOWN'' \<longleftrightarrow> (\<forall>e. w \<noteq> val e)"
  using known unknown by metis

end

lemma forall_enum:
  "(\<forall>e. P e) \<longleftrightarrow> P BUY \<and> P SELL"
  "(\<forall>e. Q e) \<longleftrightarrow> Q LIMIT \<and> Q MARKET \<and> Q STOP_LOSS \<and> Q STOP_LIMIT"
  "(\<forall>e. R e) \<longleftrightarrow> R GTC \<and> R IOC \<and> R FOK \<and> R DAY"
  "(\<forall>e. S e) \<longleftrightarrow> S PENDING \<and> S ACCEPTED \<and> S REJECTED \<and> S PARTIALLY_FILLED \<and> S FILLED
     \<and> S CANCELLED \<and> S EXPIRED"
  "(\<forall>e. T e) \<longleftrightarrow> T DISCONNECTED \<and> T CONNECTING \<and> T CONNECTED \<and> T RECONNECTING \<and> T Conn_ERROR"
  "(\<forall>e. U e) \<longleftrightarrow> U Sev_DEBUG \<and> U Sev_INFO \<and> U Sev_WARNING \<and> U Sev_ERROR \<and> U Sev_CRITICAL"
  by (metis OrderSide.exhaust, metis OrderType.exhaust, metis TimeInForce.exhaust,
      metis OrderStatus.exhaust, metis ConnectionStatus.exhaust, metis ErrorSeverity.exhaust)

interpretation side_names: named_enum OrderSide_value "[BUY, SELL]" toString_OrderSide
proof
  fix e show "e \<in> set [BUY, SELL]" "toString_OrderSide (OrderSide_value e) \<noteq> ''UNKNOWN''"
    by (cases e; simp add: toString_OrderSide_def)+
qed (simp_all add: toString_OrderSide_def forall_enum)

interpretation type_names: named_enum OrderType_value "[LIMIT, MARKET, STOP_LOSS, STOP_LIMIT]"
  toString_OrderType
proof
  fix e show "e \<in> set [LIMIT, MARKET, STOP_LOSS, STOP_LIMIT]"
    "toString_OrderType (OrderType_value e) \<noteq> ''UNKNOWN''"
    by (cases e; simp add: toString_OrderType_def)+
qed (simp_all add: toString_OrderType_def forall_enum)

interpretation tif_names: named_enum TimeInForce_value "[GTC, IOC, FOK, DAY]" toString_TimeInForce
proof
  fix e show "e \<in> set [GTC, IOC, FOK, DAY]"
    "toString_TimeInForce (TimeInForce_value e) \<noteq> ''UNKNOWN''"
    by (cases e; simp add: toString_TimeInForce_def)+
qed (simp_all add: toString_TimeInForce_def forall_enum)

interpretation order_status_names: named_enum OrderStatus_value
  "[PENDING, ACCEPTED, REJECTED, PARTIALLY_FILLED, FILLED, CANCELLED, EXPIRED]" toString_OrderStatus
proof
  fix e show "e \<in> set [PENDING, ACCEPTED, REJECTED, PARTIALLY_FILLED, FILLED, CANCELLED, EXPIRED]"
    "toString_OrderStatus (OrderStatus_value e) \<noteq> ''UNKNOWN''"
    by (cases e; simp add: toString_OrderStatus_def)+
qed (simp_all add: toString_OrderStatus_def forall_enum)

interpretation connection_names: named_enum ConnectionStatus_value
  "[DISCONNECTED, CONNECTING, CONNECTED, RECONNECTING, Conn_ERROR]" toString_ConnectionStatus
proof
  fix e show "e \<in> set [DISCONNECTED, CONNECTING, CONNECTED, RECONNECTING, Conn_ERROR]"
    "toString_ConnectionStatus (ConnectionStatus_value e) \<noteq> ''UNKNOWN''"
    by (cases e; simp add: toString_ConnectionStatus_def)+
qed (simp_all add: toString_ConnectionStatus_def forall_enum)

interpretation severity_names: named_enum ErrorSeverity_value
  "[Sev_DEBUG, Sev_INFO, Sev_WARNING, Sev_ERROR, Sev_CRITICAL]" toString_ErrorSeverity
proof
  fix e show "e \<in> set [Sev_DEBUG, Sev_INFO, Sev_WARNING, Sev_ERROR, Sev_CRITICAL]"
    "toString_ErrorSeverity (ErrorSeverity_value e) \<noteq> ''UNKNOWN''"
    by (cases e; simp add: toString_ErrorSeverity_def)+
qed (simp_all add: toString_ErrorSeverity_def forall_enum)

section \<open>Market data\<close>

record GatewayStatistics =
  gs_messages_received :: u64
  gs_ticks_processed :: u64
  gs_errors_count :: u64
  gs_reconnections :: u64
  gs_avg_latency :: i64          \<comment> \<open>microseconds\<close>
  gs_last_message_time :: i64    \<comment> \<open>steady clock, ticks since its epoch\<close>

definition GatewayStatistics_init :: GatewayStatistics where
  "GatewayStatistics_init =
     \<lparr>gs_messages_received = 0, gs_ticks_processed = 0, gs_errors_count = 0, gs_reconnections = 0,
      gs_avg_latency = 0, gs_last_message_time = 0\<rparr>"

record Tick =
  tick_exchange_timestamp_us :: u64
  tick_receive_timestamp_us :: u64
  tick_exchange_id :: u32
  tick_symbol_id :: u32
  tick_price :: Decimal
  tick_quantity :: Decimal
  tick_side :: TickSide
  tick_flags :: u8
  tick_reserved :: "u8 list"

definition Tick_init :: Tick where
  "Tick_init =
     \<lparr>tick_exchange_timestamp_us = 0, tick_receive_timestamp_us = 0,
      tick_exchange_id = 0, tick_symbol_id = 0, tick_price = decimal_zero, tick_quantity = decimal_zero,
      tick_side = BID, tick_flags = 0, tick_reserved = replicate 22 0\<rparr>"

definition Tick_members :: "member list" where
  "Tick_members =
     [(''exchange_timestamp_us'', 8, 8), (''receive_timestamp_us'', 8, 8),
      (''exchange_id'', 4, 4), (''symbol_id'', 4, 4), (''price'', 8, 8), (''quantity'', 8, 8),
      (''side'', 1, 1), (''flags'', 1, 1), (''reserved'', 22, 1)]"

record PriceLevel =
  level_price :: Decimal
  level_quantity :: Decimal

definition PriceLevel_init :: PriceLevel where
  "PriceLevel_init = \<lparr>level_price = decimal_zero, level_quantity = decimal_zero\<rparr>"

definition PriceLevel_of :: "Decimal \<Rightarrow> Decimal \<Rightarrow> PriceLevel" where
  "PriceLevel_of p q = \<lparr>level_price = p, level_quantity = q\<rparr>"

text \<open>The convenience constructor \<^verbatim>\<open>PriceLevel(double, double)\<close>.\<close>

definition PriceLevel_of_doubles :: "Double \<Rightarrow> Double \<Rightarrow> PriceLevel outcome" where
  "PriceLevel_of_doubles p q =
     bind_outcome (toDecimal p) (\<lambda>p'. bind_outcome (toDecimal q) (\<lambda>q'.
       Inr \<lparr>level_price = p', level_quantity = q'\<rparr>))"

record OrderBookSnapshot =
  snap_symbol_id :: u32
  snap_timestamp_us :: u64
  snap_bids :: "PriceLevel list"
  snap_asks :: "PriceLevel list"

definition OrderBookSnapshot_init :: OrderBookSnapshot where
  "OrderBookSnapshot_init =
     \<lparr>snap_symbol_id = 0, snap_timestamp_us = 0, snap_bids = [], snap_asks = []\<rparr>"

section \<open>Orders and fills\<close>

record OrderRequest =
  req_order_id :: u64
  req_timestamp_us :: u64
  req_price :: Decimal
  req_quantity :: Decimal
  req_stop_price :: Decimal
  req_client_order_id :: u64
  req_symbol_id :: u32
  req_exchange_id :: u32
  req_strategy_id :: u32
  req_side :: OrderSide
  req_type :: OrderType
  req_tif :: TimeInForce
  req_strategy_flags :: u8
  req_reserved :: "u8 list"

definition OrderRequest_init :: OrderRequest where
  "OrderRequest_init =
     \<lparr>req_order_id = 0, req_timestamp_us = 0,
      req_price = decimal_zero, req_quantity = decimal_zero, req_stop_price = decimal_zero,
      req_client_order_id = 0, req_symbol_id = 0, req_exchange_id = 0, req_strategy_id = 0,
      req_side = BUY, req_type = LIMIT, req_tif = GTC, req_strategy_flags = 0,
      req_reserved = replicate 64 0\<rparr>"

definition OrderRequest_members :: "member list" where
  "OrderRequest_members =
     [(''order_id'', 8, 8), (''timestamp_us'', 8, 8), (''price'', 8, 8), (''quantity'', 8, 8),
      (''stop_price'', 8, 8), (''client_order_id'', 8, 8),
      (''symbol_id'', 4, 4), (''exchange_id'', 4, 4), (''strategy_id'', 4, 4),
      (''side'', 1, 1), (''type'', 1, 1), (''tif'', 1, 1), (''strategy_flags'', 1, 1),
      (''reserved'', 64, 1)]"

record OrderResult =
  result_success :: bool
  result_error_message :: string
  result_exchange_order_id :: u64
  result_send_timestamp_us :: u64

definition OrderResult_init :: OrderResult where
  "OrderResult_init =
     \<lparr>result_success = False, result_error_message = [], result_exchange_order_id = 0,
      result_send_timestamp_us = 0\<rparr>"

record Fill =
  fill_execution_id :: u64
  fill_fill_id :: u64
  fill_order_id :: u64
  fill_exchange_timestamp_us :: u64
  fill_receive_timestamp_us :: u64
  fill_fill_price :: Decimal
  fill_fill_quantity :: Decimal
  fill_symbol_id :: u32
  fill_exchange_id :: u32
  fill_strategy_id :: u32
  fill_side :: OrderSide
  fill_is_maker :: u8
  fill_reserved :: "u8 list"

definition Fill_init :: Fill where
  "Fill_init =
     \<lparr>fill_execution_id = 0, fill_fill_id = 0, fill_order_id = 0,
      fill_exchange_timestamp_us = 0, fill_receive_timestamp_us = 0,
      fill_fill_price = decimal_zero, fill_fill_quantity = decimal_zero,
      fill_symbol_id = 0, fill_exchange_id = 0, fill_strategy_id = 0,
      fill_side = BUY, fill_is_maker = 0, fill_reserved = replicate 58 0\<rparr>"

definition Fill_members :: "member list" where
  "Fill_members =
     [(''execution_id'', 8, 8), (''fill_id'', 8, 8), (''order_id'', 8, 8),
      (''exchange_timestamp_us'', 8, 8), (''receive_timestamp_us'', 8, 8),
      (''fill_price'', 8, 8), (''fill_quantity'', 8, 8),
      (''symbol_id'', 4, 4), (''exchange_id'', 4, 4), (''strategy_id'', 4, 4),
      (''side'', 1, 1), (''is_maker'', 1, 1), (''reserved'', 58, 1)]"

record OrderAck =
  ack_order_id :: u64
  ack_exchange_order_id :: u64
  ack_status :: OrderStatus
  ack_timestamp_us :: u64

definition OrderAck_init :: OrderAck where
  "OrderAck_init =
     \<lparr>ack_order_id = 0, ack_exchange_order_id = 0, ack_status = PENDING, ack_timestamp_us = 0\<rparr>"

record OrderReject =
  reject_order_id :: u64
  reject_reason :: string
  reject_timestamp_us :: u64

definition OrderReject_init :: OrderReject where
  "OrderReject_init = \<lparr>reject_order_id = 0, reject_reason = [], reject_timestamp_us = 0\<rparr>"

section \<open>Positions\<close>

record Position =
  pos_symbol_id :: u32
  pos_quantity :: Decimal
  pos_average_price :: Decimal
  pos_realized_pnl :: Decimal
  pos_last_update_us :: u64

definition Position_init :: Position where
  "Position_init =
     \<lparr>pos_symbol_id = 0, pos_quantity = decimal_zero, pos_average_price = decimal_zero,
      pos_realized_pnl = decimal_zero, pos_last_update_us = 0\<rparr>"

definition getUnrealizedPnL :: "fpm_ops \<Rightarrow> Position \<Rightarrow> Decimal \<Rightarrow> Decimal" where
  "getUnrealizedPnL F p current_price =
     fpm_mul F (pos_quantity p) (fpm_sub F current_price (pos_average_price p))"

definition getTotalPnL :: "fpm_ops \<Rightarrow> Position \<Rightarrow> Decimal \<Rightarrow> Decimal" where
  "getTotalPnL F p current_price = fpm_add F (pos_realized_pnl p) (getUnrealizedPnL F p current_price)"

definition isFlat :: "fpm_ops \<Rightarrow> Position \<Rightarrow> bool" where
  "isFlat F p = fpm_eq F (pos_quantity p) (fpm_of_int F 0)"

definition isLong :: "fpm_ops \<Rightarrow> Position \<Rightarrow> bool" where
  "isLong F p = fpm_less F (fpm_of_int F 0) (pos_quantity p)"

definition isShort :: "fpm_ops \<Rightarrow> Position \<Rightarrow> bool" where
  "isShort F p = fpm_less F (pos_quantity p) (fpm_of_int F 0)"

section \<open>Properties\<close>

lemmas layout_defs = sizeof_struct_def offsetof_def align_up_def Tick_members_def
  OrderRequest_members_def Fill_members_def


text \<open>
  For each of the six enumerations with a \<^verbatim>\<open>toString\<close>, the printed name determines the
  enumerator, whatever byte is printed, and \<^verbatim>\<open>UNKNOWN\<close> is printed exactly for the bytes that are no
  enumerator.
\<close>

theorem toString_names_faithful:
  "(toString_OrderSide w = toString_OrderSide (OrderSide_value e1) \<longleftrightarrow> w = OrderSide_value e1) \<and>
   (toString_OrderType w = toString_OrderType (OrderType_value e2) \<longleftrightarrow> w = OrderType_value e2) \<and>
   (toString_TimeInForce w = toString_TimeInForce (TimeInForce_value e3) \<longleftrightarrow> w = TimeInForce_value e3) \<and>
   (toString_OrderStatus w = toString_OrderStatus (OrderStatus_value e4) \<longleftrightarrow> w = OrderStatus_value e4) \<and>
   (toString_ConnectionStatus w = toString_ConnectionStatus (ConnectionStatus_value e5)
      \<longleftrightarrow> w = ConnectionStatus_value e5) \<and>
   (toString_ErrorSeverity w = toString_ErrorSeverity (ErrorSeverity_value e6)
      \<longleftrightarrow> w = ErrorSeverity_value e6) \<and>
   (toString_OrderStatus w = ''UNKNOWN'' \<longleftrightarrow> (\<forall>e. w \<noteq> OrderStatus_value e))"
  by (intro conjI side_names.name_identifies type_names.name_identifies tif_names.name_identifies
      order_status_names.name_identifies connection_names.name_identifies
      severity_names.name_identifies order_status_names.unknown_iff)

lemma raw_zero_iff: "raw_value d = 0 \<longleftrightarrow> d = decimal_zero"
  by (cases d) (simp add: decimal_zero_def)

text \<open>
  With the library's comparison of raw values, every position is exactly one of flat,
  long and short.
\<close>

theorem position_side_trichotomy:
  assumes "fpm_raw_order F"
  shows "(isFlat F p \<and> \<not> isLong F p \<and> \<not> isShort F p) \<or>
         (\<not> isFlat F p \<and> isLong F p \<and> \<not> isShort F p) \<or>
         (\<not> isFlat F p \<and> \<not> isLong F p \<and> isShort F p)"
proof -
  have "fpm_of_int F 0 = decimal_zero"
    using assms by (simp add: fpm_raw_order_def flip: raw_zero_iff)
  then have "isFlat F p \<longleftrightarrow> pos_quantity p = decimal_zero" and "isLong F p \<longleftrightarrow> decimal_zero < pos_quantity p"
    and "isShort F p \<longleftrightarrow> pos_quantity p < decimal_zero"
    using assms by (simp_all add: fpm_raw_order_def isFlat_def isLong_def isShort_def)
  then show ?thesis by (metis less_asym neq_iff)
qed

theorem position_side_trichotomy_witness:
  "(isFlat fpm_example Position_init \<and> \<not> isLong fpm_example Position_init \<and> \<not> isShort fpm_example Position_init) \<or>
   (\<not> isFlat fpm_example Position_init \<and> isLong fpm_example Position_init \<and> \<not> isShort fpm_example Position_init) \<or>
   (\<not> isFlat fpm_example Position_init \<and> \<not> isLong fpm_example Position_init \<and> isShort fpm_example Position_init)"
  by (rule position_side_trichotomy [OF fpm_example_order])

text \<open>
  Marked at its own entry price a position has no unrealized profit, and a flat position
  has none at any price: its total is the realized profit.
\<close>

theorem total_pnl_is_realized:
  assumes "fpm_sub_mul_zero F" and "price = pos_average_price p \<or> pos_quantity p = decimal_zero"
  shows "getTotalPnL F p price = pos_realized_pnl p"
proof -
  have "raw_value (getUnrealizedPnL F p price) = 0"
    using assms by (auto simp: getUnrealizedPnL_def fpm_sub_mul_zero_def decimal_zero_def raw_zero_iff)
  then have "getUnrealizedPnL F p price = from_raw_value 0"
    by (simp add: raw_zero_iff decimal_zero_def)
  then show ?thesis
    using assms(1) by (simp add: getTotalPnL_def fpm_sub_mul_zero_def)
qed

theorem total_pnl_is_realized_witness:
  "getTotalPnL fpm_example
     (Position_init\<lparr>pos_quantity := from_raw_value 5, pos_average_price := from_raw_value 7,
        pos_realized_pnl := from_raw_value 3\<rparr>) (from_raw_value 7) = from_raw_value 3"
  using total_pnl_is_realized [OF fpm_example_zero, of "from_raw_value 7"
      "Position_init\<lparr>pos_quantity := from_raw_value 5, pos_average_price := from_raw_value 7,
        pos_realized_pnl := from_raw_value 3\<rparr>"] by simp

end
