(* ===== verification/Mpmc_Queue.thy ===== *)
theory Mpmc_Queue
  imports Core_Types
begin

text \<open>
  \<^verbatim>\<open>utils/mpmc_queue.hpp\<close>, executed by one thread: the slots with their sequence numbers, the two
  ticket counters, and \<^verbatim>\<open>try_push\<close> and \<^verbatim>\<open>try_pop\<close> with their retry loops. The value of the loops is
  \<open>None\<close> when they never return and \<open>Some (Inl UB_signed_overflow)\<close> when the signed difference of
  two counters overflows. The interface locale \<open>bounded_fifo\<close> is what the users of the queue rely
  on; it is interpreted on the queue's own operations at the end. The interleaved executions are in
  \<^verbatim>\<open>Mpmc_Concurrent\<close>.
\<close>

section \<open>State\<close>

record 'a Slot =
  slot_data :: 'a
  slot_seq :: u64

record 'a MPMCQueue =
  q_slots :: "'a Slot list"
  q_head :: u64
  q_tail :: u64

text \<open>The template parameter \<open>N\<close> is the number of slots; \<open>init\<close> is what a fresh slot holds.\<close>

definition MPMCQueue_new :: "nat \<Rightarrow> 'a \<Rightarrow> 'a MPMCQueue" where
  "MPMCQueue_new N init =
     \<lparr>q_slots = map (\<lambda>i. \<lparr>slot_data = init, slot_seq = of_nat i\<rparr>) [0..<N], q_head = 0, q_tail = 0\<rparr>"

text \<open>\<^verbatim>\<open>static_assert((N & (N - 1)) == 0)\<close>, on \<^verbatim>\<open>size_t\<close>.\<close>

definition capacity_assert :: "nat \<Rightarrow> bool" where
  "capacity_assert N \<longleftrightarrow> and (of_nat N :: u64) (of_nat N - 1) = 0"

definition capacity :: "'a MPMCQueue \<Rightarrow> nat" where
  "capacity q = length (q_slots q)"

definition slot_index :: "'a MPMCQueue \<Rightarrow> u64 \<Rightarrow> nat" where
  "slot_index q pos = unat (and pos (of_nat (capacity q) - 1))"

definition seq_diff :: "u64 \<Rightarrow> u64 \<Rightarrow> int outcome" where
  "seq_diff seq pos =
     (let d = sint seq - sint pos
      in if - (2 ^ 63) \<le> d \<and> d < 2 ^ 63 then Inr d else Inl UB_signed_overflow)"

section \<open>Operations\<close>

text \<open>
  The body of \<^verbatim>\<open>try_push\<close> after the load of \<^verbatim>\<open>head_\<close>. Run alone, the compare-exchange succeeds exactly
  when \<^verbatim>\<open>head_\<close> is still \<open>pos\<close>; a failure (also a spurious one of the weak form) reloads \<^verbatim>\<open>head_\<close> and
  goes round the loop.
\<close>

partial_function (option) push_loop ::
  "'a MPMCQueue \<Rightarrow> 'a \<Rightarrow> u64 \<Rightarrow> (bool \<times> 'a MPMCQueue) outcome option" where
  "push_loop q val pos =
     (let i = slot_index q pos; seq = slot_seq (q_slots q ! i)
      in case seq_diff seq pos of
           Inl e \<Rightarrow> Some (Inl e)
         | Inr d \<Rightarrow>
             if d = 0 then
               (if q_head q = pos then
                  Some (Inr (True,
                    q\<lparr>q_head := pos + 1,
                      q_slots := (q_slots q)[i := \<lparr>slot_data = val, slot_seq = pos + 1\<rparr>]\<rparr>))
                else push_loop q val (q_head q))
             else if d < 0 then Some (Inr (False, q))
             else push_loop q val (q_head q))"

definition try_push :: "'a MPMCQueue \<Rightarrow> 'a \<Rightarrow> (bool \<times> 'a MPMCQueue) outcome option" where
  "try_push q val = push_loop q val (q_head q)"

partial_function (option) pop_loop ::
  "'a MPMCQueue \<Rightarrow> u64 \<Rightarrow> ('a option \<times> 'a MPMCQueue) outcome option" where
  "pop_loop q pos =
     (let i = slot_index q pos; seq = slot_seq (q_slots q ! i)
      in case seq_diff seq (pos + 1) of
           Inl e \<Rightarrow> Some (Inl e)
         | Inr d \<Rightarrow>
             if d = 0 then
               (if q_tail q = pos then
                  Some (Inr (Some (slot_data (q_slots q ! i)),
                    q\<lparr>q_tail := pos + 1,
                      q_slots := (q_slots q)[i := (q_slots q ! i)\<lparr>slot_seq := pos + of_nat (capacity q)\<rparr>]\<rparr>))
                else pop_loop q (q_tail q))
             else if d < 0 then Some (Inr (None, q))
             else pop_loop q (q_tail q))"

definition try_pop :: "'a MPMCQueue \<Rightarrow> ('a option \<times> 'a MPMCQueue) outcome option" where
  "try_pop q = pop_loop q (q_tail q)"

definition queue_size :: "'a MPMCQueue \<Rightarrow> u64" where
  "queue_size q = q_head q - q_tail q"

definition queue_empty :: "'a MPMCQueue \<Rightarrow> bool" where
  "queue_empty q \<longleftrightarrow> queue_size q = 0"

text \<open>The named sizes, by their constructors.\<close>

definition MPMCQueue1K :: "'a \<Rightarrow> 'a MPMCQueue" where
  "MPMCQueue1K init = MPMCQueue_new 1024 init"

definition MPMCQueue4K :: "'a \<Rightarrow> 'a MPMCQueue" where
  "MPMCQueue4K init = MPMCQueue_new 4096 init"

definition MPMCQueue16K :: "'a \<Rightarrow> 'a MPMCQueue" where
  "MPMCQueue16K init = MPMCQueue_new 16384 init"

definition MPMCQueue64K :: "'a \<Rightarrow> 'a MPMCQueue" where
  "MPMCQueue64K init = MPMCQueue_new 65536 init"

section \<open>Tickets and slots\<close>

text \<open>A capacity the algorithm works for: a power of two, at least two.\<close>

definition good_capacity :: "nat \<Rightarrow> bool" where
  "good_capacity N \<longleftrightarrow> (\<exists>k. 1 \<le> k \<and> k \<le> 61 \<and> N = 2 ^ k)"

lemma good_capacity_aliases: "k \<in> {10, 12, 14, 16} \<Longrightarrow> good_capacity (2 ^ k)"
  unfolding good_capacity_def by (intro exI [of _ k]) auto

lemma good_capacity_ge2: "good_capacity N \<Longrightarrow> 2 \<le> N"
  by (auto simp: good_capacity_def intro: order_trans [OF _ power_increasing [of 1]])

lemma good_capacity_bound: "good_capacity N \<Longrightarrow> N \<le> 2 ^ 61"
  using power_increasing [of _ 61 "2::nat"] by (auto simp: good_capacity_def simp del: power_increasing_iff)

lemma unat_and_capacity:
  fixes pos :: u64
  assumes "good_capacity N"
  shows "unat (and pos (of_nat N - 1)) = unat pos mod N"
proof -
  obtain k where k: "k \<le> 61" "N = 2 ^ k"
    using assms by (auto simp: good_capacity_def)
  have "(of_nat N - 1 :: u64) = mask k"
    by (simp add: k mask_eq_exp_minus_1)
  then have "and pos (of_nat N - 1) = take_bit k pos"
    by (simp only: take_bit_eq_mask)
  then have "unat (and pos (of_nat N - 1)) = take_bit k (unat pos)"
    by (simp only: unsigned_take_bit_eq)
  then show ?thesis
    by (simp only: take_bit_eq_mod k)
qed

lemma slot_index_mod:
  "good_capacity (capacity q) \<Longrightarrow> slot_index q pos = unat pos mod capacity q"
  by (simp add: slot_index_def unat_and_capacity)

lemma seq_diff_small:
  assumes "unat a < 2 ^ 63" and "unat b < 2 ^ 63"
  shows "seq_diff a b = Inr (int (unat a) - int (unat b))"
proof -
  define m n where "m = int (unat a)" and "n = int (unat b)"
  have "m < 2 ^ 63" and "n < 2 ^ 63"
    using assms unfolding m_def n_def by (simp_all only: of_nat_less_iff [symmetric, where ?'a = int]) simp_all
  moreover have "0 \<le> m" "0 \<le> n" by (simp_all add: m_def n_def)
  moreover have "sint a = m" "sint b = n"
    using assms by (simp_all only: sint_eq_unat m_def n_def)
  ultimately show ?thesis
    unfolding m_def [symmetric] n_def [symmetric] by (simp add: seq_diff_def Let_def)
qed

lemma mod_distinct:
  fixes a b N :: nat
  assumes "a < b" and "b < a + N"
  shows "a mod N \<noteq> b mod N"
proof
  assume eq: "a mod N = b mod N"
  then have "N dvd b - a"
    using assms(1) mod_eq_dvd_iff_nat [of a b N] by simp
  then have "N \<le> b - a" using assms(1) by (simp add: dvd_imp_le)
  with assms show False by simp
qed

section \<open>The queue as a bounded FIFO\<close>

text \<open>
  The abstract value of a queue that no operation is in the middle of: the elements of the tickets
  between \<^verbatim>\<open>tail_\<close> and \<^verbatim>\<open>head_\<close>. In such a state the slot of every ticket in the window
  \<open>[tail, tail + N)\<close> is published (sequence number one past the ticket) below \<^verbatim>\<open>head_\<close> and free (equal
  to the ticket) from there on. The counters stay where their signed differences cannot overflow.
\<close>

definition queue_content :: "'a MPMCQueue \<Rightarrow> 'a list" where
  "queue_content q =
     map (\<lambda>k. slot_data (q_slots q ! (k mod capacity q))) [unat (q_tail q)..<unat (q_head q)]"

definition queue_ok :: "'a MPMCQueue \<Rightarrow> bool" where
  "queue_ok q \<longleftrightarrow>
     good_capacity (capacity q) \<and> unat (q_head q) + capacity q < 2 ^ 63 \<and>
     unat (q_tail q) \<le> unat (q_head q) \<and> unat (q_head q) \<le> unat (q_tail q) + capacity q \<and>
     (\<forall>k. unat (q_tail q) \<le> k \<and> k < unat (q_head q) \<longrightarrow>
        unat (slot_seq (q_slots q ! (k mod capacity q))) = Suc k) \<and>
     (\<forall>k. unat (q_head q) \<le> k \<and> k < unat (q_tail q) + capacity q \<longrightarrow>
        unat (slot_seq (q_slots q ! (k mod capacity q))) = k)"

text \<open>How many more pushes the queue takes before its counters reach the bound.\<close>

definition queue_room :: "'a MPMCQueue \<Rightarrow> nat" where
  "queue_room q = 2 ^ 63 - 1 - (unat (q_head q) + capacity q)"

lemma length_queue_content: "length (queue_content q) = unat (q_head q) - unat (q_tail q)"
  by (simp add: queue_content_def)

lemma queue_ok_new:
  assumes "good_capacity N"
  shows "queue_ok (MPMCQueue_new N init)" and "queue_content (MPMCQueue_new N init) = []"
    and "capacity (MPMCQueue_new N init) = N"
proof -
  have N: "N \<le> 2 ^ 61" "0 < N"
    using good_capacity_bound [OF assms] good_capacity_ge2 [OF assms] by auto
  have "unat (of_nat k :: u64) = k" if "k < N" for k
    using that N by (simp add: unsigned_of_nat take_bit_nat_eq_self)
  then show "queue_ok (MPMCQueue_new N init)"
    using assms N by (simp add: queue_ok_def MPMCQueue_new_def capacity_def)
qed (simp_all add: queue_content_def MPMCQueue_new_def capacity_def)

lemma try_push_room:
  assumes ok: "queue_ok q" and free: "length (queue_content q) < capacity q" and room: "0 < queue_room q"
  shows "\<exists>q'. try_push q v = Some (Inr (True, q')) \<and> queue_ok q' \<and>
    queue_content q' = queue_content q @ [v] \<and> capacity q' = capacity q \<and> queue_room q' = queue_room q - 1"
proof -
  define N h t where "N = capacity q" and "h = unat (q_head q)" and "t = unat (q_tail q)"
  note defs = N_def [symmetric] h_def [symmetric] t_def [symmetric]
  have N: "good_capacity N" "2 \<le> N" and bound: "Suc h + N < 2 ^ 63" and th: "t \<le> h" "h < t + N"
    using ok free room good_capacity_ge2 [of N]
    by (auto simp: queue_ok_def queue_room_def length_queue_content defs)
  have full: "unat (slot_seq (q_slots q ! (k mod N))) = Suc k" if "t \<le> k" "k < h" for k
    using ok that by (auto simp: queue_ok_def defs)
  have empty: "unat (slot_seq (q_slots q ! (k mod N))) = k" if "h \<le> k" "k < t + N" for k
    using ok that by (auto simp: queue_ok_def defs)
  have i: "slot_index q (q_head q) = h mod N"
    using N by (simp add: slot_index_mod defs)
  have diff: "seq_diff (slot_seq (q_slots q ! (h mod N))) (q_head q) = Inr 0"
    using empty [of h] th bound by (simp add: seq_diff_small defs)
  define q' where "q' = q\<lparr>q_head := q_head q + 1,
    q_slots := (q_slots q)[h mod N := \<lparr>slot_data = v, slot_seq = q_head q + 1\<rparr>]\<rparr>"
  have push: "try_push q v = Some (Inr (True, q'))"
    by (simp add: try_push_def push_loop.simps i diff q'_def)
  have h': "unat (q_head q + 1) = Suc h"
    using bound unat_Suc_small [of "q_head q"] by (simp add: h_def)
  have N': "capacity q' = N" "length (q_slots q) = N"
    by (simp_all add: capacity_def q'_def N_def)
  have other: "q_slots q' ! (k mod N) = q_slots q ! (k mod N)" if "t \<le> k" "k < t + N" "k \<noteq> h" for k
    using mod_distinct [of k h N] mod_distinct [of h k N] that th
    by (auto simp: q'_def linorder_neq_iff)
  have here: "q_slots q' ! (h mod N) = \<lparr>slot_data = v, slot_seq = q_head q + 1\<rparr>"
    using N N' by (simp add: q'_def)
  have "unat (slot_seq (q_slots q' ! (k mod N))) = Suc k" if "t \<le> k" "k < Suc h" for k
    using that th other [of k] full [of k] here h' by (cases "k = h") auto
  moreover have "unat (slot_seq (q_slots q' ! (k mod N))) = k" if "Suc h \<le> k" "k < t + N" for k
    using that th other [of k] empty [of k] by auto
  moreover have "q_head q' = q_head q + 1" "q_tail q' = q_tail q"
    by (simp_all add: q'_def)
  ultimately have "queue_ok q'"
    using N bound th by (simp add: queue_ok_def N' h' flip: t_def)
  moreover have "queue_content q' = queue_content q @ [v]"
  proof -
    have "map (\<lambda>k. slot_data (q_slots q' ! (k mod N))) [t..<h]
        = map (\<lambda>k. slot_data (q_slots q ! (k mod N))) [t..<h]"
      using other th by (intro map_cong) auto
    then show ?thesis
      using th here by (simp add: queue_content_def N' h' \<open>q_head q' = _\<close> \<open>q_tail q' = _\<close> defs)
  qed
  moreover have "queue_room q' = queue_room q - 1"
    by (simp add: queue_room_def N' h' \<open>q_head q' = _\<close> defs)
  ultimately show ?thesis
    using push by (simp add: N' flip: N_def)
qed

lemma try_push_full:
  assumes ok: "queue_ok q" and full: "length (queue_content q) = capacity q"
  shows "try_push q v = Some (Inr (False, q))"
proof -
  define N h t where "N = capacity q" and "h = unat (q_head q)" and "t = unat (q_tail q)"
  note defs = N_def [symmetric] h_def [symmetric] t_def [symmetric]
  have N: "good_capacity N" "2 \<le> N" and bound: "h + N < 2 ^ 63" and th: "h = t + N"
    using ok full good_capacity_ge2 [of N]
    by (auto simp: queue_ok_def length_queue_content defs)
  have "unat (slot_seq (q_slots q ! (h mod N))) = Suc t"
    using ok N th by (simp add: queue_ok_def defs)
  then have "seq_diff (slot_seq (q_slots q ! (h mod N))) (q_head q) = Inr (int (Suc t) - int h)"
    using bound N th by (simp add: seq_diff_small defs)
  then show ?thesis
    using N th by (simp add: try_push_def push_loop.simps slot_index_mod defs)
qed

lemma try_pop_some:
  assumes ok: "queue_ok q" and some: "queue_content q = v # vs"
  shows "\<exists>q'. try_pop q = Some (Inr (Some v, q')) \<and> queue_ok q' \<and> queue_content q' = vs \<and>
    capacity q' = capacity q \<and> queue_room q' = queue_room q"
proof -
  define N h t where "N = capacity q" and "h = unat (q_head q)" and "t = unat (q_tail q)"
  note defs = N_def [symmetric] h_def [symmetric] t_def [symmetric]
  have N: "good_capacity N" "2 \<le> N" and bound: "h + N < 2 ^ 63" and th: "h \<le> t + N"
    using ok good_capacity_ge2 [of N] by (auto simp: queue_ok_def defs)
  have t: "t < h"
    using some length_queue_content [of q] by (simp add: defs)
  then have upt: "[t..<h] = t # [Suc t..<h]"
    by (simp add: upt_conv_Cons)
  have v: "v = slot_data (q_slots q ! (t mod N))"
    and vs: "vs = map (\<lambda>k. slot_data (q_slots q ! (k mod N))) [Suc t..<h]"
    using some by (simp_all add: queue_content_def defs upt)
  have full: "unat (slot_seq (q_slots q ! (k mod N))) = Suc k" if "t \<le> k" "k < h" for k
    using ok that by (auto simp: queue_ok_def defs)
  have empty: "unat (slot_seq (q_slots q ! (k mod N))) = k" if "h \<le> k" "k < t + N" for k
    using ok that by (auto simp: queue_ok_def defs)
  have i: "slot_index q (q_tail q) = t mod N"
    using N by (simp add: slot_index_mod defs)
  have t': "unat (q_tail q + 1) = Suc t"
    using bound t unat_Suc_small [of "q_tail q"] by (simp add: t_def [symmetric])
  have tN: "unat (q_tail q + of_nat N) = t + N"
    using bound t good_capacity_bound [OF N(1)]
    by (simp add: unat_word_ariths unsigned_of_nat take_bit_nat_eq_self defs)
  have diff: "seq_diff (slot_seq (q_slots q ! (t mod N))) (q_tail q + 1) = Inr 0"
    using full [of t] t bound by (simp add: seq_diff_small t')
  define q' where "q' = q\<lparr>q_tail := q_tail q + 1,
    q_slots := (q_slots q)[t mod N := (q_slots q ! (t mod N))\<lparr>slot_seq := q_tail q + of_nat N\<rparr>]\<rparr>"
  have pop: "try_pop q = Some (Inr (Some v, q'))"
    by (simp add: try_pop_def pop_loop.simps i diff q'_def v defs Let_def)
  have N': "capacity q' = N" "length (q_slots q) = N" and q': "q_tail q' = q_tail q + 1" "q_head q' = q_head q"
    by (simp_all add: capacity_def q'_def N_def)
  have other: "q_slots q' ! (k mod N) = q_slots q ! (k mod N)" if "Suc t \<le> k" "k < t + N" for k
    using mod_distinct [of t k N] that by (auto simp: q'_def)
  have here: "slot_seq (q_slots q' ! (t mod N)) = q_tail q + of_nat N"
    using N N' by (simp add: q'_def)
  have "unat (slot_seq (q_slots q' ! (k mod N))) = Suc k" if "Suc t \<le> k" "k < h" for k
    using that th other [of k] full [of k] by auto
  moreover have "unat (slot_seq (q_slots q' ! (k mod N))) = k" if "h \<le> k" "k < Suc t + N" for k
    using that t other [of k] empty [of k] here tN by (cases "k = t + N") auto
  ultimately have "queue_ok q'"
    using N bound t th by (simp add: queue_ok_def N' t' q' flip: h_def)
  moreover have "queue_content q' = vs"
  proof -
    have "map (\<lambda>k. slot_data (q_slots q' ! (k mod N))) [Suc t..<h] = vs"
      unfolding vs using other th by (intro map_cong) auto
    then show ?thesis
      by (simp add: queue_content_def N' t' q' flip: h_def)
  qed
  moreover have "queue_room q' = queue_room q"
    by (simp add: queue_room_def N' q' defs)
  ultimately show ?thesis
    using pop by (simp add: N' flip: N_def)
qed

lemma try_pop_none:
  assumes ok: "queue_ok q" and none: "queue_content q = []"
  shows "try_pop q = Some (Inr (None, q))"
proof -
  define N h t where "N = capacity q" and "h = unat (q_head q)" and "t = unat (q_tail q)"
  note defs = N_def [symmetric] h_def [symmetric] t_def [symmetric]
  have N: "good_capacity N" "2 \<le> N" and bound: "h + N < 2 ^ 63" and th: "h = t"
    using ok none good_capacity_ge2 [of N] length_queue_content [of q]
    by (auto simp: queue_ok_def defs)
  have t': "unat (q_tail q + 1) = Suc t"
    using bound th unat_Suc_small [of "q_tail q"] by (simp add: t_def [symmetric])
  have "unat (slot_seq (q_slots q ! (t mod N))) = t"
    using ok N th by (simp add: queue_ok_def defs)
  then have "seq_diff (slot_seq (q_slots q ! (t mod N))) (q_tail q + 1) = Inr (- 1)"
    using bound th N by (simp add: seq_diff_small t')
  then show ?thesis
    using N by (simp add: try_pop_def pop_loop.simps slot_index_mod defs)
qed

section \<open>The interface the users of a queue rely on\<close>

locale bounded_fifo =
  fixes push :: "'q \<Rightarrow> 'a \<Rightarrow> (bool \<times> 'q) outcome option"
    and pop :: "'q \<Rightarrow> ('a option \<times> 'q) outcome option"
    and content :: "'q \<Rightarrow> 'a list"
    and ok :: "'q \<Rightarrow> bool"
    and cap :: "'q \<Rightarrow> nat"
    and room :: "'q \<Rightarrow> nat"
  assumes push_accepts: "ok q \<Longrightarrow> length (content q) < cap q \<Longrightarrow> 0 < room q \<Longrightarrow>
      \<exists>q'. push q v = Some (Inr (True, q')) \<and> ok q' \<and> content q' = content q @ [v] \<and>
        cap q' = cap q \<and> room q' = room q - 1"
    and push_full: "ok q \<Longrightarrow> length (content q) = cap q \<Longrightarrow> push q v = Some (Inr (False, q))"
    and pop_first: "ok q \<Longrightarrow> content q = v # vs \<Longrightarrow>
      \<exists>q'. pop q = Some (Inr (Some v, q')) \<and> ok q' \<and> content q' = vs \<and>
        cap q' = cap q \<and> room q' = room q"
    and pop_empty: "ok q \<Longrightarrow> content q = [] \<Longrightarrow> pop q = Some (Inr (None, q))"
    and within_cap: "ok q \<Longrightarrow> length (content q) \<le> cap q"

text \<open>
  A producer that pushes a list of values and ignores the results, as the tick callback of
  \<^verbatim>\<open>main.cpp\<close> does, and a consumer that pops until the queue reports empty, over any queue operations.
  \<open>fuel\<close> bounds the number of pops.
\<close>

fun push_all :: "('q \<Rightarrow> 'a \<Rightarrow> (bool \<times> 'q) outcome option) \<Rightarrow> 'q \<Rightarrow> 'a list \<Rightarrow> (bool list \<times> 'q) outcome option" where
  "push_all push q [] = Some (Inr ([], q))"
| "push_all push q (v # vs) =
     (case push q v of
        None \<Rightarrow> None
      | Some (Inl e) \<Rightarrow> Some (Inl e)
      | Some (Inr (b, q')) \<Rightarrow>
          (case push_all push q' vs of
             None \<Rightarrow> None
           | Some (Inl e) \<Rightarrow> Some (Inl e)
           | Some (Inr (bs, q'')) \<Rightarrow> Some (Inr (b # bs, q''))))"

fun drain :: "nat \<Rightarrow> ('q \<Rightarrow> ('a option \<times> 'q) outcome option) \<Rightarrow> 'q \<Rightarrow> ('a list \<times> 'q) outcome option" where
  "drain 0 pop q = None"
| "drain (Suc fuel) pop q =
     (case pop q of
        None \<Rightarrow> None
      | Some (Inl e) \<Rightarrow> Some (Inl e)
      | Some (Inr (None, q')) \<Rightarrow> Some (Inr ([], q'))
      | Some (Inr (Some v, q')) \<Rightarrow>
          (case drain fuel pop q' of
             None \<Rightarrow> None
           | Some (Inl e) \<Rightarrow> Some (Inl e)
           | Some (Inr (vs, q'')) \<Rightarrow> Some (Inr (v # vs, q''))))"

text \<open>
  A caller that mixes pushes and pops: the results of a sequence of calls, on the model of the code
  and on the abstract bounded FIFO, a list with a capacity.
\<close>

datatype 'a qcall = Push 'a | Pop

datatype 'a qresult = Pushed bool | Popped "'a option"

fun run_calls :: "('q \<Rightarrow> 'a \<Rightarrow> (bool \<times> 'q) outcome option) \<Rightarrow> ('q \<Rightarrow> ('a option \<times> 'q) outcome option) \<Rightarrow>
    'q \<Rightarrow> 'a qcall list \<Rightarrow> ('a qresult list \<times> 'q) outcome option" where
  "run_calls push pop q [] = Some (Inr ([], q))"
| "run_calls push pop q (c # cs) =
     (case (case c of
              Push v \<Rightarrow> map_option (map_sum id (map_prod Pushed id)) (push q v)
            | Pop \<Rightarrow> map_option (map_sum id (map_prod Popped id)) (pop q)) of
        None \<Rightarrow> None
      | Some (Inl e) \<Rightarrow> Some (Inl e)
      | Some (Inr (r, q')) \<Rightarrow>
          (case run_calls push pop q' cs of
             None \<Rightarrow> None
           | Some (Inl e) \<Rightarrow> Some (Inl e)
           | Some (Inr (rs, q'')) \<Rightarrow> Some (Inr (r # rs, q''))))"

fun fifo_calls :: "nat \<Rightarrow> 'a list \<Rightarrow> 'a qcall list \<Rightarrow> 'a qresult list \<times> 'a list" where
  "fifo_calls cap xs [] = ([], xs)"
| "fifo_calls cap xs (Push v # cs) =
     (if length xs < cap then apfst (Cons (Pushed True)) (fifo_calls cap (xs @ [v]) cs)
      else apfst (Cons (Pushed False)) (fifo_calls cap xs cs))"
| "fifo_calls cap [] (Pop # cs) = apfst (Cons (Popped None)) (fifo_calls cap [] cs)"
| "fifo_calls cap (x # xs) (Pop # cs) = apfst (Cons (Popped (Some x))) (fifo_calls cap xs cs)"

context bounded_fifo begin

lemma run_calls_fifo:
  assumes "ok q" and "length cs \<le> room q"
  shows "\<exists>q'. run_calls push pop q cs = Some (Inr (fst (fifo_calls (cap q) (content q) cs), q')) \<and>
    ok q' \<and> cap q' = cap q \<and> content q' = snd (fifo_calls (cap q) (content q) cs)"
  using assms
proof (induction cs arbitrary: q)
  case Nil
  then show ?case by simp
next
  case (Cons c cs)
  have step: ?case
    if ex: "\<exists>q1. (case c of Push v \<Rightarrow> map_option (map_sum id (map_prod Pushed id)) (push q v)
          | Pop \<Rightarrow> map_option (map_sum id (map_prod Popped id)) (pop q)) = Some (Inr (r, q1)) \<and>
        ok q1 \<and> content q1 = xs \<and> cap q1 = cap q \<and> room q \<le> Suc (room q1)"
      and abs: "fifo_calls (cap q) (content q) (c # cs) = apfst (Cons r) (fifo_calls (cap q) xs cs)" for r xs
  proof -
    obtain q1 where q1: "(case c of Push v \<Rightarrow> map_option (map_sum id (map_prod Pushed id)) (push q v)
        | Pop \<Rightarrow> map_option (map_sum id (map_prod Popped id)) (pop q)) = Some (Inr (r, q1))"
      "ok q1" "content q1 = xs" "cap q1 = cap q" "room q \<le> Suc (room q1)"
      using ex by blast
    have "length cs \<le> room q1" using Cons.prems(2) q1(5) by simp
    from Cons.IH [OF q1(2) this] show ?thesis
      using q1(1,3,4) abs by auto
  qed
  show ?case
  proof (cases c)
    case (Push v)
    show ?thesis
    proof (cases "length (content q) < cap q")
      case True
      from push_accepts [OF Cons.prems(1) this, of v] Cons.prems(2)
      have "\<exists>q1. push q v = Some (Inr (True, q1)) \<and> ok q1 \<and> content q1 = content q @ [v] \<and>
          cap q1 = cap q \<and> room q \<le> Suc (room q1)"
        by fastforce
      with True Push show ?thesis
        by (intro step [of "Pushed True" "content q @ [v]"]) auto
    next
      case False
      then have "length (content q) = cap q"
        using within_cap [OF Cons.prems(1)] by simp
      from push_full [OF Cons.prems(1) this, of v] False Push Cons.prems(1) show ?thesis
        by (intro step [of "Pushed False" "content q"]) auto
    qed
  next
    case Pop
    show ?thesis
    proof (cases "content q")
      case Nil
      from pop_empty [OF Cons.prems(1) this] Nil Pop Cons.prems(1) show ?thesis
        by (intro step [of "Popped None" "[]"]) auto
    next
      case (Cons x xs)
      from pop_first [OF Cons.prems(1) this]
      have "\<exists>q1. pop q = Some (Inr (Some x, q1)) \<and> ok q1 \<and> content q1 = xs \<and>
          cap q1 = cap q \<and> room q \<le> Suc (room q1)"
        by fastforce
      with Cons Pop show ?thesis
        by (intro step [of "Popped (Some x)" xs]) auto
    qed
  qed
qed

lemma push_all_keeps_prefix:
  assumes "ok q" and "length vs \<le> room q"
  shows "\<exists>q'. push_all push q vs =
      Some (Inr (map (\<lambda>i. i < cap q - length (content q)) [0..<length vs], q')) \<and>
    ok q' \<and> cap q' = cap q \<and> content q' = content q @ take (cap q - length (content q)) vs"
  using assms
proof (induction vs arbitrary: q)
  case Nil
  then show ?case by simp
next
  case (Cons v vs)
  have upt: "map P [0..<length (v # vs)] = P 0 # map (\<lambda>i. P (Suc i)) [0..<length vs]" for P :: "nat \<Rightarrow> bool"
    by (simp add: upt_conv_Cons map_Suc_upt [symmetric] comp_def del: upt_Suc)
  show ?case
  proof (cases "length (content q) < cap q")
    case True
    then obtain q1 where q1: "push q v = Some (Inr (True, q1))" "ok q1" "content q1 = content q @ [v]"
      "cap q1 = cap q" "room q1 = room q - 1"
      using push_accepts [of q v] Cons.prems by auto
    have "length vs \<le> room q1"
      using Cons.prems q1 by simp
    from Cons.IH [OF q1(2) this] obtain q2 where q2:
      "push_all push q1 vs = Some (Inr (map (\<lambda>i. i < cap q1 - length (content q1)) [0..<length vs], q2))"
      "ok q2" "cap q2 = cap q1" "content q2 = content q1 @ take (cap q1 - length (content q1)) vs"
      by blast
    have gap: "cap q - length (content q) = Suc (cap q1 - length (content q1))"
      using True q1 by simp
    have "push_all push q (v # vs) =
        Some (Inr (True # map (\<lambda>i. i < cap q1 - length (content q1)) [0..<length vs], q2))"
      using q1(1) q2(1) by simp
    moreover have "content q2 = content q @ take (cap q - length (content q)) (v # vs)"
      using q2(4) q1(3) gap by simp
    ultimately show ?thesis
      unfolding upt using q2(2,3) q1(4) gap by simp
  next
    case False
    then have full: "length (content q) = cap q"
      using within_cap [OF Cons.prems(1)] by simp
    have "length vs \<le> room q" using Cons.prems by simp
    from Cons.IH [OF Cons.prems(1) this] full push_full [OF Cons.prems(1) full, of v] show ?thesis
      unfolding upt by auto
  qed
qed

lemma drain_all:
  assumes "ok q" and "length (content q) < fuel"
  shows "\<exists>q'. drain fuel pop q = Some (Inr (content q, q')) \<and> ok q' \<and> content q' = [] \<and> cap q' = cap q"
  using assms
proof (induction fuel arbitrary: q)
  case 0
  then show ?case by simp
next
  case (Suc fuel)
  show ?case
  proof (cases "content q")
    case Nil
    then show ?thesis using Suc.prems pop_empty [of q] by simp
  next
    case (Cons v vs)
    then obtain q1 where q1: "pop q = Some (Inr (Some v, q1))" "ok q1" "content q1 = vs" "cap q1 = cap q"
      using pop_first [of q v vs] Suc.prems by blast
    have "length (content q1) < fuel"
      using Suc.prems Cons q1 by simp
    from Suc.IH [OF q1(2) this] q1 Cons show ?thesis by auto
  qed
qed

lemma fifo_roundtrip:
  assumes "ok q" and "content q = []" and "length vs \<le> cap q" and "length vs \<le> room q"
  shows "\<exists>q1 q2. push_all push q vs = Some (Inr (replicate (length vs) True, q1)) \<and>
    drain (Suc (length vs)) pop q1 = Some (Inr (vs, q2)) \<and> content q2 = []"
proof -
  obtain q1 where q1: "push_all push q vs = Some (Inr (map (\<lambda>i. i < cap q) [0..<length vs], q1))"
    "ok q1" "content q1 = take (cap q) vs"
    using push_all_keeps_prefix [OF assms(1,4)] assms(2) by auto
  have "map (\<lambda>i. i < cap q) [0..<length vs] = replicate (length vs) True"
    using assms(3) by (intro nth_equalityI) auto
  moreover obtain q2 where "drain (Suc (length vs)) pop q1 = Some (Inr (vs, q2))" "content q2 = []"
    using drain_all [OF q1(2), of "Suc (length vs)"] q1(3) assms(3) by auto
  ultimately show ?thesis using q1(1) by auto
qed

end

interpretation mpmc: bounded_fifo try_push try_pop queue_content queue_ok capacity queue_room
proof
  fix q :: "'a MPMCQueue"
  assume "queue_ok q"
  then show "length (queue_content q) \<le> capacity q"
    by (auto simp: length_queue_content queue_ok_def)
qed (rule try_push_room try_push_full try_pop_some try_pop_none; assumption)+

section \<open>Properties\<close>

lemma new_room: "good_capacity N \<Longrightarrow> N \<le> 2 ^ 62 \<and> 2 ^ 62 \<le> queue_room (MPMCQueue_new N init)"
  using good_capacity_bound [of N] queue_ok_new(3) [of N init]
  by (simp add: queue_room_def) (simp add: MPMCQueue_new_def)

text \<open>
  Property C7: a queue fresh from its constructor, with any power-of-two capacity from 2 up, answers
  every sequence of at most 2 to the 62 calls to \<^verbatim>\<open>try_push\<close> and \<^verbatim>\<open>try_pop\<close> exactly as a bounded FIFO
  list does: every call returns, no call faults, an element is accepted iff fewer than \<open>N\<close> are queued,
  and the elements come out in the order in which they were accepted.
\<close>

theorem mpmc_refines_fifo:
  assumes "good_capacity N" and "length cs \<le> 2 ^ 62"
  shows "\<exists>q'. run_calls try_push try_pop (MPMCQueue_new N init) cs =
      Some (Inr (fst (fifo_calls N [] cs), q')) \<and> queue_content q' = snd (fifo_calls N [] cs)"
proof -
  let ?q = "MPMCQueue_new N init"
  have "length cs \<le> queue_room ?q"
    using assms(2) new_room [OF assms(1), of init] by (rule order_trans [OF _ conjunct2])
  from mpmc.run_calls_fifo [OF queue_ok_new(1) [OF assms(1)] this] show ?thesis
    by (auto simp: queue_ok_new [OF assms(1)])
qed

theorem mpmc_refines_fifo_witness:
  "\<exists>q'. run_calls try_push try_pop (MPMCQueue_new 2 (0::nat)) [Pop, Push 7, Push 8, Push 9, Pop, Push 10, Pop, Pop] =
      Some (Inr ([Popped None, Pushed True, Pushed True, Pushed False, Popped (Some 7), Pushed True,
        Popped (Some 8), Popped (Some 10)], q')) \<and> queue_content q' = []"
proof -
  have "good_capacity 2"
    unfolding good_capacity_def by (rule exI [of _ 1]) simp
  moreover have "fifo_calls 2 [] [Pop, Push 7, Push 8, Push 9, Pop, Push 10, Pop, Pop] =
      ([Popped None, Pushed True, Pushed True, Pushed False, Popped (Some (7::nat)), Pushed True,
        Popped (Some 8), Popped (Some 10)], [])"
    by (simp add: numeral_eq_Suc)
  ultimately show ?thesis
    using mpmc_refines_fifo [of 2 "[Pop, Push 7, Push 8, Push 9, Pop, Push 10, Pop, Pop]" "0::nat"]
    by (simp del: run_calls.simps)
qed

text \<open>
  The queues of the engine drop the newest elements. Of the values pushed in a row into a
  fresh queue of capacity \<open>N\<close>, exactly the first \<open>N\<close> are accepted and popped again, in order; the later
  ones are refused, and draining ends after one pop that reports an empty queue.
\<close>

theorem mpmc_overflow_drops_newest:
  assumes "good_capacity N" and "length vs \<le> 2 ^ 62"
  shows "\<exists>q1 q2. push_all try_push (MPMCQueue_new N init) vs =
      Some (Inr (map (\<lambda>i. i < N) [0..<length vs], q1)) \<and>
    drain (Suc N) try_pop q1 = Some (Inr (take N vs, q2)) \<and> queue_empty q2"
proof -
  let ?q = "MPMCQueue_new N init"
  have "length vs \<le> queue_room ?q"
    using assms(2) new_room [OF assms(1), of init] by (rule order_trans [OF _ conjunct2])
  from mpmc.push_all_keeps_prefix [OF queue_ok_new(1) [OF assms(1)] this]
  obtain q1 where q1: "push_all try_push ?q vs = Some (Inr (map (\<lambda>i. i < N) [0..<length vs], q1))"
    "queue_ok q1" "queue_content q1 = take N vs"
    by (auto simp: queue_ok_new [OF assms(1)])
  have "length (queue_content q1) < Suc N"
    by (simp add: q1)
  from mpmc.drain_all [OF q1(2) this] obtain q2 where
    q2: "drain (Suc N) try_pop q1 = Some (Inr (take N vs, q2))" "queue_ok q2" "queue_content q2 = []"
    by (auto simp: q1)
  then have "q_head q2 = q_tail q2"
    using length_queue_content [of q2] by (simp add: queue_ok_def flip: word_unat_eq_iff)
  then have "queue_empty q2"
    by (simp add: queue_empty_def queue_size_def)
  then show ?thesis
    using q1 q2 by blast
qed

theorem mpmc_overflow_drops_newest_witness:
  "\<exists>q1 q2. push_all try_push (MPMCQueue_new 2 (0::nat)) [5, 6, 7] = Some (Inr ([True, True, False], q1)) \<and>
    drain 3 try_pop q1 = Some (Inr ([5, 6], q2)) \<and> queue_empty q2"
proof -
  have "good_capacity 2"
    unfolding good_capacity_def by (rule exI [of _ 1]) simp
  moreover have "map (\<lambda>i::nat. i < 2) [0..<length [5, 6, 7::nat]] = [True, True, False]"
    by (simp add: upt_rec)
  ultimately show ?thesis
    using mpmc_overflow_drops_newest [of 2 "[5, 6, 7]" "0::nat"]
    by (simp del: push_all.simps drain.simps upt_Suc)
qed

text \<open>
  In a slot ring of one, the two meanings of a sequence number, free for ticket \<open>1\<close> and published by
  ticket \<open>0\<close>, are the same number.
\<close>

definition stuck_pop :: "'a MPMCQueue \<Rightarrow> u64 \<Rightarrow> bool" where
  "stuck_pop q pos \<longleftrightarrow> capacity q = 1 \<and> q_tail q = 0 \<and> pos = 0 \<and> slot_seq (q_slots q ! 0) = 2"

lemma stuck_pop_diverges: "stuck_pop q pos \<Longrightarrow> pop_loop q pos = None"
proof (rule ccontr)
  assume stuck: "stuck_pop q pos" and "pop_loop q pos \<noteq> None"
  then obtain y where y: "pop_loop q pos = Some y" by blast
  have "\<not> stuck_pop q pos"
  proof (rule pop_loop.raw_induct [of "\<lambda>q pos y. \<not> stuck_pop q pos", OF _ y])
    fix f and q :: "'a MPMCQueue" and pos y
    assume IH: "\<And>q pos y. f q pos = Some y \<Longrightarrow> \<not> stuck_pop q pos"
      and body: "(let i = slot_index q pos; seq = slot_seq (q_slots q ! i)
        in case seq_diff seq (pos + 1) of
             Inl e \<Rightarrow> Some (Inl e)
           | Inr d \<Rightarrow>
               if d = 0 then
                 (if q_tail q = pos then
                    Some (Inr (Some (slot_data (q_slots q ! i)),
                      q\<lparr>q_tail := pos + 1,
                        q_slots := (q_slots q)[i := (q_slots q ! i)\<lparr>slot_seq := pos + of_nat (capacity q)\<rparr>]\<rparr>))
                  else f q (q_tail q))
               else if d < 0 then Some (Inr (None, q))
               else f q (q_tail q)) = Some y"
    show "\<not> stuck_pop q pos"
    proof
      assume s: "stuck_pop q pos"
      then have "f q pos = Some y"
        using body by (simp add: stuck_pop_def slot_index_def seq_diff_def Let_def)
      from IH [OF this] s show False by contradiction
    qed
  qed
  with stuck show False by contradiction
qed

text \<open>
  The compile-time check on the template parameter admits \<open>N = 1\<close>, for which the ring does
  not work: a second push is accepted while the first element is still queued, it overwrites that
  element, and from then on \<^verbatim>\<open>try_pop\<close> never returns.
\<close>

theorem capacity_one_breaks:
  "capacity_assert 1 \<and>
   (\<exists>q. push_all try_push (MPMCQueue_new 1 init) [a, b] = Some (Inr ([True, True], q)) \<and>
      map slot_data (q_slots q) = [b] \<and> queue_size q = 2 \<and> try_pop q = None)"
proof -
  let ?q = "\<lparr>q_slots = [\<lparr>slot_data = b, slot_seq = 2\<rparr>], q_head = 2, q_tail = 0\<rparr>"
  have "push_all try_push (MPMCQueue_new 1 init) [a, b] = Some (Inr ([True, True], ?q))"
    by (simp add: try_push_def push_loop.simps MPMCQueue_new_def slot_index_def capacity_def seq_diff_def)
  moreover have "try_pop ?q = None"
    unfolding try_pop_def by (rule stuck_pop_diverges) (simp add: stuck_pop_def capacity_def)
  ultimately show ?thesis
    by (intro conjI exI [of _ ?q]) (simp_all add: capacity_assert_def queue_size_def)
qed

end
