(* ===== verification/Mpmc_Concurrent.thy ===== *)
theory Mpmc_Concurrent
  imports Mpmc_Queue "HOL-Library.Multiset"
begin

text \<open>
  \<^verbatim>\<open>utils/mpmc_queue.hpp\<close> run by any number of threads: \<^verbatim>\<open>try_push\<close> and \<^verbatim>\<open>try_pop\<close> as one transition per
  access to shared memory, interleaved in any order. A load of an atomic may return any value up to
  the current one (the counters and the sequence numbers only grow, so this includes every stale value
  that a relaxed load can return), and the weak compare-exchange may fail spuriously. Ghost variables
  record the accepted elements in ticket order and the elements that pops have read.
\<close>

section \<open>One thread\<close>

text \<open>Where a thread stands: the next access it makes, with its local variables \<open>pos\<close> and \<open>val\<close>.\<close>

datatype 'a thread =
    Idle
  | Push_load 'a
  | Push_seq 'a u64
  | Push_cas 'a u64
  | Push_write 'a u64
  | Push_publish u64
  | Push_return bool
  | Pop_load
  | Pop_seq u64
  | Pop_cas u64
  | Pop_read u64
  | Pop_release u64 'a
  | Pop_return "'a option"
  | Faulted fault

text \<open>What a transition adds to the ghost history.\<close>

datatype 'a event = Silent | Accepted 'a | Got u64 'a

definition slot_at :: "'a MPMCQueue \<Rightarrow> u64 \<Rightarrow> 'a Slot" where
  "slot_at q pos = q_slots q ! slot_index q pos"

definition update_slot :: "u64 \<Rightarrow> ('a Slot \<Rightarrow> 'a Slot) \<Rightarrow> 'a MPMCQueue \<Rightarrow> 'a MPMCQueue" where
  "update_slot pos f q = q\<lparr>q_slots := (q_slots q)[slot_index q pos := f (slot_at q pos)]\<rparr>"

inductive thread_step ::
  "'a MPMCQueue \<Rightarrow> 'a thread \<Rightarrow> 'a event \<Rightarrow> 'a MPMCQueue \<Rightarrow> 'a thread \<Rightarrow> bool" where
  call_push: "thread_step q Idle Silent q (Push_load v)"
| push_load: "pos \<le> q_head q \<Longrightarrow> thread_step q (Push_load v) Silent q (Push_seq v pos)"
| push_free: "seq \<le> slot_seq (slot_at q pos) \<Longrightarrow> seq_diff seq pos = Inr 0 \<Longrightarrow>
    thread_step q (Push_seq v pos) Silent q (Push_cas v pos)"
| push_full: "seq \<le> slot_seq (slot_at q pos) \<Longrightarrow> seq_diff seq pos = Inr d \<Longrightarrow> d < 0 \<Longrightarrow>
    thread_step q (Push_seq v pos) Silent q (Push_return False)"
| push_behind: "seq \<le> slot_seq (slot_at q pos) \<Longrightarrow> seq_diff seq pos = Inr d \<Longrightarrow> 0 < d \<Longrightarrow>
    thread_step q (Push_seq v pos) Silent q (Push_load v)"
| push_overflow: "seq \<le> slot_seq (slot_at q pos) \<Longrightarrow> seq_diff seq pos = Inl e \<Longrightarrow>
    thread_step q (Push_seq v pos) Silent q (Faulted e)"
| push_claim: "q_head q = pos \<Longrightarrow>
    thread_step q (Push_cas v pos) (Accepted v) (q\<lparr>q_head := pos + 1\<rparr>) (Push_write v pos)"
| push_retry: "pos' \<le> q_head q \<Longrightarrow> thread_step q (Push_cas v pos) Silent q (Push_seq v pos')"
| push_write: "thread_step q (Push_write v pos) Silent (update_slot pos (slot_data_update (\<lambda>_. v)) q) (Push_publish pos)"
| push_publish: "thread_step q (Push_publish pos) Silent
    (update_slot pos (slot_seq_update (\<lambda>_. pos + 1)) q) (Push_return True)"
| return_push: "thread_step q (Push_return b) Silent q Idle"
| call_pop: "thread_step q Idle Silent q Pop_load"
| pop_load: "pos \<le> q_tail q \<Longrightarrow> thread_step q Pop_load Silent q (Pop_seq pos)"
| pop_ready: "seq \<le> slot_seq (slot_at q pos) \<Longrightarrow> seq_diff seq (pos + 1) = Inr 0 \<Longrightarrow>
    thread_step q (Pop_seq pos) Silent q (Pop_cas pos)"
| pop_empty: "seq \<le> slot_seq (slot_at q pos) \<Longrightarrow> seq_diff seq (pos + 1) = Inr d \<Longrightarrow> d < 0 \<Longrightarrow>
    thread_step q (Pop_seq pos) Silent q (Pop_return None)"
| pop_behind: "seq \<le> slot_seq (slot_at q pos) \<Longrightarrow> seq_diff seq (pos + 1) = Inr d \<Longrightarrow> 0 < d \<Longrightarrow>
    thread_step q (Pop_seq pos) Silent q Pop_load"
| pop_overflow: "seq \<le> slot_seq (slot_at q pos) \<Longrightarrow> seq_diff seq (pos + 1) = Inl e \<Longrightarrow>
    thread_step q (Pop_seq pos) Silent q (Faulted e)"
| pop_claim: "q_tail q = pos \<Longrightarrow>
    thread_step q (Pop_cas pos) Silent (q\<lparr>q_tail := pos + 1\<rparr>) (Pop_read pos)"
| pop_retry: "pos' \<le> q_tail q \<Longrightarrow> thread_step q (Pop_cas pos) Silent q (Pop_seq pos')"
| pop_read: "v = slot_data (slot_at q pos) \<Longrightarrow> thread_step q (Pop_read pos) (Got pos v) q (Pop_release pos v)"
| pop_release: "thread_step q (Pop_release pos v) Silent
    (update_slot pos (slot_seq_update (\<lambda>_. pos + of_nat (capacity q))) q) (Pop_return (Some v))"
| return_pop: "thread_step q (Pop_return r) Silent q Idle"

section \<open>All threads\<close>

record 'a system =
  sys_queue :: "'a MPMCQueue"
  sys_threads :: "nat \<Rightarrow> 'a thread"
  sys_pushed :: "'a list"           \<comment> \<open>accepted elements; the index is the ticket\<close>
  sys_popped :: "(nat \<times> nat \<times> 'a) list"   \<comment> \<open>thread, ticket and value of every read by a pop\<close>

fun event_pushed :: "'a event \<Rightarrow> 'a list" where
  "event_pushed (Accepted v) = [v]"
| "event_pushed _ = []"

fun event_popped :: "nat \<Rightarrow> 'a event \<Rightarrow> (nat \<times> nat \<times> 'a) list" where
  "event_popped i (Got pos v) = [(i, unat pos, v)]"
| "event_popped i _ = []"

definition system_init :: "nat \<Rightarrow> 'a \<Rightarrow> 'a system" where
  "system_init N init = \<lparr>sys_queue = MPMCQueue_new N init, sys_threads = (\<lambda>_. Idle), sys_pushed = [], sys_popped = []\<rparr>"

definition after_event :: "'a system \<Rightarrow> nat \<Rightarrow> 'a event \<Rightarrow> 'a MPMCQueue \<Rightarrow> 'a thread \<Rightarrow> 'a system" where
  "after_event s i e q p = \<lparr>sys_queue = q, sys_threads = (sys_threads s)(i := p),
     sys_pushed = sys_pushed s @ event_pushed e, sys_popped = sys_popped s @ event_popped i e\<rparr>"

inductive system_step :: "'a system \<Rightarrow> 'a system \<Rightarrow> bool" where
  "thread_step (sys_queue s) (sys_threads s i) e q p \<Longrightarrow> system_step s (after_event s i e q p)"

inductive reachable :: "nat \<Rightarrow> 'a \<Rightarrow> 'a system \<Rightarrow> bool" for N init where
  start: "reachable N init (system_init N init)"
| step: "reachable N init s \<Longrightarrow> system_step s s' \<Longrightarrow> reachable N init s'"

section \<open>Invariant of the shared memory\<close>

text \<open>
  Every slot serves one ticket \<open>k\<close>: it waits for the push with that ticket (sequence number \<open>k\<close>), or
  holds its element for the pop with that ticket (sequence number \<open>k + 1\<close>).
\<close>

definition slot_ok :: "nat \<Rightarrow> nat \<Rightarrow> 'a list \<Rightarrow> nat \<Rightarrow> 'a Slot \<Rightarrow> bool" where
  "slot_ok t N xs i s \<longleftrightarrow> (\<exists>k. k mod N = i \<and> k < t + N \<and>
     (unat (slot_seq s) = k \<and> t \<le> k \<or>
      unat (slot_seq s) = Suc k \<and> k < length xs \<and> length xs \<le> k + N \<and> slot_data s = xs ! k))"

definition shared_ok :: "nat \<Rightarrow> 'a MPMCQueue \<Rightarrow> 'a list \<Rightarrow> bool" where
  "shared_ok N q xs \<longleftrightarrow> good_capacity N \<and> capacity q = N \<and> length xs + N < 2 ^ 63 \<and>
     unat (q_head q) = length xs \<and> unat (q_tail q) \<le> length xs \<and> length xs \<le> unat (q_tail q) + N \<and>
     (\<forall>i < N. slot_ok (unat (q_tail q)) N xs i (q_slots q ! i))"

text \<open>What a thread may rely on at each point, whatever the other threads do.\<close>

fun thread_ok :: "'a MPMCQueue \<Rightarrow> 'a list \<Rightarrow> 'a thread \<Rightarrow> bool" where
  "thread_ok q xs (Push_seq v pos) \<longleftrightarrow> pos \<le> q_head q"
| "thread_ok q xs (Push_cas v pos) \<longleftrightarrow> pos \<le> q_head q \<and> pos \<le> slot_seq (slot_at q pos)"
| "thread_ok q xs (Push_write v pos) \<longleftrightarrow>
     pos < q_head q \<and> slot_seq (slot_at q pos) = pos \<and> xs ! unat pos = v"
| "thread_ok q xs (Push_publish pos) \<longleftrightarrow>
     pos < q_head q \<and> slot_seq (slot_at q pos) = pos \<and> slot_data (slot_at q pos) = xs ! unat pos"
| "thread_ok q xs (Pop_seq pos) \<longleftrightarrow> pos \<le> q_tail q"
| "thread_ok q xs (Pop_cas pos) \<longleftrightarrow> pos \<le> q_tail q \<and> pos + 1 \<le> slot_seq (slot_at q pos)"
| "thread_ok q xs (Pop_read pos) \<longleftrightarrow> pos < q_tail q \<and> slot_seq (slot_at q pos) = pos + 1"
| "thread_ok q xs (Pop_release pos v) \<longleftrightarrow>
     pos < q_tail q \<and> slot_seq (slot_at q pos) = pos + 1 \<and> v = xs ! unat pos"
| "thread_ok q xs (Faulted e) \<longleftrightarrow> False"
| "thread_ok q xs _ \<longleftrightarrow> True"

text \<open>The ticket a thread holds: a push between its claim and its publication, a pop between its claim and its release.\<close>

fun holds :: "'a thread \<Rightarrow> (u64 + u64) option" where
  "holds (Push_write v pos) = Some (Inl pos)"
| "holds (Push_publish pos) = Some (Inl pos)"
| "holds (Pop_read pos) = Some (Inr pos)"
| "holds (Pop_release pos v) = Some (Inr pos)"
| "holds _ = None"

fun reading :: "'a thread \<Rightarrow> nat option" where
  "reading (Pop_read pos) = Some (unat pos)"
| "reading _ = None"

section \<open>Slots and tickets\<close>

lemma same_ticket:
  fixes a b N :: nat
  shows "a mod N = b mod N \<Longrightarrow> a < b + N \<Longrightarrow> b < a + N \<Longrightarrow> a = b"
  using mod_distinct [of a b N] mod_distinct [of b a N] by linarith

lemma next_slot_differs: "2 \<le> N \<Longrightarrow> Suc p mod N \<noteq> p mod N"
  using mod_distinct [of p "Suc p" N] by simp

lemma shared_okD:
  assumes "shared_ok N q xs"
  shows "good_capacity N" "2 \<le> N" "capacity q = N" "length (q_slots q) = N" "length xs + N < 2 ^ 63"
    "unat (q_head q) = length xs" "unat (q_tail q) \<le> length xs" "length xs \<le> unat (q_tail q) + N"
  using assms good_capacity_ge2 by (auto simp: shared_ok_def capacity_def)

lemma shared_ok_index:
  "shared_ok N q xs \<Longrightarrow> slot_index q pos = unat pos mod N"
  using slot_index_mod [of q pos] shared_okD(1,3) [of N q xs] by simp

lemma shared_ok_slot:
  assumes "shared_ok N q xs"
  shows "slot_ok (unat (q_tail q)) N xs (unat pos mod N) (slot_at q pos)"
  using assms shared_okD(2) [OF assms] shared_ok_index [OF assms, of pos]
  by (auto simp: shared_ok_def slot_at_def)

text \<open>What the sequence number of a slot tells about the ticket that maps to it.\<close>

lemma slot_readable:
  assumes "slot_ok t N xs (p mod N) s" and "2 \<le> N" and "unat (slot_seq s) = Suc p"
  shows "p < length xs \<and> p < t + N \<and> length xs \<le> p + N \<and> slot_data s = xs ! p"
  using assms next_slot_differs [of N p] by (auto simp: slot_ok_def)

lemma slot_writable:
  assumes "slot_ok t N xs (p mod N) s" and "2 \<le> N" and "unat (slot_seq s) = p"
  shows "t \<le> p \<and> p < t + N"
  using assms next_slot_differs [of N, THEN not_sym] by (auto simp: slot_ok_def)

lemma head_slot:
  assumes ok: "slot_ok t N xs (length xs mod N) s" and N: "2 \<le> N" and "t \<le> length xs" "length xs \<le> t + N"
    and seq: "length xs \<le> unat (slot_seq s)"
  shows "unat (slot_seq s) = length xs \<and> length xs < t + N"
proof -
  obtain k where k: "k mod N = length xs mod N" "k < t + N"
    and cases: "unat (slot_seq s) = k \<and> t \<le> k \<or> unat (slot_seq s) = Suc k \<and> k < length xs"
    using ok by (auto simp: slot_ok_def)
  show ?thesis
  proof (cases "unat (slot_seq s) = k")
    case True
    with seq k(2) assms(3) have "k = length xs"
      by (intro same_ticket [OF k(1)]) simp_all
    with True k show ?thesis by simp
  next
    case False
    with cases seq have "length xs = Suc k" by simp
    with k(1) next_slot_differs [OF N, of k] show ?thesis by simp
  qed
qed

lemma tail_slot:
  assumes ok: "slot_ok t N xs (t mod N) s" and N: "2 \<le> N" and "t \<le> length xs"
    and seq: "Suc t \<le> unat (slot_seq s)"
  shows "unat (slot_seq s) = Suc t \<and> t < length xs \<and> slot_data s = xs ! t"
proof -
  obtain k where k: "k mod N = t mod N" "k < t + N"
    and cases: "unat (slot_seq s) = k \<and> t \<le> k \<or>
      unat (slot_seq s) = Suc k \<and> k < length xs \<and> slot_data s = xs ! k"
    using ok by (auto simp: slot_ok_def)
  have "t \<le> k" using cases seq by auto
  then have "k = t"
    using k(2) N by (intro same_ticket [OF k(1)]) simp_all
  with cases seq show ?thesis by auto
qed

lemma slot_ok_append:
  assumes ok: "slot_ok t N xs (j mod N) s" and N: "2 \<le> N"
    and here: "j mod N = length xs mod N \<Longrightarrow> unat (slot_seq s) = length xs"
  shows "slot_ok t N (xs @ [v]) (j mod N) s"
proof -
  obtain k where k: "k mod N = j mod N" "k < t + N"
    "unat (slot_seq s) = k \<and> t \<le> k \<or>
      unat (slot_seq s) = Suc k \<and> k < length xs \<and> length xs \<le> k + N \<and> slot_data s = xs ! k"
    using ok by (auto simp: slot_ok_def)
  have "length xs \<noteq> k + N" if "unat (slot_seq s) = Suc k"
    using here that k(1) N by auto
  with k show ?thesis
    unfolding slot_ok_def by (intro exI [of _ k]) (auto simp: nth_append)
qed

lemma slot_ok_tail:
  assumes ok: "slot_ok t N xs (j mod N) s" and N: "2 \<le> N" and "t \<le> length xs"
    and cap: "length xs \<le> t + N"
    and taken: "j mod N = t mod N \<Longrightarrow> unat (slot_seq s) = Suc t \<and> t < length xs \<and> slot_data s = xs ! t"
  shows "slot_ok (Suc t) N xs (j mod N) s"
proof (cases "j mod N = t mod N")
  case True
  with taken N cap show ?thesis
    unfolding slot_ok_def by (intro exI [of _ t]) auto
next
  case False
  obtain k where k: "k mod N = j mod N" "k < t + N"
    "unat (slot_seq s) = k \<and> t \<le> k \<or>
      unat (slot_seq s) = Suc k \<and> k < length xs \<and> length xs \<le> k + N \<and> slot_data s = xs ! k"
    using ok by (auto simp: slot_ok_def)
  have "k \<noteq> t"
    using False k(1) by auto
  with k show ?thesis
    unfolding slot_ok_def by (intro exI [of _ k]) auto
qed

section \<open>Steps of one thread keep the invariant\<close>

lemma update_slot_simps [simp]:
  "q_head (update_slot pos f q) = q_head q"
  "q_tail (update_slot pos f q) = q_tail q"
  "capacity (update_slot pos f q) = capacity q"
  "slot_index (update_slot pos f q) p = slot_index q p"
  by (simp_all add: update_slot_def capacity_def slot_index_def)

lemma head_tail_simps [simp]:
  "capacity (q\<lparr>q_head := h\<rparr>) = capacity q" "capacity (q\<lparr>q_tail := h\<rparr>) = capacity q"
  "slot_index (q\<lparr>q_head := h\<rparr>) p = slot_index q p" "slot_index (q\<lparr>q_tail := h\<rparr>) p = slot_index q p"
  "slot_at (q\<lparr>q_head := h\<rparr>) p = slot_at q p" "slot_at (q\<lparr>q_tail := h\<rparr>) p = slot_at q p"
  by (simp_all add: capacity_def slot_index_def slot_at_def)

lemma slot_at_update:
  assumes "shared_ok N q xs"
  shows "slot_at (update_slot pos f q) p =
    (if unat p mod N = unat pos mod N then f (slot_at q pos) else slot_at q p)"
  using shared_okD [OF assms] shared_ok_index [OF assms]
  by (simp add: slot_at_def update_slot_def capacity_def slot_index_def)

text \<open>Replacing a slot by one that is fit for its index keeps the shared invariant.\<close>

lemma shared_ok_update:
  assumes ok: "shared_ok N q xs"
    and new: "slot_ok (unat (q_tail q)) N xs (unat pos mod N) (f (slot_at q pos))"
  shows "shared_ok N (update_slot pos f q) xs"
proof -
  have "slot_ok (unat (q_tail q)) N xs i (q_slots (update_slot pos f q) ! i)" if "i < N" for i
    using that ok new shared_okD(4) [OF ok]
    by (cases "i = unat pos mod N") (auto simp: update_slot_def shared_ok_index [OF ok] shared_ok_def)
  then show ?thesis
    using ok by (simp add: shared_ok_def)
qed

lemma ticket_words:
  assumes ok: "shared_ok N q xs"
  shows "pos \<le> q_head q \<Longrightarrow> unat (pos + 1) = Suc (unat pos)"
    and "pos \<le> q_tail q \<Longrightarrow> unat (pos + 1) = Suc (unat pos)"
    and "pos \<le> q_tail q \<Longrightarrow> unat (pos + of_nat N) = unat pos + N"
    and "pos \<le> q_tail q \<Longrightarrow> pos \<le> q_head q"
proof -
  note D = shared_okD [OF ok]
  have N: "unat (of_nat N :: u64) = N"
    using good_capacity_bound [OF D(1)] by (simp add: unsigned_of_nat take_bit_nat_eq_self)
  show "unat (pos + 1) = Suc (unat pos)" if "pos \<le> q_head q"
    using that D by (intro unat_Suc_small) (simp add: word_le_nat_alt)
  show "unat (pos + 1) = Suc (unat pos)" if "pos \<le> q_tail q"
    using that D by (intro unat_Suc_small) (simp add: word_le_nat_alt)
  show "unat (pos + of_nat N) = unat pos + N" if "pos \<le> q_tail q"
    using that D N by (subst unat_add_small) (simp_all add: word_le_nat_alt)
  show "pos \<le> q_head q" if "pos \<le> q_tail q"
    using that D by (simp add: word_le_nat_alt)
qed

lemma claim_push_ok:
  assumes ok: "shared_ok N q xs" and "q_head q \<le> slot_seq (slot_at q (q_head q))"
    and room: "Suc (length xs) + N < 2 ^ 63"
  shows "slot_seq (slot_at q (q_head q)) = q_head q"
    and "shared_ok N (q\<lparr>q_head := q_head q + 1\<rparr>) (xs @ [v])"
proof -
  note D = shared_okD [OF ok]
  have "slot_ok (unat (q_tail q)) N xs (length xs mod N) (slot_at q (q_head q))"
    using shared_ok_slot [OF ok, of "q_head q"] D(6) by simp
  from head_slot [OF this D(2,7,8)] assms(2)
  have h: "unat (slot_seq (slot_at q (q_head q))) = length xs" "length xs < unat (q_tail q) + N"
    by (simp_all add: word_le_nat_alt D(6))
  then show "slot_seq (slot_at q (q_head q)) = q_head q"
    by (simp add: word_unat_eq_iff D(6))
  have "slot_ok (unat (q_tail q)) N (xs @ [v]) i (q_slots q ! i)" if "i < N" for i
  proof -
    have "slot_ok (unat (q_tail q)) N xs (i mod N) (q_slots q ! i)"
      using ok that by (simp add: shared_ok_def)
    then have "slot_ok (unat (q_tail q)) N (xs @ [v]) (i mod N) (q_slots q ! i)"
      using that h(1) shared_ok_index [OF ok, of "q_head q"] D(6)
      by (intro slot_ok_append [OF _ D(2)]) (simp_all add: slot_at_def)
    then show ?thesis using that by simp
  qed
  then show "shared_ok N (q\<lparr>q_head := q_head q + 1\<rparr>) (xs @ [v])"
    using ok room h(2) ticket_words(1) [OF ok order_refl] D(6) by (simp add: shared_ok_def)
qed

lemma claim_pop_ok:
  assumes ok: "shared_ok N q xs" and "q_tail q + 1 \<le> slot_seq (slot_at q (q_tail q))"
  shows "slot_seq (slot_at q (q_tail q)) = q_tail q + 1" and "unat (q_tail q) < length xs"
    and "shared_ok N (q\<lparr>q_tail := q_tail q + 1\<rparr>) xs"
proof -
  note D = shared_okD [OF ok]
  define t where "t = unat (q_tail q)"
  have t': "unat (q_tail q + 1) = Suc t"
    using ticket_words(2) [OF ok order_refl] by (simp add: t_def)
  have "slot_ok t N xs (t mod N) (slot_at q (q_tail q))"
    using shared_ok_slot [OF ok, of "q_tail q"] by (simp add: t_def)
  from tail_slot [OF this D(2)] assms(2) D(7)
  have taken: "unat (slot_seq (slot_at q (q_tail q))) = Suc t \<and> t < length xs \<and>
      slot_data (slot_at q (q_tail q)) = xs ! t"
    by (simp add: word_le_nat_alt t' flip: t_def)
  then show "slot_seq (slot_at q (q_tail q)) = q_tail q + 1" and "unat (q_tail q) < length xs"
    by (simp_all add: word_unat_eq_iff t' flip: t_def)
  have "slot_ok (Suc t) N xs i (q_slots q ! i)" if "i < N" for i
  proof -
    have "slot_ok t N xs (i mod N) (q_slots q ! i)"
      using ok that by (simp add: shared_ok_def t_def)
    then have "slot_ok (Suc t) N xs (i mod N) (q_slots q ! i)"
      using that taken shared_ok_index [OF ok, of "q_tail q"] D(7,8)
      by (intro slot_ok_tail [OF _ D(2)]) (simp_all add: slot_at_def flip: t_def)
    then show ?thesis using that by simp
  qed
  then show "shared_ok N (q\<lparr>q_tail := q_tail q + 1\<rparr>) xs"
    using ok taken by (simp add: shared_ok_def t' flip: t_def)
qed

lemma publish_ok:
  assumes ok: "shared_ok N q xs" and th: "thread_ok q xs (Push_publish pos)"
  shows "shared_ok N (update_slot pos (slot_seq_update (\<lambda>_. pos + 1)) q) xs"
proof (rule shared_ok_update [OF ok])
  note D = shared_okD [OF ok]
  have "unat (pos + 1) = Suc (unat pos)" "unat pos < length xs"
    using th D ticket_words(1) [OF ok, of pos] by (simp_all add: word_less_nat_alt word_le_nat_alt)
  moreover have "unat (q_tail q) \<le> unat pos \<and> unat pos < unat (q_tail q) + N"
    using th by (intro slot_writable [OF shared_ok_slot [OF ok] D(2)]) simp
  ultimately show "slot_ok (unat (q_tail q)) N xs (unat pos mod N)
      (slot_seq_update (\<lambda>_. pos + 1) (slot_at q pos))"
    using th D(8) by (auto simp: slot_ok_def intro!: exI [of _ "unat pos"])
qed

lemma write_ok:
  assumes ok: "shared_ok N q xs" and th: "thread_ok q xs (Push_write v pos)"
  shows "shared_ok N (update_slot pos (slot_data_update (\<lambda>_. v)) q) xs"
proof (rule shared_ok_update [OF ok])
  have "unat (q_tail q) \<le> unat pos \<and> unat pos < unat (q_tail q) + N"
    using th by (intro slot_writable [OF shared_ok_slot [OF ok] shared_okD(2) [OF ok]]) simp
  then show "slot_ok (unat (q_tail q)) N xs (unat pos mod N) (slot_data_update (\<lambda>_. v) (slot_at q pos))"
    using th by (auto simp: slot_ok_def intro!: exI [of _ "unat pos"])
qed

lemma release_ok:
  assumes ok: "shared_ok N q xs" and th: "thread_ok q xs (Pop_release pos v)"
  shows "shared_ok N (update_slot pos (slot_seq_update (\<lambda>_. pos + of_nat N)) q) xs"
proof (rule shared_ok_update [OF ok])
  note D = shared_okD [OF ok]
  have p: "unat pos < unat (q_tail q)" "unat (slot_seq (slot_at q pos)) = Suc (unat pos)"
    "unat (pos + of_nat N) = unat pos + N"
    using th ticket_words(2,3) [OF ok, of pos] by (simp_all add: word_less_nat_alt word_le_nat_alt)
  moreover have "unat (q_tail q) \<le> unat pos + N"
    using slot_readable [OF shared_ok_slot [OF ok] D(2) p(2)] D(7) by simp
  ultimately show "slot_ok (unat (q_tail q)) N xs (unat pos mod N)
      (slot_seq_update (\<lambda>_. pos + of_nat N) (slot_at q pos))"
    by (auto simp: slot_ok_def intro!: exI [of _ "unat pos + N"])
qed

lemma read_ok:
  assumes ok: "shared_ok N q xs" and th: "thread_ok q xs (Pop_read pos)"
  shows "slot_data (slot_at q pos) = xs ! unat pos" and "unat pos < length xs"
proof -
  have "unat (slot_seq (slot_at q pos)) = Suc (unat pos)"
    using th ticket_words(2) [OF ok, of pos] by auto
  from slot_readable [OF shared_ok_slot [OF ok] shared_okD(2) [OF ok] this]
  show "slot_data (slot_at q pos) = xs ! unat pos" and "unat pos < length xs" by simp_all
qed

text \<open>No difference of counters overflows.\<close>

lemma seq_diff_ok:
  assumes ok: "shared_ok N q xs" and "seq \<le> slot_seq (slot_at q p)" and "unat pos < 2 ^ 63"
  shows "seq_diff seq pos = Inr (int (unat seq) - int (unat pos))"
proof (rule seq_diff_small)
  note D = shared_okD [OF ok]
  have "unat (slot_seq (slot_at q p)) < 2 ^ 63"
    using shared_ok_slot [OF ok, of p] D(5,7) by (auto simp: slot_ok_def)
  with assms(2) show "unat seq < 2 ^ 63"
    by (simp add: word_le_nat_alt)
qed (rule assms(3))

lemma thread_step_ok:
  assumes step: "thread_step q p e q' p'" and ok: "shared_ok N q xs" and th: "thread_ok q xs p"
    and room: "length (xs @ event_pushed e) + N < 2 ^ 63"
  shows "shared_ok N q' (xs @ event_pushed e)" and "thread_ok q' (xs @ event_pushed e) p'"
proof -
  note D = shared_okD [OF ok]
  have pos: "unat pos < 2 ^ 63" if "pos \<le> q_head q" for pos
    using that D by (simp add: word_le_nat_alt)
  have pos1: "unat (pos + 1) < 2 ^ 63" if "pos \<le> q_tail q" for pos
    using that D ticket_words(2) [OF ok that] by (simp add: word_le_nat_alt)
  have "shared_ok N q' (xs @ event_pushed e) \<and> thread_ok q' (xs @ event_pushed e) p'"
    using step
  proof cases
    case (push_claim pos v)
    then have le: "q_head q \<le> slot_seq (slot_at q (q_head q))"
      using th by simp
    have "q_head q < q_head q + 1"
      using ticket_words(1) [OF ok order_refl] by (simp add: word_less_nat_alt)
    moreover have "Suc (length xs) + N < 2 ^ 63"
      using room push_claim by simp
    ultimately show ?thesis
      using claim_push_ok [OF ok le] push_claim nth_append_length [of xs] D(6) by auto
  next
    case (pop_claim pos)
    then have le: "q_tail q + 1 \<le> slot_seq (slot_at q (q_tail q))"
      using th by simp
    have "q_tail q < q_tail q + 1"
      using ticket_words(2) [OF ok order_refl] by (simp add: word_less_nat_alt)
    with claim_pop_ok [OF ok le] pop_claim show ?thesis by simp
  next
    case (push_free seq pos v)
    then have "seq = pos"
      using th pos [of pos] seq_diff_ok [OF ok push_free(5), of pos] by (simp add: word_uint_eq_iff)
    then show ?thesis
      using push_free ok th by simp
  next
    case (pop_ready seq pos)
    then have "seq = pos + 1"
      using th pos1 [of pos] seq_diff_ok [OF ok pop_ready(5), of "pos + 1"] by (simp add: word_uint_eq_iff)
    then show ?thesis
      using pop_ready ok th by simp
  qed (use ok th pos pos1 seq_diff_ok [OF ok] write_ok [OF ok] publish_ok [OF ok] release_ok [OF ok]
      read_ok [OF ok] slot_at_update [OF ok] D(3) in \<open>fastforce\<close>)+
  then show "shared_ok N q' (xs @ event_pushed e)" and "thread_ok q' (xs @ event_pushed e) p'"
    by simp_all
qed

text \<open>
  The interference of another thread: sequence numbers never decrease, and the slot of a ticket that a
  thread holds is changed by nobody else.
\<close>

lemma update_slot_thread_ok:
  assumes ok: "shared_ok N q xs" and th: "thread_ok q xs r"
    and grows: "slot_seq (slot_at q pos) \<le> slot_seq (f (slot_at q pos))"
    and mine: "\<And>p. holds r = Some (Inl p) \<Longrightarrow> unat p mod N \<noteq> unat pos mod N"
      "\<And>p. holds r = Some (Inr p) \<Longrightarrow> unat p mod N \<noteq> unat pos mod N"
  shows "thread_ok (update_slot pos f q) xs r"
proof -
  have same: "slot_at q p = slot_at q pos" if "unat p mod N = unat pos mod N" for p
    using that shared_ok_index [OF ok] by (simp add: slot_at_def)
  have seq: "n \<le> slot_seq (slot_at (update_slot pos f q) p)" if "n \<le> slot_seq (slot_at q p)" for n p
    using that order_trans [OF _ grows] same [of p] by (auto simp: slot_at_update [OF ok])
  have kept: "slot_at (update_slot pos f q) p = slot_at q p"
    if "holds r = Some (Inl p) \<or> holds r = Some (Inr p)" for p
    using mine that by (auto simp: slot_at_update [OF ok])
  show ?thesis
    using th by (cases r) (simp_all add: seq kept)
qed

text \<open>Two tickets that are held at the same time and share a slot are the same ticket.\<close>

lemma held_slots_differ:
  assumes ok: "shared_ok N q xs" and p: "thread_ok q xs p" and r: "thread_ok q xs r"
    and hp: "holds p = Some x" and hr: "holds r = Some y"
    and slot: "unat (case_sum id id x) mod N = unat (case_sum id id y) mod N"
  shows "x = y"
proof -
  note D = shared_okD [OF ok]
  have same: "slot_at q (case_sum id id x) = slot_at q (case_sum id id y)"
    using slot shared_ok_index [OF ok] by (simp add: slot_at_def)
  have seq: "unat (slot_seq (slot_at q (case_sum id id z))) =
      unat (case_sum id id z) + (case z of Inl _ \<Rightarrow> 0 | Inr _ \<Rightarrow> 1)"
    if "holds a = Some z" "thread_ok q xs a" for a :: "'a thread" and z
    using that ticket_words(2) [OF ok] by (cases a) auto
  have eq: "unat (case_sum id id x) + (case x of Inl _ \<Rightarrow> 0 | Inr _ \<Rightarrow> 1) =
      unat (case_sum id id y) + (case y of Inl _ \<Rightarrow> 0 | Inr _ \<Rightarrow> 1)"
    using seq [OF hp p] seq [OF hr r] same by simp
  have differ: "Suc m \<noteq> n" if "m mod N = n mod N" for m n
    using that next_slot_differs [OF D(2), of m] by auto
  show ?thesis
    using eq slot differ [of "unat (case_sum id id x)" "unat (case_sum id id y)"]
      differ [of "unat (case_sum id id y)" "unat (case_sum id id x)"]
    by (cases x; cases y) (auto simp: word_unat_eq_iff)
qed

lemma other_thread_ok:
  assumes step: "thread_step q p e q' p'" and ok: "shared_ok N q xs"
    and p: "thread_ok q xs p" and r: "thread_ok q xs r"
    and apart: "\<And>x. holds p = Some x \<Longrightarrow> holds r \<noteq> Some x"
    and room: "length (xs @ event_pushed e) + N < 2 ^ 63"
  shows "thread_ok q' (xs @ event_pushed e) r"
proof -
  note D = shared_okD [OF ok]
  have mine: "unat p1 mod N \<noteq> unat pos mod N"
    if "holds p = Some x" "case_sum id id x = pos" "holds r = Some (Inl p1) \<or> holds r = Some (Inr p1)" for x pos p1
    using that held_slots_differ [OF ok p r that(1)] apart [OF that(1)] by fastforce
  show ?thesis
    using step
  proof cases
    case (push_claim pos v)
    have "thread_ok q (xs @ [v]) r"
      using r D by (cases r) (auto simp: nth_append word_less_nat_alt ticket_words(4) [OF ok])
    moreover have "p \<le> q_head q \<Longrightarrow> p \<le> q_head q + 1" "p < q_head q \<Longrightarrow> p < q_head q + 1" for p
      using ticket_words(1) [OF ok order_refl] by (simp_all add: word_less_nat_alt word_le_nat_alt)
    ultimately show ?thesis
      using push_claim by (cases r) auto
  next
    case (pop_claim pos)
    have "p \<le> q_tail q \<Longrightarrow> p \<le> q_tail q + 1" "p < q_tail q \<Longrightarrow> p < q_tail q + 1" for p
      using ticket_words(2) [OF ok order_refl] by (simp_all add: word_less_nat_alt word_le_nat_alt)
    with pop_claim r show ?thesis
      by (cases r) auto
  next
    case (push_write v pos)
    then show ?thesis
      using mine [of "Inl pos" pos] by (auto intro!: update_slot_thread_ok [OF ok r])
  next
    case (push_publish pos)
    then show ?thesis
      using p mine [of "Inl pos" pos] ticket_words(1) [OF ok, of pos]
      by (auto intro!: update_slot_thread_ok [OF ok r] simp: word_le_nat_alt word_less_nat_alt)
  next
    case (pop_release pos v)
    then show ?thesis
      using p mine [of "Inr pos" pos] ticket_words(2,3) [OF ok, of pos] D
      by (auto intro!: update_slot_thread_ok [OF ok r] simp: word_le_nat_alt word_less_nat_alt)
  qed (use r in simp_all)
qed

section \<open>The invariant of the system\<close>

definition tickets :: "(nat \<times> nat \<times> 'a) list \<Rightarrow> nat list" where
  "tickets rds = map (\<lambda>(i, k, v). k) rds"

definition reads_of :: "nat \<Rightarrow> (nat \<times> nat \<times> 'a) list \<Rightarrow> (nat \<times> nat \<times> 'a) list" where
  "reads_of i rds = filter (\<lambda>(j, k, v). j = i) rds"

text \<open>The reads so far and the pops that have claimed a ticket but not read yet cover the tickets below \<^verbatim>\<open>tail_\<close>, each once.\<close>

definition reads_ok :: "nat \<Rightarrow> 'a list \<Rightarrow> (nat \<Rightarrow> 'a thread) \<Rightarrow> (nat \<times> nat \<times> 'a) list \<Rightarrow> bool" where
  "reads_ok t xs thr rds \<longleftrightarrow>
     (\<forall>(i, k, v) \<in> set rds. k < t \<and> v = xs ! k) \<and> distinct (tickets rds) \<and>
     (\<forall>k < t. k \<in> set (tickets rds) \<or> (\<exists>i. reading (thr i) = Some k)) \<and>
     (\<forall>i k. reading (thr i) = Some k \<longrightarrow> k \<notin> set (tickets rds)) \<and>
     (\<forall>i. sorted_wrt (<) (tickets (reads_of i rds))) \<and>
     (\<forall>i k. reading (thr i) = Some k \<longrightarrow> (\<forall>k' \<in> set (tickets (reads_of i rds)). k' < k))"

text \<open>A slot that waits for a push or a pop that has begun has a thread at work on it.\<close>

definition covered :: "'a MPMCQueue \<Rightarrow> (nat \<Rightarrow> 'a thread) \<Rightarrow> bool" where
  "covered q thr \<longleftrightarrow>
     (\<forall>pos < q_head q. slot_seq (slot_at q pos) = pos \<longrightarrow> (\<exists>i. holds (thr i) = Some (Inl pos))) \<and>
     (\<forall>pos < q_tail q. slot_seq (slot_at q pos) = pos + 1 \<longrightarrow> (\<exists>i. holds (thr i) = Some (Inr pos)))"

definition apart :: "(nat \<Rightarrow> 'a thread) \<Rightarrow> bool" where
  "apart thr \<longleftrightarrow> (\<forall>i j x. i \<noteq> j \<longrightarrow> holds (thr i) = Some x \<longrightarrow> holds (thr j) \<noteq> Some x)"

definition system_ok :: "nat \<Rightarrow> 'a system \<Rightarrow> bool" where
  "system_ok N s \<longleftrightarrow> shared_ok N (sys_queue s) (sys_pushed s) \<and>
     (\<forall>i. thread_ok (sys_queue s) (sys_pushed s) (sys_threads s i)) \<and> apart (sys_threads s) \<and>
     covered (sys_queue s) (sys_threads s) \<and>
     reads_ok (unat (q_tail (sys_queue s))) (sys_pushed s) (sys_threads s) (sys_popped s)"

lemma claims_fresh:
  assumes "thread_step q p e q' p'" and "thread_ok q xs r"
    and "\<And>x. holds p = Some x \<Longrightarrow> holds r \<noteq> Some x"
  shows "holds p' = Some x \<Longrightarrow> holds r \<noteq> Some x"
  using assms by (cases; cases r) auto

lemma apart_step:
  assumes "thread_step q (thr i) e q' p'" and "\<forall>i. thread_ok q xs (thr i)" and "apart thr"
  shows "apart (thr(i := p'))"
  unfolding apart_def
proof (intro allI impI)
  fix a b x
  assume ab: "a \<noteq> b" "holds ((thr(i := p')) a) = Some x"
  show "holds ((thr(i := p')) b) \<noteq> Some x"
    using ab claims_fresh [OF assms(1), of xs "thr a" x] claims_fresh [OF assms(1), of xs "thr b" x] assms(2,3)
    by (cases "a = i"; cases "b = i") (auto simp: apart_def)
qed

lemma covered_same:
  assumes "covered q thr" and "holds p' = holds (thr i)"
    and "q_head q' = q_head q" "q_tail q' = q_tail q" "\<And>pos. slot_seq (slot_at q' pos) = slot_seq (slot_at q pos)"
  shows "covered q' (thr(i := p'))"
proof -
  have "holds ((thr(i := p')) j) = holds (thr j)" for j
    using assms(2) by simp
  then show ?thesis
    using assms(1,3-5) by (simp add: covered_def)
qed

lemma other_holder:
  "\<exists>j. holds (thr j) = Some x \<Longrightarrow> holds (thr i) \<noteq> Some x \<Longrightarrow> \<exists>j. holds ((thr(i := p')) j) = Some x"
  by (metis fun_upd_other)

lemma other_reader:
  "\<exists>j. reading (thr j) = Some k \<Longrightarrow> reading (thr i) \<noteq> Some k \<Longrightarrow> \<exists>j. reading ((thr(i := p')) j) = Some k"
  by (metis fun_upd_other)

text \<open>Steps that hand a slot on end the work of the thread that held its ticket, and of no other.\<close>

lemma covered_update:
  assumes ok: "shared_ok N q xs" and cov: "covered q thr" and free: "holds p' = None"
    and mine: "\<And>x. holds (thr i) = Some x \<Longrightarrow> unat (case_sum id id x) mod N = unat pos mod N"
    and push: "\<And>p. unat p mod N = unat pos mod N \<Longrightarrow> p < q_head q \<Longrightarrow> slot_seq (f (slot_at q pos)) \<noteq> p"
    and pop: "\<And>p. unat p mod N = unat pos mod N \<Longrightarrow> p < q_tail q \<Longrightarrow> slot_seq (f (slot_at q pos)) \<noteq> p + 1"
  shows "covered (update_slot pos f q) (thr(i := p'))"
  unfolding covered_def
proof (intro conjI allI impI)
  fix p assume p: "p < q_head (update_slot pos f q)" "slot_seq (slot_at (update_slot pos f q) p) = p"
  then have "unat p mod N \<noteq> unat pos mod N" and "slot_seq (slot_at q p) = p"
    using push [of p] by (auto simp: slot_at_update [OF ok] split: if_splits)
  then show "\<exists>j. holds ((thr(i := p')) j) = Some (Inl p)"
    using cov p(1) mine [of "Inl p"] by (intro other_holder) (auto simp: covered_def)
next
  fix p assume p: "p < q_tail (update_slot pos f q)" "slot_seq (slot_at (update_slot pos f q) p) = p + 1"
  then have "unat p mod N \<noteq> unat pos mod N" and "slot_seq (slot_at q p) = p + 1"
    using pop [of p] by (auto simp: slot_at_update [OF ok] split: if_splits)
  then show "\<exists>j. holds ((thr(i := p')) j) = Some (Inr p)"
    using cov p(1) mine [of "Inr p"] by (intro other_holder) (auto simp: covered_def)
qed

lemma covered_publish:
  assumes ok: "shared_ok N q xs" and th: "thread_ok q xs (thr i)" and cov: "covered q thr"
    and pc: "thr i = Push_publish pos"
  shows "covered (update_slot pos (slot_seq_update (\<lambda>_. pos + 1)) q) (thr(i := Push_return True))"
proof (rule covered_update [OF ok cov])
  note D = shared_okD [OF ok]
  have pos: "pos < q_head q" "unat (slot_seq (slot_at q pos)) = unat pos" "unat (pos + 1) = Suc (unat pos)"
    using th ticket_words(1) [OF ok, of pos] by (simp_all add: pc less_imp_le)
  have tail: "unat (q_tail q) \<le> unat pos"
    using slot_writable [OF shared_ok_slot [OF ok] D(2) pos(2)] by simp
  fix p :: u64 assume same: "unat p mod N = unat pos mod N"
  show "slot_seq (slot_seq_update (\<lambda>_. pos + 1) (slot_at q pos)) \<noteq> p"
    using same next_slot_differs [OF D(2), of "unat pos"] pos(3) by auto
  show "slot_seq (slot_seq_update (\<lambda>_. pos + 1) (slot_at q pos)) \<noteq> p + 1" if "p < q_tail q"
    using that tail by (auto simp: word_less_nat_alt)
qed (simp_all add: pc)

lemma covered_release:
  assumes ok: "shared_ok N q xs" and th: "thread_ok q xs (thr i)" and cov: "covered q thr"
    and pc: "thr i = Pop_release pos v"
  shows "covered (update_slot pos (slot_seq_update (\<lambda>_. pos + of_nat N)) q) (thr(i := Pop_return r))"
proof (rule covered_update [OF ok cov])
  note D = shared_okD [OF ok]
  have pos: "pos < q_tail q" "unat (slot_seq (slot_at q pos)) = Suc (unat pos)" "unat (pos + of_nat N) = unat pos + N"
    using th ticket_words(2,3) [OF ok, of pos] by (simp_all add: pc less_imp_le)
  have head: "length xs \<le> unat pos + N"
    using slot_readable [OF shared_ok_slot [OF ok] D(2) pos(2)] by simp
  fix p :: u64 assume same: "unat p mod N = unat pos mod N"
  show "slot_seq (slot_seq_update (\<lambda>_. pos + of_nat N) (slot_at q pos)) \<noteq> p" if "p < q_head q"
    using that head pos(3) D(6) by (auto simp: word_less_nat_alt)
  show "slot_seq (slot_seq_update (\<lambda>_. pos + of_nat N) (slot_at q pos)) \<noteq> p + 1" if "p < q_tail q"
  proof
    assume "slot_seq (slot_seq_update (\<lambda>_. pos + of_nat N) (slot_at q pos)) = p + 1"
    then have "unat pos + N = Suc (unat p)"
      using that pos(3) ticket_words(2) [OF ok, of p] by simp
    then show False
      using same mod_distinct [of "unat pos" "unat p" N] D(2) by simp
  qed
qed (simp_all add: pc)

lemma covered_step:
  assumes step: "thread_step q (thr i) e q' p'" and ok: "shared_ok N q xs"
    and th: "thread_ok q xs (thr i)" and cov: "covered q thr"
  shows "covered q' (thr(i := p'))"
  using step
proof cases
  case (push_claim pos v)
  have less: "p < q_head q + 1 \<longleftrightarrow> p < q_head q \<or> p = q_head q" for p
    using ticket_words(1) [OF ok order_refl] by (auto simp: word_less_nat_alt word_unat_eq_iff)
  have free: "holds (thr i) \<noteq> Some x" for x
    using push_claim by simp
  show ?thesis
    unfolding covered_def
  proof (intro conjI allI impI)
    fix p assume p: "p < q_head q'" "slot_seq (slot_at q' p) = p"
    show "\<exists>j. holds ((thr(i := p')) j) = Some (Inl p)"
    proof (cases "p = pos")
      case True
      then show ?thesis using push_claim by (intro exI [of _ i]) simp
    next
      case False
      then have "p < q_head q" "slot_seq (slot_at q p) = p"
        using p push_claim less by simp_all
      then show ?thesis
        using cov free by (intro other_holder) (auto simp: covered_def)
    qed
  next
    fix p assume "p < q_tail q'" "slot_seq (slot_at q' p) = p + 1"
    then show "\<exists>j. holds ((thr(i := p')) j) = Some (Inr p)"
      using cov push_claim(3) free by (intro other_holder) (auto simp: covered_def)
  qed
next
  case (pop_claim pos)
  have less: "p < q_tail q + 1 \<longleftrightarrow> p < q_tail q \<or> p = q_tail q" for p
    using ticket_words(2) [OF ok order_refl] by (auto simp: word_less_nat_alt word_unat_eq_iff)
  have free: "holds (thr i) \<noteq> Some x" for x
    using pop_claim by simp
  show ?thesis
    unfolding covered_def
  proof (intro conjI allI impI)
    fix p assume "p < q_head q'" "slot_seq (slot_at q' p) = p"
    then show "\<exists>j. holds ((thr(i := p')) j) = Some (Inl p)"
      using cov pop_claim(3) free by (intro other_holder) (auto simp: covered_def)
  next
    fix p assume p: "p < q_tail q'" "slot_seq (slot_at q' p) = p + 1"
    show "\<exists>j. holds ((thr(i := p')) j) = Some (Inr p)"
    proof (cases "p = pos")
      case True
      then show ?thesis using pop_claim by (intro exI [of _ i]) simp
    next
      case False
      then have "p < q_tail q" "slot_seq (slot_at q p) = p + 1"
        using p pop_claim less by simp_all
      then show ?thesis
        using cov free by (intro other_holder) (auto simp: covered_def)
    qed
  qed
next
  case (push_write v pos)
  then show ?thesis
    using shared_ok_index [OF ok] slot_at_update [OF ok]
    by (intro covered_same [OF cov]) (auto simp: slot_at_def)
next
  case (push_publish pos)
  then show ?thesis
    using covered_publish [OF ok th cov] by simp
next
  case (pop_release pos v)
  then show ?thesis
    using covered_release [OF ok th cov] shared_okD(3) [OF ok] by simp
qed (rule covered_same [OF cov], simp_all)+

lemma tickets_simps [simp]:
  "tickets [] = []" "tickets (xs @ ys) = tickets xs @ tickets ys" "tickets [(i, k, v)] = [k]"
  "reads_of i [] = []" "reads_of i (xs @ ys) = reads_of i xs @ reads_of i ys"
  "reads_of i [(j, k, v)] = (if j = i then [(j, k, v)] else [])"
  by (simp_all add: tickets_def reads_of_def)

lemma tickets_reads_of: "k \<in> set (tickets (reads_of i rds)) \<Longrightarrow> k \<in> set (tickets rds)"
  by (force simp: tickets_def reads_of_def)

lemma reading_holds: "reading p = Some k \<longleftrightarrow> (\<exists>pos. p = Pop_read pos \<and> k = unat pos)"
  by (cases p) auto

text \<open>A step that neither claims a ticket for a pop nor reads leaves the account of reads as it is.\<close>

lemma reads_ok_same:
  assumes "reads_ok t xs thr rds" and "reading p' = reading (thr i)" and "t \<le> length xs"
  shows "reads_ok t (xs @ ys) (thr(i := p')) rds"
proof -
  have "reading ((thr(i := p')) j) = reading (thr j)" for j
    using assms(2) by simp
  with assms(1,3) show ?thesis
    by (fastforce simp: reads_ok_def nth_append)
qed

lemma reads_ok_claim:
  assumes ok: "reads_ok t xs thr rds" and "reading (thr i) = None" and p': "reading p' = Some t"
  shows "reads_ok (Suc t) xs (thr(i := p')) rds"
proof -
  have below: "k < t" if "k \<in> set (tickets rds)" for k
    using that ok by (auto simp: reads_ok_def tickets_def)
  have cases: "reading (thr j) = Some k \<or> j = i \<and> k = t" if "reading ((thr(i := p')) j) = Some k" for j k
    using that p' by (auto split: if_splits)
  have "k \<in> set (tickets rds) \<or> (\<exists>j. reading ((thr(i := p')) j) = Some k)" if less: "k < Suc t" for k
  proof (cases "k = t")
    case True
    then show ?thesis using p' by (intro disjI2 exI [of _ i]) simp
  next
    case False
    then have "k < t" using less by simp
    then have "k \<in> set (tickets rds) \<or> (\<exists>j. reading (thr j) = Some k)"
      using ok by (auto simp: reads_ok_def)
    then show ?thesis
      using assms(2) other_reader [of thr k i p'] by (auto simp del: fun_upd_apply)
  qed
  moreover have "k \<notin> set (tickets rds)" if "reading ((thr(i := p')) j) = Some k" for j k
    using cases [OF that] ok below by (auto simp: reads_ok_def)
  moreover have "k' < k" if "reading ((thr(i := p')) j) = Some k" "k' \<in> set (tickets (reads_of j rds))" for j k k'
    using cases [OF that(1)] that(2) ok below [OF tickets_reads_of] by (auto simp: reads_ok_def)
  moreover have "\<forall>(i, k, v) \<in> set rds. k < Suc t \<and> v = xs ! k" "distinct (tickets rds)"
    "\<forall>i. sorted_wrt (<) (tickets (reads_of i rds))"
    using ok by (auto simp: reads_ok_def less_Suc_eq)
  ultimately show ?thesis
    unfolding reads_ok_def by blast
qed

lemma reads_ok_read:
  assumes ok: "reads_ok t xs thr rds" and pc: "reading (thr i) = Some k" and p': "reading p' = None"
    and alone: "\<And>j. j \<noteq> i \<Longrightarrow> reading (thr j) \<noteq> Some k" and k: "k < t" "v = xs ! k"
  shows "reads_ok t xs (thr(i := p')) (rds @ [(i, k, v)])"
proof -
  have cover: "k' \<in> set (tickets rds) \<or> k' = k \<or> (\<exists>j. reading ((thr(i := p')) j) = Some k')" if less: "k' < t" for k'
  proof (cases "k' \<in> set (tickets rds) \<or> k' = k")
    case False
    moreover from this obtain j where "reading (thr j) = Some k'"
      using less ok by (auto simp: reads_ok_def)
    ultimately show ?thesis
      using pc other_reader [of thr k' i p'] by (auto simp del: fun_upd_apply)
  qed blast
  have pending: "reading (thr j) = Some k' \<and> k' \<noteq> k \<and> j \<noteq> i"
    if "reading ((thr(i := p')) j) = Some k'" for j k'
    using that alone p' by (auto split: if_splits)
  have "sorted_wrt (<) (tickets (reads_of j (rds @ [(i, k, v)])))" for j
    using ok pc by (simp add: reads_ok_def sorted_wrt_append)
  moreover have "k'' < k'" if "reading ((thr(i := p')) j) = Some k'"
    and "k'' \<in> set (tickets (reads_of j (rds @ [(i, k, v)])))" for j k' k''
    using pending [OF that(1)] that(2) ok by (auto simp: reads_ok_def)
  moreover have "k' \<notin> set (tickets (rds @ [(i, k, v)]))" if "reading ((thr(i := p')) j) = Some k'" for j k'
    using pending [OF that] ok by (auto simp: reads_ok_def)
  moreover have "distinct (tickets (rds @ [(i, k, v)]))"
    using ok pc by (auto simp: reads_ok_def)
  moreover have "k' \<in> set (tickets (rds @ [(i, k, v)])) \<or> (\<exists>j. reading ((thr(i := p')) j) = Some k')"
    if "k' < t" for k'
    using cover [OF that] by (auto simp del: fun_upd_apply)
  moreover have "\<forall>(i, k, v) \<in> set (rds @ [(i, k, v)]). k < t \<and> v = xs ! k"
    using ok k by (auto simp: reads_ok_def)
  ultimately show ?thesis
    unfolding reads_ok_def by blast
qed

lemma reads_ok_step:
  assumes step: "thread_step q (thr i) e q' p'" and ok: "shared_ok N q xs"
    and th: "\<forall>j. thread_ok q xs (thr j)" and apart: "apart thr"
    and rds: "reads_ok (unat (q_tail q)) xs thr rds"
  shows "reads_ok (unat (q_tail q')) (xs @ event_pushed e) (thr(i := p')) (rds @ event_popped i e)"
proof -
  note D = shared_okD [OF ok]
  have same: "reads_ok (unat (q_tail q)) (xs @ ys) (thr(i := p')) rds"
    if "reading p' = reading (thr i)" for ys
    by (rule reads_ok_same [OF rds that D(7)])
  show ?thesis
    using step
  proof cases
    case (pop_claim pos)
    then have "reads_ok (Suc (unat pos)) xs (thr(i := p')) rds"
      using rds by (intro reads_ok_claim) simp_all
    then show ?thesis
      using pop_claim ticket_words(2) [OF ok, of pos] by simp
  next
    case (pop_read v pos)
    have "thread_ok q xs (Pop_read pos)"
      using th pop_read(1) by metis
    note val = read_ok [OF ok this]
    have "reading (thr j) \<noteq> Some (unat pos)" if "j \<noteq> i" for j
    proof
      assume "reading (thr j) = Some (unat pos)"
      then have "thr j = Pop_read pos"
        by (auto simp: reading_holds word_unat_eq_iff)
      with apart that pop_read(1) show False
        unfolding apart_def by (metis holds.simps(3))
    qed
    moreover have "unat pos < unat (q_tail q)"
      using \<open>thread_ok q xs (Pop_read pos)\<close> by (simp add: word_less_nat_alt)
    ultimately show ?thesis
      using pop_read val by (auto intro!: reads_ok_read [OF rds])
  qed (use same [of "event_pushed e"] in \<open>simp_all add: update_slot_simps\<close>)
qed

lemma system_ok_init:
  assumes "good_capacity N"
  shows "system_ok N (system_init N init)"
proof -
  have N: "N \<le> 2 ^ 61" "0 < N"
    using good_capacity_bound [OF assms] good_capacity_ge2 [OF assms] by auto
  have "unat (of_nat i :: u64) = i" if "i < N" for i
    using that N by (simp add: unsigned_of_nat take_bit_nat_eq_self)
  then have "slot_ok 0 N [] i (q_slots (MPMCQueue_new N init) ! i)" if "i < N" for i
    using that by (auto simp: slot_ok_def MPMCQueue_new_def intro!: exI [of _ i])
  then have "shared_ok N (MPMCQueue_new N init) []"
    using assms N by (simp add: shared_ok_def queue_ok_new [OF assms]) (simp add: MPMCQueue_new_def)
  then show ?thesis
    by (simp add: system_ok_def system_init_def apart_def covered_def reads_ok_def)
      (simp add: MPMCQueue_new_def)
qed

lemma system_ok_step:
  assumes "system_step s s'" and ok: "system_ok N s" and room: "length (sys_pushed s') + N < 2 ^ 63"
  shows "system_ok N s'"
  using assms(1)
proof cases
  case (1 i e q p)
  define q0 xs thr rds where "q0 = sys_queue s" and "xs = sys_pushed s" and "thr = sys_threads s" and "rds = sys_popped s"
  note defs = q0_def [symmetric] xs_def [symmetric] thr_def [symmetric] rds_def [symmetric]
  have sh: "shared_ok N q0 xs" and th: "\<forall>j. thread_ok q0 xs (thr j)" and ap: "apart thr"
    and cov: "covered q0 thr" and rd: "reads_ok (unat (q_tail q0)) xs thr rds"
    using ok by (simp_all add: system_ok_def defs)
  have step: "thread_step q0 (thr i) e q p"
    using 1(2) by (simp add: defs)
  have room': "length (xs @ event_pushed e) + N < 2 ^ 63"
    using room by (simp add: 1(1) after_event_def defs)
  note own = thread_step_ok [OF step sh th [rule_format] room']
  have "thread_ok q (xs @ event_pushed e) ((thr(i := p)) j)" for j
    using own(2) other_thread_ok [OF step sh th [rule_format, of i] th [rule_format, of j] _ room'] ap
    by (cases "j = i") (auto simp: apart_def)
  with own(1) apart_step [OF step th ap] covered_step [OF step sh th [rule_format] cov]
    reads_ok_step [OF step sh th ap rd]
  show ?thesis
    by (simp add: system_ok_def 1(1) after_event_def defs del: fun_upd_apply)
qed

lemma pushed_grows: "system_step s s' \<Longrightarrow> length (sys_pushed s) \<le> length (sys_pushed s')"
  by (auto simp: after_event_def elim: system_step.cases)

lemma reachable_ok:
  assumes "reachable N init s" and "good_capacity N" and "length (sys_pushed s) + N < 2 ^ 63"
  shows "system_ok N s"
  using assms
proof (induction rule: reachable.induct)
  case start
  then show ?case by (simp add: system_ok_init)
next
  case (step s s')
  then have "length (sys_pushed s) + N < 2 ^ 63"
    using pushed_grows [OF step(2)] by linarith
  with step show ?case by (blast intro: system_ok_step)
qed

section \<open>Executing a schedule\<close>

text \<open>
  A thread that always loads the current value and whose compare-exchange never fails spuriously:
  a deterministic instance of the relation, to run concrete schedules.
\<close>

fun fresh_step :: "'a MPMCQueue \<Rightarrow> 'a thread \<Rightarrow> 'a event \<times> 'a MPMCQueue \<times> 'a thread" where
  "fresh_step q (Push_load v) = (Silent, q, Push_seq v (q_head q))"
| "fresh_step q (Push_seq v pos) = (Silent, q,
     case seq_diff (slot_seq (slot_at q pos)) pos of
       Inl e \<Rightarrow> Faulted e
     | Inr d \<Rightarrow> if d = 0 then Push_cas v pos else if d < 0 then Push_return False else Push_load v)"
| "fresh_step q (Push_cas v pos) =
     (if q_head q = pos then (Accepted v, q\<lparr>q_head := pos + 1\<rparr>, Push_write v pos)
      else (Silent, q, Push_seq v (q_head q)))"
| "fresh_step q (Push_write v pos) = (Silent, update_slot pos (slot_data_update (\<lambda>_. v)) q, Push_publish pos)"
| "fresh_step q (Push_publish pos) = (Silent, update_slot pos (slot_seq_update (\<lambda>_. pos + 1)) q, Push_return True)"
| "fresh_step q (Push_return b) = (Silent, q, Idle)"
| "fresh_step q Pop_load = (Silent, q, Pop_seq (q_tail q))"
| "fresh_step q (Pop_seq pos) = (Silent, q,
     case seq_diff (slot_seq (slot_at q pos)) (pos + 1) of
       Inl e \<Rightarrow> Faulted e
     | Inr d \<Rightarrow> if d = 0 then Pop_cas pos else if d < 0 then Pop_return None else Pop_load)"
| "fresh_step q (Pop_cas pos) =
     (if q_tail q = pos then (Silent, q\<lparr>q_tail := pos + 1\<rparr>, Pop_read pos)
      else (Silent, q, Pop_seq (q_tail q)))"
| "fresh_step q (Pop_read pos) = (Got pos (slot_data (slot_at q pos)), q, Pop_release pos (slot_data (slot_at q pos)))"
| "fresh_step q (Pop_release pos v) =
     (Silent, update_slot pos (slot_seq_update (\<lambda>_. pos + of_nat (capacity q))) q, Pop_return (Some v))"
| "fresh_step q (Pop_return r) = (Silent, q, Idle)"
| "fresh_step q p = (Silent, q, p)"

lemma fresh_step_sound:
  assumes "fresh_step q p = (e, q', p')" and "p \<noteq> Idle" and "\<forall>f. p \<noteq> Faulted f"
  shows "thread_step q p e q' p'"
  using assms
  by (cases "(q, p)" rule: fresh_step.cases)
    (auto intro: thread_step.intros split: if_splits sum.splits simp: linorder_neq_iff)

datatype 'a action = Begin nat "'a qcall" | Run nat

fun perform :: "'a system \<Rightarrow> 'a action \<Rightarrow> 'a system" where
  "perform s (Begin i c) =
     (if sys_threads s i = Idle
      then after_event s i Silent (sys_queue s) (case c of Push v \<Rightarrow> Push_load v | Pop \<Rightarrow> Pop_load) else s)"
| "perform s (Run i) =
     (case sys_threads s i of Idle \<Rightarrow> s | Faulted f \<Rightarrow> s
      | p \<Rightarrow> (case fresh_step (sys_queue s) p of (e, q, p') \<Rightarrow> after_event s i e q p'))"

lemma perform_reachable:
  assumes "reachable N init s"
  shows "reachable N init (perform s a)"
proof (cases a)
  case (Begin i c)
  have "system_step s (perform s a)" if "sys_threads s i = Idle"
    using that thread_step.call_push [of "sys_queue s"] thread_step.call_pop [of "sys_queue s"]
    unfolding Begin by (cases c) (auto intro!: system_step.intros)
  then show ?thesis
    using reachable.step [OF assms] assms Begin by (cases "sys_threads s i = Idle") auto
next
  case (Run i)
  obtain e q p where f: "fresh_step (sys_queue s) (sys_threads s i) = (e, q, p)"
    by (cases "fresh_step (sys_queue s) (sys_threads s i)") auto
  consider "perform s a = s" | "perform s a = after_event s i e q p" "sys_threads s i \<noteq> Idle"
      "\<forall>f. sys_threads s i \<noteq> Faulted f"
    using f Run by (cases "sys_threads s i") (simp_all del: fresh_step.simps)
  then show ?thesis
  proof cases
    case 1
    with assms show ?thesis by simp
  next
    case 2
    then have "system_step s (perform s a)"
      using fresh_step_sound [OF f] by (simp add: system_step.intros)
    then show ?thesis by (rule reachable.step [OF assms])
  qed
qed

lemma schedule_reachable: "reachable N init s \<Longrightarrow> reachable N init (foldl perform s as)"
  by (induction as arbitrary: s) (simp_all add: perform_reachable)

definition execute :: "nat \<Rightarrow> 'a \<Rightarrow> 'a action list \<Rightarrow> 'a system" where
  "execute N init as = foldl perform (system_init N init) as"

lemma execute_reachable: "reachable N init (execute N init as)"
  unfolding execute_def by (rule schedule_reachable [OF start])

lemma pushed_execute_init: "sys_pushed (execute N init []) = []"
  by (simp add: execute_def system_init_def)

text \<open>
  Two producers and one consumer on two slots. Producer 0 claims ticket 0 and stalls before it
  writes; producer 1 pushes 8 with ticket 1 and returns; consumer 2 calls \<^verbatim>\<open>try_pop\<close>.
\<close>

definition stalled_producer :: "nat action list" where
  "stalled_producer =
     [Begin 0 (Push 7), Run 0, Run 0, Run 0,
      Begin 1 (Push 8), Run 1, Run 1, Run 1, Run 1, Run 1,
      Begin 2 Pop, Run 2, Run 2]"

text \<open>The stalled producer goes on, and a second consumer pops the first element.\<close>

definition resumed_producer :: "nat action list" where
  "resumed_producer = stalled_producer @
     [Run 0, Run 0, Run 0, Run 1, Run 2, Begin 3 Pop, Run 3, Run 3, Run 3, Run 3, Run 3, Run 3]"

lemma stalled_state:
  "sys_pushed (execute 2 0 stalled_producer) = [7, 8] \<and> sys_popped (execute 2 0 stalled_producer) = [] \<and>
   sys_threads (execute 2 0 stalled_producer) 1 = Push_return True \<and>
   sys_threads (execute 2 0 stalled_producer) 2 = Pop_return None"
  by code_simp

lemma resumed_state:
  "sys_pushed (execute 2 0 resumed_producer) = [7, 8] \<and> sys_popped (execute 2 0 resumed_producer) = [(3, 0, 7)] \<and>
   map (sys_threads (execute 2 0 resumed_producer)) [0, 1, 2, 3] = [Idle, Idle, Idle, Idle]"
  by code_simp

section \<open>Quiescent states\<close>

text \<open>When no thread is inside a call, the shared memory is a state of the sequential queue.\<close>

lemma quiescent_slot:
  assumes ok: "shared_ok N q xs" and cov: "covered q thr" and idle: "\<And>i. holds (thr i) = None"
    and k: "unat (q_tail q) \<le> k" "k < unat (q_tail q) + N"
  shows "if k < length xs then unat (slot_seq (q_slots q ! (k mod N))) = Suc k \<and> slot_data (q_slots q ! (k mod N)) = xs ! k
    else unat (slot_seq (q_slots q ! (k mod N))) = k"
proof -
  note D = shared_okD [OF ok]
  let ?s = "q_slots q ! (k mod N)"
  have "slot_ok (unat (q_tail q)) N xs (k mod N) ?s"
    using ok D(2) by (simp add: shared_ok_def)
  then obtain n where n: "n mod N = k mod N" "n < unat (q_tail q) + N"
    "unat (slot_seq ?s) = n \<and> unat (q_tail q) \<le> n \<or>
      unat (slot_seq ?s) = Suc n \<and> n < length xs \<and> slot_data ?s = xs ! n"
    by (auto simp: slot_ok_def)
  have n64: "unat (of_nat n :: u64) = n"
    using n(2) D(5,7) by (simp add: unsigned_of_nat take_bit_nat_eq_self)
  have at: "slot_at q (of_nat n) = ?s"
    using shared_ok_index [OF ok, of "of_nat n"] n(1) n64 by (simp add: slot_at_def)
  have no_push: "\<not> (n < length xs \<and> unat (slot_seq ?s) = n)"
  proof
    assume *: "n < length xs \<and> unat (slot_seq ?s) = n"
    then have "slot_seq ?s = of_nat n" and "(of_nat n :: u64) < q_head q"
      using n64 D(6) by (auto simp: word_unat_eq_iff word_less_nat_alt)
    with cov idle at show False by (auto simp: covered_def)
  qed
  have no_pop: "\<not> (n < unat (q_tail q) \<and> unat (slot_seq ?s) = Suc n)"
  proof
    assume *: "n < unat (q_tail q) \<and> unat (slot_seq ?s) = Suc n"
    then have t: "(of_nat n :: u64) < q_tail q"
      using n64 by (simp add: word_less_nat_alt)
    then have "slot_seq ?s = of_nat n + 1"
      using * n64 ticket_words(2) [OF ok, of "of_nat n"] by (simp add: word_unat_eq_iff)
    with cov idle at t show False by (auto simp: covered_def)
  qed
  have "unat (q_tail q) \<le> n"
    using n(3) no_pop by auto
  then have "n = k"
    using k n(2) by (intro same_ticket [OF n(1)]) simp_all
  with n(3) no_push show ?thesis by auto
qed

lemma quiescent_queue:
  assumes ok: "system_ok N s" and idle: "\<And>i. holds (sys_threads s i) = None"
  shows "queue_ok (sys_queue s)"
    and "queue_content (sys_queue s) = drop (unat (q_tail (sys_queue s))) (sys_pushed s)"
proof -
  define q xs where "q = sys_queue s" and "xs = sys_pushed s"
  have sh: "shared_ok N q xs" and cov: "covered q (sys_threads s)"
    using ok by (simp_all add: system_ok_def q_def xs_def)
  note D = shared_okD [OF sh]
  note slot = quiescent_slot [OF sh cov idle]
  have "unat (slot_seq (q_slots q ! (k mod N))) = Suc k" if "unat (q_tail q) \<le> k" "k < length xs" for k
    using slot [of k] that D(8) by simp
  moreover have "unat (slot_seq (q_slots q ! (k mod N))) = k" if "length xs \<le> k" "k < unat (q_tail q) + N" for k
    using slot [of k] that D(7) by simp
  ultimately show "queue_ok (sys_queue s)"
    using D by (simp add: queue_ok_def flip: q_def xs_def)
  show "queue_content (sys_queue s) = drop (unat (q_tail (sys_queue s))) (sys_pushed s)"
    unfolding q_def [symmetric] xs_def [symmetric]
  proof (rule nth_equalityI)
    show "length (queue_content q) = length (drop (unat (q_tail q)) xs)"
      by (simp add: length_queue_content D(6))
    fix m assume "m < length (queue_content q)"
    then show "queue_content q ! m = drop (unat (q_tail q)) xs ! m"
      using slot [of "unat (q_tail q) + m"] D(3,6,7,8)
      by (simp add: queue_content_def)
  qed
qed

lemma mset_reads:
  assumes ok: "reads_ok t xs thr rds" and idle: "\<And>i. reading (thr i) = None" and t: "t \<le> length xs"
  shows "mset (map (\<lambda>(i, k, v). v) rds) = mset (take t xs)"
proof -
  have "set (tickets rds) = {0..<t}"
    using ok idle by (auto simp: reads_ok_def tickets_def)
  moreover have "distinct (tickets rds)"
    using ok by (simp add: reads_ok_def)
  ultimately have "mset (tickets rds) = mset [0..<t]"
    by (metis atLeastLessThan_upt distinct_upt set_eq_iff_mset_eq_distinct)
  then have "image_mset ((!) xs) (mset (tickets rds)) = mset (map ((!) xs) [0..<t])"
    by simp
  moreover have "map (\<lambda>(i, k, v). v) rds = map ((!) xs) (tickets rds)"
    using ok by (auto simp: reads_ok_def tickets_def)
  moreover have "map ((!) xs) [0..<t] = take t xs"
    using t by (intro nth_equalityI) simp_all
  ultimately show ?thesis
    by (metis mset_map)
qed

section \<open>Properties\<close>


lemma good_capacity_2: "good_capacity 2"
  unfolding good_capacity_def by (rule exI [of _ 1]) simp


text \<open>
  Property C21: nothing is lost. When no thread is inside a call, the shared memory is a well-formed
  sequential queue, and the values read so far together with its content are the accepted elements,
  with multiplicities.
\<close>

theorem mpmc_threads_no_loss:
  assumes "reachable N init s" and "good_capacity N" and "length (sys_pushed s) + N < 2 ^ 63"
    and idle: "\<And>i. sys_threads s i = Idle"
  shows "queue_ok (sys_queue s) \<and>
    mset (map (\<lambda>(i, k, v). v) (sys_popped s)) + mset (queue_content (sys_queue s)) = mset (sys_pushed s)"
proof -
  define t where "t = unat (q_tail (sys_queue s))"
  have ok: "system_ok N s"
    by (rule reachable_ok [OF assms(1-3)])
  then have rd: "reads_ok t (sys_pushed s) (sys_threads s) (sys_popped s)" and t: "t \<le> length (sys_pushed s)"
    by (auto simp: system_ok_def t_def dest: shared_okD(7))
  have "mset (map (\<lambda>(i, k, v). v) (sys_popped s)) = mset (take t (sys_pushed s))"
    by (rule mset_reads [OF rd _ t]) (simp add: idle)
  moreover have "queue_content (sys_queue s) = drop t (sys_pushed s)"
    using quiescent_queue(2) [OF ok] idle by (simp add: t_def)
  moreover have "mset (take t (sys_pushed s)) + mset (drop t (sys_pushed s)) = mset (sys_pushed s)"
    by (metis append_take_drop_id mset_append)
  ultimately show ?thesis
    using quiescent_queue(1) [OF ok] idle by simp
qed

fun action_thread :: "'a action \<Rightarrow> nat" where
  "action_thread (Begin i c) = i"
| "action_thread (Run i) = i"

lemma perform_other: "action_thread a \<noteq> i \<Longrightarrow> sys_threads (perform s a) i = sys_threads s i"
  by (cases a) (auto simp: after_event_def split: thread.splits prod.splits)

lemma execute_other:
  "i \<notin> action_thread ` set as \<Longrightarrow> sys_threads (execute N init as) i = Idle"
proof -
  have "i \<notin> action_thread ` set as \<Longrightarrow> sys_threads (foldl perform s as) i = sys_threads s i"
    for s :: "'a system"
    by (induction as arbitrary: s) (simp_all add: perform_other del: perform.simps)
  then show "i \<notin> action_thread ` set as \<Longrightarrow> sys_threads (execute N init as) i = Idle"
    by (simp add: execute_def system_init_def)
qed

lemma resumed_idle: "sys_threads (execute 2 0 resumed_producer) i = Idle"
proof (cases "i \<in> {0, 1, 2, 3}")
  case True
  then show ?thesis
    using resumed_state by auto
next
  case False
  then show ?thesis
    by (intro execute_other) (auto simp: resumed_producer_def stalled_producer_def)
qed

theorem mpmc_threads_no_loss_witness:
  "\<exists>s. reachable 2 (0::nat) s \<and> queue_ok (sys_queue s) \<and> {#7#} + mset (queue_content (sys_queue s)) = {#7, 8#}"
  using mpmc_threads_no_loss [OF execute_reachable good_capacity_2, of "0::nat" resumed_producer]
    execute_reachable [of 2 "0::nat" resumed_producer] resumed_state resumed_idle
  by (intro exI [of _ "execute 2 0 resumed_producer"]) simp

text \<open>The slot whose element a thread is about to write or read.\<close>

fun accesses :: "'a thread \<Rightarrow> u64 option" where
  "accesses (Push_write v pos) = Some pos"
| "accesses (Pop_read pos) = Some pos"
| "accesses _ = None"



definition abstract_queue :: "'a system \<Rightarrow> 'a list" where
  "abstract_queue s = drop (unat (q_tail (sys_queue s))) (sys_pushed s)"

text \<open>
  Property C2: refinement. The abstract queue holds the accepted elements that no pop has claimed. Every
  transition of a thread leaves it alone, appends one element while fewer than \<open>N\<close> are queued (the
  successful compare-exchange on \<^verbatim>\<open>head_\<close>), or removes its first element (the one on \<^verbatim>\<open>tail_\<close>).
\<close>

theorem mpmc_step_refines_fifo:
  assumes "reachable N init s" and "system_step s s'" and "good_capacity N"
    and room: "length (sys_pushed s') + N < 2 ^ 63"
  shows "abstract_queue s' = abstract_queue s \<or>
    (\<exists>v. length (abstract_queue s) < N \<and> abstract_queue s' = abstract_queue s @ [v]) \<or>
    (\<exists>v. abstract_queue s = v # abstract_queue s')"
  using assms(2)
proof cases
  case (1 i e q p)
  have ok: "system_ok N s"
    using room pushed_grows [OF assms(2)] by (intro reachable_ok [OF assms(1,3)]) linarith
  then have sh: "shared_ok N (sys_queue s) (sys_pushed s)" "thread_ok (sys_queue s) (sys_pushed s) (sys_threads s i)"
    by (simp_all add: system_ok_def)
  note D = shared_okD [OF sh(1)]
  from 1(2) show ?thesis
  proof cases
    case (push_claim pos v)
    then have "q_head (sys_queue s) \<le> slot_seq (slot_at (sys_queue s) (q_head (sys_queue s)))"
      and "Suc (length (sys_pushed s)) + N < 2 ^ 63"
      using sh(2) room 1(1) by (simp_all add: after_event_def)
    from shared_okD(8) [OF claim_push_ok(2) [OF sh(1) this]]
    have "length (sys_pushed s) < unat (q_tail (sys_queue s)) + N" by simp
    then show ?thesis
      using push_claim D(7) 1(1) by (simp add: abstract_queue_def after_event_def)
  next
    case (pop_claim pos)
    then have le: "q_tail (sys_queue s) + 1 \<le> slot_seq (slot_at (sys_queue s) (q_tail (sys_queue s)))"
      using sh(2) by simp
    show ?thesis
      using pop_claim 1(1) claim_pop_ok(2) [OF sh(1) le] ticket_words(2) [OF sh(1) order_refl]
      by (simp add: abstract_queue_def after_event_def Cons_nth_drop_Suc [symmetric])
  qed (simp_all add: abstract_queue_def after_event_def 1(1))
qed

theorem mpmc_step_refines_fifo_witness:
  "\<exists>s s'. system_step s s' \<and> sys_pushed s' = [7::nat] \<and> abstract_queue s = [] \<and>
     (abstract_queue s' = [] \<or> (\<exists>v. abstract_queue s' = [v]))"
proof -
  let ?as = "[Begin 0 (Push (7::nat)), Run 0, Run 0]"
  let ?s = "execute 2 0 ?as" and ?s' = "execute 2 0 (?as @ [Run 0])"
  have th: "sys_threads ?s 0 = Push_cas 7 0" and s: "sys_pushed ?s = []" "abstract_queue ?s = []"
    and s': "sys_pushed ?s' = [7]" by code_simp+
  have f: "fresh_step (sys_queue ?s) (sys_threads ?s 0) =
      (Accepted 7, (sys_queue ?s)\<lparr>q_head := 0 + 1\<rparr>, Push_write 7 0)"
    unfolding th by (simp only: fresh_step.simps) (simp, code_simp)
  have "system_step ?s (perform ?s (Run 0))"
    using system_step.intros [OF fresh_step_sound [OF f]] th f by (simp del: fresh_step.simps)
  then have step: "system_step ?s ?s'"
    by (simp only: execute_def foldl_append foldl_Cons foldl_Nil)
  from mpmc_step_refines_fifo [OF execute_reachable this good_capacity_2] step s s' show ?thesis
    by (intro exI [of _ ?s] exI [of _ ?s']) auto
qed

text \<open>
  \<^verbatim>\<open>try_pop\<close> may report an empty queue while a completed push is queued: with a producer
  stalled between its claim and its publication, a later push by another thread returns \<^verbatim>\<open>true\<close>, its
  element is not popped, and yet \<^verbatim>\<open>try_pop\<close> returns \<^verbatim>\<open>false\<close>.
\<close>

theorem mpmc_pop_misses_completed_push:
  "\<exists>s. reachable 2 (0::nat) s \<and> sys_pushed s = [7, 8] \<and> sys_popped s = [] \<and>
     sys_threads s 1 = Push_return True \<and> sys_threads s 2 = Pop_return None"
  using stalled_state by (intro exI [of _ "execute 2 0 stalled_producer"] conjI execute_reachable) simp_all

end
