(* ===== verification/Mpmc_Progress.thy ===== *)
theory Mpmc_Progress
  imports Mpmc_Concurrent
begin

text \<open>
  Progress of the queue of \<^verbatim>\<open>utils/mpmc_queue.hpp\<close>. The loops of \<^verbatim>\<open>try_push\<close> and \<^verbatim>\<open>try_pop\<close> have no bound,
  but a call goes round again only because another call of its kind has claimed a ticket: if no other
  call does, six accesses of its own end it, wherever the other threads stand and whatever else they
  do. The loads here are fresh and the compare-exchange does not fail spuriously (\<open>fresh_step\<close>).
\<close>

text \<open>The counter a call competes for, and the most accesses it still needs while nobody else moves it.\<close>

fun contended :: "'a thread \<Rightarrow> 'a MPMCQueue \<Rightarrow> u64" where
  "contended (Push_load v) q = q_head q"
| "contended (Push_seq v pos) q = q_head q"
| "contended (Push_cas v pos) q = q_head q"
| "contended (Push_write v pos) q = q_head q"
| "contended (Push_publish pos) q = q_head q"
| "contended _ q = q_tail q"

fun accesses_left :: "u64 \<Rightarrow> 'a thread \<Rightarrow> nat" where
  "accesses_left c (Push_load v) = 5"
| "accesses_left c (Push_seq v pos) = (if pos = c then 4 else 6)"
| "accesses_left c (Push_cas v pos) = (if pos = c then 3 else 5)"
| "accesses_left c (Push_write v pos) = 2"
| "accesses_left c (Push_publish pos) = 1"
| "accesses_left c Pop_load = 5"
| "accesses_left c (Pop_seq pos) = (if pos = c then 4 else 6)"
| "accesses_left c (Pop_cas pos) = (if pos = c then 3 else 5)"
| "accesses_left c (Pop_read pos) = 2"
| "accesses_left c (Pop_release pos v) = 1"
| "accesses_left c _ = 0"

fun inside :: "'a thread \<Rightarrow> bool" where
  "inside Idle = False"
| "inside (Push_return b) = False"
| "inside (Pop_return r) = False"
| "inside (Faulted f) = False"
| "inside _ = True"

fun returning :: "'a thread \<Rightarrow> bool" where
  "returning (Push_return b) = True"
| "returning (Pop_return r) = True"
| "returning _ = False"

lemma accesses_left_bound: "accesses_left c p \<le> 6"
  by (cases "(c, p)" rule: accesses_left.cases) simp_all

lemma inside_needs_access: "inside p \<Longrightarrow> 0 < accesses_left c p"
  by (cases p) auto

text \<open>The sequence number of the slot at the head is never ahead of the head, nor that at the tail of the tail.\<close>

lemma uint_le: "unat a \<le> unat b + n \<Longrightarrow> uint a \<le> uint b + int n"
  by (metis of_nat_add of_nat_mono uint_nat)

lemma head_seq_le:
  assumes ok: "shared_ok N q xs"
  shows "uint (slot_seq (slot_at q (q_head q))) \<le> uint (q_head q)"
proof -
  note D = shared_okD [OF ok]
  have "unat (slot_seq (slot_at q (q_head q))) \<le> unat (q_head q) + 0"
    using head_slot [OF shared_ok_slot [OF ok, of "q_head q", unfolded D(6)] D(2,7,8)] D(6) by linarith
  from uint_le [OF this] show ?thesis by simp
qed

lemma tail_seq_le:
  assumes ok: "shared_ok N q xs"
  shows "uint (slot_seq (slot_at q (q_tail q))) \<le> 1 + uint (q_tail q)"
proof -
  note D = shared_okD [OF ok]
  have "unat (slot_seq (slot_at q (q_tail q))) \<le> unat (q_tail q) + 1"
    using tail_slot [OF shared_ok_slot [OF ok, of "q_tail q"] D(2,7)] by linarith
  from uint_le [OF this] show ?thesis by simp
qed

lemma push_seq_diff:
  assumes ok: "shared_ok N q xs" and "pos \<le> q_head q"
  shows "seq_diff (slot_seq (slot_at q pos)) pos = Inr (int (unat (slot_seq (slot_at q pos))) - int (unat pos))"
  using assms(2) shared_okD [OF ok] by (intro seq_diff_ok [OF ok order_refl]) (simp add: word_le_nat_alt)

lemma pop_seq_diff:
  assumes ok: "shared_ok N q xs" and "pos \<le> q_tail q"
  shows "seq_diff (slot_seq (slot_at q pos)) (pos + 1) =
    Inr (int (unat (slot_seq (slot_at q pos))) - int (Suc (unat pos)))"
  using assms(2) shared_okD [OF ok] seq_diff_ok [OF ok order_refl, where p = pos and pos = "pos + 1"]
    ticket_words(2) [OF ok assms(2)]
  by (simp add: word_le_nat_alt)

lemma own_step_progress:
  assumes ok: "shared_ok N q xs" and th: "thread_ok q xs p" and p: "inside p"
    and step: "fresh_step q p = (e, q', p')"
  shows "returning p' \<or> inside p' \<and> accesses_left (contended p' q') p' < accesses_left (contended p q) p"
proof -
  note D = shared_okD [OF ok]
  show ?thesis
    using p step th push_seq_diff [OF ok] pop_seq_diff [OF ok] head_seq_le [OF ok] tail_seq_le [OF ok]
    by (cases p) (auto split: if_splits)
qed

section \<open>Schedules\<close>

text \<open>In the schedule no other thread moves the counter that thread \<open>i\<close>'s call competes for.\<close>

fun uncontended :: "nat \<Rightarrow> 'a system \<Rightarrow> 'a action list \<Rightarrow> bool" where
  "uncontended i s [] = True"
| "uncontended i s (a # as) = ((action_thread a \<noteq> i \<longrightarrow>
      contended (sys_threads s i) (sys_queue (perform s a)) = contended (sys_threads s i) (sys_queue s)) \<and>
     uncontended i (perform s a) as)"

lemma schedule_pushed: "length (sys_pushed s) \<le> length (sys_pushed (foldl perform s as))"
proof (induction as arbitrary: s)
  case (Cons a as)
  have "length (sys_pushed s) \<le> length (sys_pushed (perform s a))"
    by (cases a) (auto simp: after_event_def split: thread.splits prod.splits)
  with Cons show ?case by (simp del: perform.simps) (blast intro: le_trans)
qed simp

lemma perform_inside:
  assumes "inside (sys_threads s i)" and "fresh_step (sys_queue s) (sys_threads s i) = (e, q, p)"
  shows "perform s (Run i) = after_event s i e q p"
  using assms by (cases "sys_threads s i") (simp_all del: fresh_step.simps)

lemma begin_inside: "inside (sys_threads s i) \<Longrightarrow> perform s (Begin i c) = s"
  by (cases "sys_threads s i") simp_all

abbreviation still_needs :: "'a system \<Rightarrow> nat \<Rightarrow> nat" where
  "still_needs s i \<equiv> accesses_left (contended (sys_threads s i) (sys_queue s)) (sys_threads s i)"

lemma run_progress:
  assumes reach: "reachable N init s" "good_capacity N" "length (sys_pushed s) + N < 2 ^ 63"
    and inside: "inside (sys_threads s i)"
  shows "returning (sys_threads (perform s (Run i)) i) \<or>
    inside (sys_threads (perform s (Run i)) i) \<and> still_needs (perform s (Run i)) i < still_needs s i"
proof -
  obtain e q p where step: "fresh_step (sys_queue s) (sys_threads s i) = (e, q, p)"
    by (cases "fresh_step (sys_queue s) (sys_threads s i)") auto
  have "shared_ok N (sys_queue s) (sys_pushed s)" "thread_ok (sys_queue s) (sys_pushed s) (sys_threads s i)"
    using reachable_ok [OF reach] by (auto simp: system_ok_def)
  from own_step_progress [OF this inside step] show ?thesis
    by (simp add: perform_inside [OF inside step] after_event_def del: perform.simps)
qed

lemma schedule_progress:
  assumes "reachable N init s" and N: "good_capacity N"
    and "length (sys_pushed (foldl perform s as)) + N < 2 ^ 63"
    and "inside (sys_threads s i)" and "uncontended i s as" and "still_needs s i \<le> count_list as (Run i)"
  shows "\<exists>n \<le> length as. returning (sys_threads (foldl perform s (take n as)) i)"
  using assms(1,3-6)
proof (induction as arbitrary: s)
  case Nil
  then show ?case
    using inside_needs_access by (metis count_list.simps(1) le_zero_eq less_irrefl_nat)
next
  case (Cons a as)
  let ?s = "perform s a"
  have room: "length (sys_pushed s) + N < 2 ^ 63"
    using Cons.prems(2) schedule_pushed [of s "a # as"] by linarith
  have "\<exists>n \<le> length as. returning (sys_threads (foldl perform ?s (take n as)) i)"
    if "inside (sys_threads ?s i)" and "still_needs ?s i \<le> count_list as (Run i)"
    using that Cons.prems by (intro Cons.IH perform_reachable) (simp_all del: perform.simps)
  then have later: "\<exists>n \<le> length (a # as). returning (sys_threads (foldl perform s (take n (a # as))) i)"
    if "inside (sys_threads ?s i)" and "still_needs ?s i \<le> count_list as (Run i)"
    using that by (metis Suc_le_mono foldl_Cons length_Cons take_Suc_Cons)
  show ?case
  proof (cases "a = Run i")
    case True
    from run_progress [OF Cons.prems(1) N room Cons.prems(3)] show ?thesis
    proof
      assume "returning (sys_threads (perform s (Run i)) i)"
      then show ?thesis
        using True by (intro exI [of _ 1]) (simp del: perform.simps)
    next
      assume "inside (sys_threads (perform s (Run i)) i) \<and> still_needs (perform s (Run i)) i < still_needs s i"
      with Cons.prems(5) True show ?thesis
        by (intro later) (simp_all del: perform.simps)
    qed
  next
    case False
    have "sys_threads ?s i = sys_threads s i \<and>
        contended (sys_threads s i) (sys_queue ?s) = contended (sys_threads s i) (sys_queue s)"
    proof (cases "action_thread a = i")
      case True
      with False obtain c where "a = Begin i c" by (cases a) auto
      then show ?thesis using begin_inside [OF Cons.prems(3)] by simp
    next
      case other: False
      with Cons.prems(4) perform_other [OF other] show ?thesis
        by (simp del: perform.simps)
    qed
    with Cons.prems(3,5) False show ?thesis
      by (intro later) (simp_all del: perform.simps)
  qed
qed


text \<open>
  Producer 0 has found slot 0 free, producer 1 takes ticket 0 and stalls before it writes. Producer 0
  alone then loses the compare-exchange once, takes ticket 1 and returns.
\<close>

lemma alone_uncontended: "uncontended i s (replicate n (Run i))"
  by (induction n arbitrary: s) (simp_all del: perform.simps)

lemma alone_count: "count_list (replicate n x) x = n"
  by (induction n) simp_all

definition overtaken_producer :: "nat action list" where
  "overtaken_producer = [Begin 0 (Push 7), Run 0, Run 0, Begin 1 (Push 8), Run 1, Run 1, Run 1]"

lemma overtaken_state:
  "sys_threads (execute 2 0 overtaken_producer) 0 = Push_cas 7 0 \<and>
   sys_threads (execute 2 0 overtaken_producer) 1 = Push_write 8 0"
  by code_simp

lemma overtaken_runs_on:
  "sys_pushed (foldl perform (execute 2 0 overtaken_producer) (replicate 6 (Run 0))) = [8, 7]"
  by code_simp


section \<open>Refused calls\<close>

lemma next_ticket: "a mod N = b mod N \<Longrightarrow> a < b \<Longrightarrow> a + N \<le> b" for a b N :: nat
  using mod_distinct [of a b N] by linarith

lemma push_refusal:
  assumes ok: "shared_ok N q xs" and cov: "covered q thr" and pos: "pos \<le> q_head q"
    and behind: "unat (slot_seq (slot_at q pos)) < unat pos"
  shows "pos = q_head q \<and> (length xs = unat (q_tail q) + N \<or>
    (\<exists>j p. holds (thr j) = Some (Inr p) \<and> unat p + N = unat pos))"
proof -
  note D = shared_okD [OF ok]
  have le: "unat pos \<le> length xs"
    using pos D(6) by (simp add: word_le_nat_alt)
  obtain k where k: "k mod N = unat pos mod N" "k < unat (q_tail q) + N"
    and cases: "unat (slot_seq (slot_at q pos)) = k \<and> unat (q_tail q) \<le> k \<or>
      unat (slot_seq (slot_at q pos)) = Suc k \<and> k < length xs \<and> length xs \<le> k + N"
    using shared_ok_slot [OF ok, of pos] by (auto simp: slot_ok_def)
  have far: "k + N \<le> unat pos"
    using next_ticket [OF k(1)] cases behind by auto
  then have last: "unat pos = length xs" "length xs = k + N"
    using cases le D(8) by auto
  then have "pos = q_head q"
    using D(6) by (simp add: word_unat_eq_iff)
  moreover have "\<exists>j p. holds (thr j) = Some (Inr p) \<and> unat p + N = unat pos" if "k < unat (q_tail q)"
  proof -
    define p :: u64 where "p = of_nat k"
    have p: "unat p = k"
      using k(2) D(5,7) unfolding p_def by (simp add: unsigned_of_nat take_bit_nat_eq_self)
    have at: "slot_at q p = slot_at q pos"
      using shared_ok_index [OF ok, of p] shared_ok_index [OF ok, of pos] p k(1) by (simp add: slot_at_def)
    have "p < q_tail q"
      using that p by (simp add: word_less_nat_alt)
    moreover have "slot_seq (slot_at q p) = p + 1"
      using cases that p ticket_words(2) [OF ok, of p] calculation at
      by (simp add: word_unat_eq_iff order_less_imp_le)
    ultimately show ?thesis
      using cov p last unfolding covered_def by metis
  qed
  ultimately show ?thesis
    using last D(8) by (cases "k < unat (q_tail q)") auto
qed

lemma pop_refusal:
  assumes ok: "shared_ok N q xs" and cov: "covered q thr" and pos: "pos \<le> q_tail q"
    and behind: "unat (slot_seq (slot_at q pos)) \<le> unat pos"
  shows "pos = q_tail q \<and> (length xs = unat (q_tail q) \<or> (\<exists>j. holds (thr j) = Some (Inl pos)))"
proof -
  note D = shared_okD [OF ok]
  have le: "unat pos \<le> unat (q_tail q)"
    using pos by (simp add: word_le_nat_alt)
  obtain k where k: "k mod N = unat pos mod N" "k < unat (q_tail q) + N"
    and cases: "unat (slot_seq (slot_at q pos)) = k \<and> unat (q_tail q) \<le> k \<or>
      unat (slot_seq (slot_at q pos)) = Suc k \<and> k < length xs \<and> length xs \<le> k + N"
    using shared_ok_slot [OF ok, of pos] by (auto simp: slot_ok_def)
  from cases show ?thesis
  proof
    assume waiting: "unat (slot_seq (slot_at q pos)) = k \<and> unat (q_tail q) \<le> k"
    then have eq: "pos = q_tail q" "slot_seq (slot_at q pos) = pos"
      using behind le by (simp_all add: word_unat_eq_iff)
    show ?thesis
    proof (cases "length xs = unat (q_tail q)")
      case False
      then have "pos < q_head q"
        using eq(1) D(6,7) by (simp add: word_less_nat_alt)
      with cov eq show ?thesis unfolding covered_def by blast
    qed (simp add: eq)
  next
    assume "unat (slot_seq (slot_at q pos)) = Suc k \<and> k < length xs \<and> length xs \<le> k + N"
    then have "unat pos = unat (q_tail q)" "length xs = unat (q_tail q)"
      using next_ticket [OF k(1)] behind le D(7) by auto
    then show ?thesis by (simp add: word_unat_eq_iff)
  qed
qed


text \<open>
  Producer 0 has claimed ticket 0 and not written yet, producer 1 has published 8: the pop finds the
  queue empty, because of producer 0.
\<close>

definition refused_consumer :: "nat action list" where
  "refused_consumer = butlast stalled_producer"

lemma refused_state:
  "sys_threads (execute 2 0 refused_consumer) 2 = Pop_seq 0 \<and> sys_pushed (execute 2 0 refused_consumer) = [7, 8] \<and>
   snd (snd (fresh_step (sys_queue (execute 2 0 refused_consumer)) (Pop_seq 0))) = Pop_return None \<and>
   \<not> queue_empty (sys_queue (execute 2 0 refused_consumer))"
  by code_simp


end
