(* ===== verification/Config_Records.thy ===== *)
theory Config_Records
  imports Core_Types
begin

text \<open>
  The configuration structs of \<^verbatim>\<open>core/config.hpp\<close> with their default constructors, and the data types
  of \<^verbatim>\<open>core/error.hpp\<close>. Validation and the conversions from and to JSON are declared there but
  defined in the closed library; the JSON type of the strategy parameters is a type parameter.
\<close>

section \<open>Configuration\<close>

record ExchangeConfig =
  exc_name :: string
  exc_websocket_url :: string
  exc_rest_url :: string
  exc_user_stream_url :: string
  exc_proxy_host :: string
  exc_proxy_port :: u16
  exc_api_key :: string
  exc_api_secret :: string
  exc_symbols :: "string list"
  exc_reconnect_interval_ms :: u32
  exc_heartbeat_interval_ms :: u32
  exc_timeout_ms :: u32

definition ExchangeConfig_init :: ExchangeConfig where
  "ExchangeConfig_init =
     \<lparr>exc_name = '''', exc_websocket_url = '''', exc_rest_url = '''', exc_user_stream_url = '''',
      exc_proxy_host = '''', exc_proxy_port = 0, exc_api_key = '''', exc_api_secret = '''', exc_symbols = [],
      exc_reconnect_interval_ms = 5000, exc_heartbeat_interval_ms = 30000, exc_timeout_ms = 10000\<rparr>"

record 'json StrategyConfig =
  stc_name :: string
  stc_library_path :: string
  stc_parameters :: 'json
  stc_symbol_ids :: "u32 list"
  stc_enabled :: bool

definition StrategyConfig_init :: "'json \<Rightarrow> 'json StrategyConfig" where
  "StrategyConfig_init null =
     \<lparr>stc_name = '''', stc_library_path = '''', stc_parameters = null, stc_symbol_ids = [], stc_enabled = True\<rparr>"

record RiskParameters =
  rp_max_order_value :: Double
  rp_max_position_value :: Double
  rp_max_orders_per_second :: u32
  rp_max_total_position_value :: Double
  rp_min_available_capital :: Double
  rp_max_drawdown_percent :: Double

definition RiskParameters_init :: RiskParameters where
  "RiskParameters_init =
     \<lparr>rp_max_order_value = Fin 100000, rp_max_position_value = Fin 500000,
      rp_max_orders_per_second = 100, rp_max_total_position_value = Fin 1000000,
      rp_min_available_capital = Fin 10000, rp_max_drawdown_percent = Fin 20\<rparr>"

record LogConfig =
  lc_log_dir :: string
  lc_buffer_size :: u64
  lc_flush_interval_ms :: u32
  lc_retention_days :: u32
  lc_compress_old_logs :: bool
  lc_enable_tick_logging :: bool
  lc_enable_order_logging :: bool
  lc_enable_fill_logging :: bool
  lc_enable_snapshot_logging :: bool

definition LogConfig_init :: LogConfig where
  "LogConfig_init =
     \<lparr>lc_log_dir = ''./logs'', lc_buffer_size = 65536, lc_flush_interval_ms = 100, lc_retention_days = 30,
      lc_compress_old_logs = True, lc_enable_tick_logging = True, lc_enable_order_logging = True,
      lc_enable_fill_logging = True, lc_enable_snapshot_logging = False\<rparr>"

record ZMQConfig =
  zc_publish_endpoint :: string
  zc_high_water_mark :: u32
  zc_linger_ms :: u32

definition ZMQConfig_init :: ZMQConfig where
  "ZMQConfig_init =
     \<lparr>zc_publish_endpoint = ''tcp://*:5555'', zc_high_water_mark = 10000, zc_linger_ms = 1000\<rparr>"

record MonitoringConfig =
  mc_enable_metrics :: bool
  mc_metrics_port :: u16
  mc_enable_health_check :: bool
  mc_health_check_port :: u16
  mc_metrics_update_interval_ms :: u32

definition MonitoringConfig_init :: MonitoringConfig where
  "MonitoringConfig_init =
     \<lparr>mc_enable_metrics = True, mc_metrics_port = 9090, mc_enable_health_check = True,
      mc_health_check_port = 8080, mc_metrics_update_interval_ms = 1000\<rparr>"

record 'json SystemConfig =
  sc_exchanges :: "ExchangeConfig list"
  sc_strategies :: "'json StrategyConfig list"
  sc_risk_parameters :: RiskParameters
  sc_log_config :: LogConfig
  sc_zmq_config :: ZMQConfig
  sc_monitoring_config :: MonitoringConfig
  sc_initial_capital :: Double
  sc_state_file :: string

definition SystemConfig_init :: "'json SystemConfig" where
  "SystemConfig_init =
     \<lparr>sc_exchanges = [], sc_strategies = [], sc_risk_parameters = RiskParameters_init,
      sc_log_config = LogConfig_init, sc_zmq_config = ZMQConfig_init,
      sc_monitoring_config = MonitoringConfig_init, sc_initial_capital = Fin 1000000,
      sc_state_file = ''./state/system_state.json''\<rparr>"

section \<open>Errors\<close>

datatype ErrorCategory =
    Cat_NETWORK | Cat_MARKET_DATA | Cat_ORDER_EXECUTION | Cat_RISK_MANAGEMENT | Cat_CONFIGURATION
  | Cat_PERSISTENCE | Cat_SYSTEM | Cat_STRATEGY | Cat_UNKNOWN

datatype RecoveryAction =
    Act_NONE | Act_RETRY | Act_RECONNECT | Act_RELOAD_CONFIG | Act_RESTART_COMPONENT
  | Act_SHUTDOWN | Act_ALERT_OPERATOR

text \<open>The value of an enumerator without an initialiser is its position.\<close>

fun ErrorCategory_value :: "ErrorCategory \<Rightarrow> nat" where
  "ErrorCategory_value Cat_NETWORK = 0"
| "ErrorCategory_value Cat_MARKET_DATA = 1"
| "ErrorCategory_value Cat_ORDER_EXECUTION = 2"
| "ErrorCategory_value Cat_RISK_MANAGEMENT = 3"
| "ErrorCategory_value Cat_CONFIGURATION = 4"
| "ErrorCategory_value Cat_PERSISTENCE = 5"
| "ErrorCategory_value Cat_SYSTEM = 6"
| "ErrorCategory_value Cat_STRATEGY = 7"
| "ErrorCategory_value Cat_UNKNOWN = 8"

record Error =
  err_severity :: ErrorSeverity
  err_category :: ErrorCategory
  err_component :: string
  err_message :: string
  err_context :: string
  err_timestamp_us :: u64
  err_stack_trace :: "string list"
  err_recovery_action :: RecoveryAction
  err_error_code :: int

text \<open>
  The arguments of the constructor as a caller sees them; the constructor's body, which adds the time and
  the stack trace, is in the library.
\<close>

record Error_args =
  ea_sev :: ErrorSeverity
  ea_cat :: ErrorCategory
  ea_comp :: string
  ea_msg :: string
  ea_ctx :: string
  ea_recovery :: RecoveryAction
  ea_code :: int

definition Error_defaults :: Error_args where
  "Error_defaults =
     \<lparr>ea_sev = Sev_ERROR, ea_cat = Cat_UNKNOWN, ea_comp = [], ea_msg = [], ea_ctx = [], ea_recovery = Act_NONE,
      ea_code = 0\<rparr>"

record ErrorStatistics =
  es_total_errors :: u64
  es_errors_by_severity :: "u64 list"   \<comment> \<open>\<^verbatim>\<open>uint64_t[5]\<close>\<close>
  es_errors_by_category :: "u64 list"   \<comment> \<open>\<^verbatim>\<open>uint64_t[9]\<close>\<close>
  es_last_error_timestamp_us :: u64

text \<open>The error handler, over callbacks of type \<open>'cb\<close>.\<close>

record 'cb ErrorHandler =
  er_callbacks :: "u64 \<rightharpoonup> 'cb"
  er_category_callbacks :: "ErrorCategory \<rightharpoonup> (u64 \<rightharpoonup> 'cb)"
  er_statistics :: ErrorStatistics
  er_error_history :: "Error list"
  er_history_write_index :: u64
  er_max_history_size :: u64
  er_next_callback_id :: u64
  er_console_logging_enabled :: bool
  er_minimum_severity :: ErrorSeverity

text \<open>
  Every severity and every category has a counter of its own in the two arrays: the enumerators
  number the cells without gaps.
\<close>

lemma severity_counters: "(\<lambda>s. unat (ErrorSeverity_value s)) ` UNIV = {0..<5}"
proof -
  have eq: "UNIV = {Sev_DEBUG, Sev_INFO, Sev_WARNING, Sev_ERROR, Sev_CRITICAL}"
    using ErrorSeverity.exhaust by auto
  have "(\<lambda>s. unat (ErrorSeverity_value s)) ` UNIV = {0, 1, 2, 3, 4}"
    unfolding eq by simp
  also have "\<dots> = {0..<5}"
    by (auto simp: numeral_eq_Suc atLeastLessThanSuc)
  finally show ?thesis .
qed

lemma category_counters: "ErrorCategory_value ` UNIV = {0..<9}"
proof -
  have eq: "UNIV = {Cat_NETWORK, Cat_MARKET_DATA, Cat_ORDER_EXECUTION, Cat_RISK_MANAGEMENT, Cat_CONFIGURATION,
      Cat_PERSISTENCE, Cat_SYSTEM, Cat_STRATEGY, Cat_UNKNOWN}"
    using ErrorCategory.exhaust by blast
  show ?thesis unfolding eq by (auto simp: numeral_eq_Suc atLeastLessThanSuc)
qed

end
