(* ===== verification/Risk_Params.thy ===== *)
theory Risk_Params
  imports Config_Records
begin

text \<open>
  \<^verbatim>\<open>risk/risk_engine.hpp\<close>: the parameter store of the pre-trade risk engine. The hot form (decimals and
  a version counter), the two cold buffers, \<^verbatim>\<open>buildHot\<close>, \<^verbatim>\<open>publishParams\<close>, \<^verbatim>\<open>swapColdBuffers\<close> and the
  retry loop of the optimistic reader, run by one thread. Readers that run beside a writer are in
  \<^verbatim>\<open>Seqlock\<close>. The checks themselves (\<^verbatim>\<open>checkOrder\<close> and the rest) are in the closed library.
\<close>

section \<open>Results and statistics\<close>

record RiskCheckResult =
  rcr_passed :: bool
  rcr_rejection_reason :: string
  rcr_check_timestamp_us :: u64

definition RiskCheckResult_init :: RiskCheckResult where
  "RiskCheckResult_init = \<lparr>rcr_passed = True, rcr_rejection_reason = '''', rcr_check_timestamp_us = 0\<rparr>"

definition accept :: RiskCheckResult where
  "accept = RiskCheckResult_init\<lparr>rcr_passed := True\<rparr>"

definition reject :: "string \<Rightarrow> RiskCheckResult" where
  "reject reason = RiskCheckResult_init\<lparr>rcr_passed := False, rcr_rejection_reason := reason\<rparr>"

record RiskStatistics =
  rs_total_checks :: u64
  rs_accepted :: u64
  rs_rejected :: u64
  rs_rate_limit_rejects :: u64
  rs_order_value_rejects :: u64
  rs_position_limit_rejects :: u64
  rs_total_position_rejects :: u64
  rs_capital_rejects :: u64
  rs_avg_check_latency :: i64

definition RiskStatistics_init :: RiskStatistics where
  "RiskStatistics_init =
     \<lparr>rs_total_checks = 0, rs_accepted = 0, rs_rejected = 0, rs_rate_limit_rejects = 0,
      rs_order_value_rejects = 0, rs_position_limit_rejects = 0, rs_total_position_rejects = 0,
      rs_capital_rejects = 0, rs_avg_check_latency = 0\<rparr>"

section \<open>Hot and cold parameters\<close>

record HotParams =
  hp_max_order_value :: Decimal
  hp_max_position_value :: Decimal
  hp_max_total_position_value :: Decimal
  hp_min_available_capital :: Decimal
  hp_max_orders_per_second :: u32
  hp_version :: u64

definition HotParams_init :: HotParams where
  "HotParams_init =
     \<lparr>hp_max_order_value = decimal_zero, hp_max_position_value = decimal_zero,
      hp_max_total_position_value = decimal_zero, hp_min_available_capital = decimal_zero,
      hp_max_orders_per_second = 100, hp_version = 0\<rparr>"

definition HotParams_members :: "member list" where
  "HotParams_members =
     [(''max_order_value'', 8, 8), (''max_position_value'', 8, 8), (''max_total_position_value'', 8, 8),
      (''min_available_capital'', 8, 8), (''max_orders_per_second'', 4, 4), (''version'', 8, 8),
      (''padding'', 204, 1)]"

record ColdParams =
  cp_params :: RiskParameters
  cp_hot :: HotParams
  cp_update_time_us :: u64

definition ColdParams_init :: ColdParams where
  "ColdParams_init = \<lparr>cp_params = RiskParameters_init, cp_hot = HotParams_init, cp_update_time_us = 0\<rparr>"

definition buildHot :: "ColdParams \<Rightarrow> ColdParams outcome" where
  "buildHot c =
     bind_outcome (toDecimal (rp_max_order_value (cp_params c))) (\<lambda>v1.
     bind_outcome (toDecimal (rp_max_position_value (cp_params c))) (\<lambda>v2.
     bind_outcome (toDecimal (rp_max_total_position_value (cp_params c))) (\<lambda>v3.
     bind_outcome (toDecimal (rp_min_available_capital (cp_params c))) (\<lambda>v4.
       Inr (c\<lparr>cp_hot := (cp_hot c)\<lparr>hp_max_order_value := v1, hp_max_position_value := v2,
         hp_max_total_position_value := v3, hp_min_available_capital := v4,
         hp_max_orders_per_second := rp_max_orders_per_second (cp_params c)\<rparr>\<rparr>)))))"

text \<open>\<^verbatim>\<open>std::memcpy(&dst, &src, offsetof(HotParams, version))\<close>: all members before the version.\<close>

definition memcpy_params :: "HotParams \<Rightarrow> HotParams \<Rightarrow> HotParams" where
  "memcpy_params src dst = src\<lparr>hp_version := hp_version dst\<rparr>"

section \<open>The engine's members\<close>

text \<open>The pointer \<^verbatim>\<open>active_cold_\<close> is the index of the buffer it points to.\<close>

record RiskEngine =
  re_hot_params :: HotParams
  re_cold_buffers :: "ColdParams list"
  re_active_cold :: nat
  re_write_idx :: nat
  re_current_second :: u32
  re_orders_this_second :: u32
  re_available_capital_raw :: i64
  re_stats :: RiskStatistics

definition RiskEngine_init :: RiskEngine where
  "RiskEngine_init =
     \<lparr>re_hot_params = HotParams_init, re_cold_buffers = [ColdParams_init, ColdParams_init],
      re_active_cold = 0, re_write_idx = 1, re_current_second = 0, re_orders_this_second = 0,
      re_available_capital_raw = 0, re_stats = RiskStatistics_init\<rparr>"

definition getReadBuffer :: "RiskEngine \<Rightarrow> ColdParams" where
  "getReadBuffer e = re_cold_buffers e ! re_active_cold e"

definition getWriteBuffer :: "RiskEngine \<Rightarrow> ColdParams" where
  "getWriteBuffer e = re_cold_buffers e ! re_write_idx e"

definition setWriteBuffer :: "ColdParams \<Rightarrow> RiskEngine \<Rightarrow> RiskEngine" where
  "setWriteBuffer c e = e\<lparr>re_cold_buffers := (re_cold_buffers e)[re_write_idx e := c]\<rparr>"

definition swapColdBuffers :: "RiskEngine \<Rightarrow> RiskEngine" where
  "swapColdBuffers e =
     (let e1 = e\<lparr>re_active_cold := re_write_idx e\<rparr>;
          e2 = e1\<lparr>re_write_idx := (if re_write_idx e1 = 0 then 1 else 0)\<rparr>;
          next = getWriteBuffer e2
      in setWriteBuffer (next\<lparr>cp_hot := memcpy_params (re_hot_params e2) (cp_hot next)\<rparr>) e2)"

definition bump_version :: "RiskEngine \<Rightarrow> RiskEngine" where
  "bump_version e = e\<lparr>re_hot_params := (re_hot_params e)\<lparr>hp_version := hp_version (re_hot_params e) + 1\<rparr>\<rparr>"

definition publishParams :: "RiskEngine \<Rightarrow> RiskEngine outcome" where
  "publishParams e =
     bind_outcome (buildHot (getWriteBuffer e)) (\<lambda>built.
       let dark = built\<lparr>cp_hot := (cp_hot built)\<lparr>hp_version := hp_version (re_hot_params e) + 1\<rparr>\<rparr>;
           e1 = bump_version (setWriteBuffer dark e);
           e2 = e1\<lparr>re_hot_params := memcpy_params (cp_hot dark) (re_hot_params e1)\<rparr>;
           e3 = bump_version e2
       in Inr (swapColdBuffers e3))"

section \<open>The optimistic reader\<close>

text \<open>
  What attempt \<open>i\<close> of the loop observes: the version before, the members, the version after; \<open>final\<close> is
  what the read after the loop sees.
\<close>

definition MAX_RETRIES :: nat where
  "MAX_RETRIES = 100"

fun read_attempts :: "nat \<Rightarrow> (HotParams \<Rightarrow> 'r) \<Rightarrow> (nat \<Rightarrow> u64 \<times> HotParams \<times> u64) \<Rightarrow> nat \<Rightarrow> 'r option" where
  "read_attempts 0 func obs retry = None"
| "read_attempts (Suc n) func obs retry =
     (case obs retry of (v1, p, v2) \<Rightarrow>
        if and v1 1 = 1 then read_attempts n func obs (Suc retry)
        else if v1 = v2 then Some (func p)
        else read_attempts n func obs (Suc retry))"

definition readHotParamsOptimistic ::
  "(HotParams \<Rightarrow> 'r) \<Rightarrow> (nat \<Rightarrow> u64 \<times> HotParams \<times> u64) \<Rightarrow> HotParams \<Rightarrow> 'r" where
  "readHotParamsOptimistic func obs final =
     (case read_attempts MAX_RETRIES func obs 0 of Some r \<Rightarrow> r | None \<Rightarrow> func final)"

section \<open>Lemmas\<close>

definition same_params :: "HotParams \<Rightarrow> HotParams \<Rightarrow> bool" where
  "same_params a b \<longleftrightarrow> a\<lparr>hp_version := 0\<rparr> = b\<lparr>hp_version := 0\<rparr>"

text \<open>
  The double buffer between two calls of the writer: the two indices are the two buffers, and all three
  copies of the hot form agree.
\<close>

definition engine_ok :: "RiskEngine \<Rightarrow> bool" where
  "engine_ok e \<longleftrightarrow> length (re_cold_buffers e) = 2 \<and> {re_active_cold e, re_write_idx e} = {0, 1} \<and>
     even (unat (hp_version (re_hot_params e))) \<and>
     same_params (cp_hot (getReadBuffer e)) (re_hot_params e) \<and>
     same_params (cp_hot (getWriteBuffer e)) (re_hot_params e)"

lemma engine_ok_init: "engine_ok RiskEngine_init"
  by (auto simp: engine_ok_def RiskEngine_init_def getReadBuffer_def getWriteBuffer_def ColdParams_init_def
      same_params_def HotParams_init_def)

lemma indices_cases:
  fixes a w :: nat
  assumes "{a, w} = {0, 1}"
  obtains "a = 0" "w = 1" | "a = 1" "w = 0"
  using assms by (auto simp: doubleton_eq_iff)

lemma even_version_plus_2: "even (unat v) \<Longrightarrow> even (unat (v + 2))" for v :: u64
proof -
  assume "even (unat v)"
  then have "even ((unat v + 2) mod 2 ^ 64)"
    using dvd_mod_iff [of 2 "2 ^ 64" "unat v + 2"] by simp
  moreover have "unat (v + 2) = (unat v + 2) mod 2 ^ 64"
    using unat_word_ariths(1) [of v 2] by (simp del: unat_add_lem)
  ultimately show ?thesis by (simp only:)
qed

lemma same_params_memcpy [simp]: "same_params (memcpy_params src dst) src" "same_params src (memcpy_params src dst)"
  by (simp_all add: same_params_def memcpy_params_def)

lemma same_params_version [simp]:
  "same_params (p\<lparr>hp_version := v\<rparr>) q \<longleftrightarrow> same_params p q" "same_params p (q\<lparr>hp_version := v\<rparr>) \<longleftrightarrow> same_params p q"
  "same_params p p"
  by (simp_all add: same_params_def)

lemma same_params_iff:
  "same_params a b \<longleftrightarrow> hp_max_order_value a = hp_max_order_value b \<and>
     hp_max_position_value a = hp_max_position_value b \<and>
     hp_max_total_position_value a = hp_max_total_position_value b \<and>
     hp_min_available_capital a = hp_min_available_capital b \<and>
     hp_max_orders_per_second a = hp_max_orders_per_second b"
  for a b :: HotParams
  by (cases a; cases b) (simp add: same_params_def)

text \<open>What one call of \<^verbatim>\<open>publishParams\<close> leaves behind when the four conversions succeed.\<close>

lemma publishParams_state:
  assumes ok: "engine_ok e" and built: "buildHot (getWriteBuffer e) = Inr c"
  obtains e' where "publishParams e = Inr e'" "engine_ok e'"
    "re_active_cold e' = re_write_idx e" "re_write_idx e' = re_active_cold e"
    "hp_version (re_hot_params e') = hp_version (re_hot_params e) + 2"
    "same_params (re_hot_params e') (cp_hot c)"
    "getReadBuffer e' = c\<lparr>cp_hot := (cp_hot c)\<lparr>hp_version := hp_version (re_hot_params e) + 1\<rparr>\<rparr>"
    "getWriteBuffer e' = (getReadBuffer e)\<lparr>cp_hot := memcpy_params (re_hot_params e') (cp_hot (getReadBuffer e))\<rparr>"
proof -
  define a w v where "a = re_active_cold e" and "w = re_write_idx e" and "v = hp_version (re_hot_params e)"
  have len: "length (re_cold_buffers e) = 2" and ev: "even (unat v)" and idx: "{a, w} = {0, 1}"
    using ok by (simp_all add: engine_ok_def a_def w_def v_def)
  have aw: "a < 2" "w < 2" "a \<noteq> w" "(if w = 0 then 1 else 0) = a"
    by (rule indices_cases [OF idx]; simp)+
  define dark where "dark = c\<lparr>cp_hot := (cp_hot c)\<lparr>hp_version := v + 1\<rparr>\<rparr>"
  define hot where "hot = (cp_hot c)\<lparr>hp_version := v + 2\<rparr>"
  define old where "old = re_cold_buffers e ! a"
  define retired where "retired = old\<lparr>cp_hot := memcpy_params hot (cp_hot old)\<rparr>"
  define e' where "e' = e\<lparr>re_hot_params := hot, re_cold_buffers := (re_cold_buffers e)[w := dark, a := retired],
    re_active_cold := w, re_write_idx := a\<rparr>"
  have two: "v + 1 + 1 = v + 2" by simp
  have "publishParams e = Inr e'"
    using aw built [unfolded getWriteBuffer_def, folded w_def]
    by (simp add: publishParams_def Let_def setWriteBuffer_def bump_version_def swapColdBuffers_def
        getWriteBuffer_def memcpy_params_def e'_def retired_def old_def dark_def hot_def two
        flip: a_def w_def v_def)
  moreover have bufs: "getReadBuffer e' = dark" "getWriteBuffer e' = retired" "getReadBuffer e = old"
    using aw len by (simp_all add: getReadBuffer_def getWriteBuffer_def e'_def old_def a_def)
  moreover have fields: "re_hot_params e' = hot" "re_active_cold e' = w" "re_write_idx e' = a"
    "length (re_cold_buffers e') = 2" "hp_version hot = v + 2"
    using len by (simp_all add: e'_def hot_def)
  moreover have "engine_ok e'"
    using idx even_version_plus_2 [OF ev]
    by (simp add: engine_ok_def bufs fields insert_commute retired_def dark_def)
      (simp add: hot_def)
  ultimately show ?thesis
    by (intro that [of e']) (simp_all add: hot_def dark_def retired_def a_def w_def v_def)
qed

lemma publishParams_cases: "publishParams e = Inr e' \<Longrightarrow> \<exists>c. buildHot (getWriteBuffer e) = Inr c"
  by (auto simp: publishParams_def bind_outcome_Inr_iff)

lemma buildHot_params: "buildHot c = Inr c' \<Longrightarrow> cp_params c' = cp_params c"
  by (auto simp: buildHot_def bind_outcome_Inr_iff)

lemma buildHot_converts:
  "buildHot c = Inr c' \<Longrightarrow>
     toDecimal (rp_max_order_value (cp_params c)) = Inr (hp_max_order_value (cp_hot c')) \<and>
     toDecimal (rp_max_position_value (cp_params c)) = Inr (hp_max_position_value (cp_hot c')) \<and>
     toDecimal (rp_max_total_position_value (cp_params c)) = Inr (hp_max_total_position_value (cp_hot c')) \<and>
     toDecimal (rp_min_available_capital (cp_params c)) = Inr (hp_min_available_capital (cp_hot c')) \<and>
     hp_max_orders_per_second (cp_hot c') = rp_max_orders_per_second (cp_params c)"
  by (auto simp: buildHot_def bind_outcome_Inr_iff)

text \<open>A limit a \<^verbatim>\<open>Decimal\<close> can hold: a double in \<open>[-2^31, 2^31)\<close>.\<close>

fun limit_ok :: "Double \<Rightarrow> bool" where
  "limit_ok (Fin q) \<longleftrightarrow> - (2 ^ 31) \<le> q \<and> q < 2 ^ 31"
| "limit_ok _ \<longleftrightarrow> False"

fun is_double :: "Double \<Rightarrow> bool" where
  "is_double (Fin q) \<longleftrightarrow> representable q"
| "is_double _ \<longleftrightarrow> True"

definition limits :: "RiskParameters \<Rightarrow> Double list" where
  "limits p = [rp_max_order_value p, rp_max_position_value p, rp_max_total_position_value p, rp_min_available_capital p]"

lemma toDecimal_limit:
  assumes "is_double x"
  shows "(\<exists>d. toDecimal x = Inr d) \<longleftrightarrow> limit_ok x"
proof (cases x)
  case (Fin q)
  then have "representable q" using assms by simp
  then show ?thesis
    using toDecimal_overflow [of q] toDecimal_Fin [of q] Fin
    by (cases "q < - (2 ^ 31) \<or> 2 ^ 31 \<le> q") auto
qed (simp_all add: toDecimal_def decimal_scale_def signed_inf_def)

lemma buildHot_defined:
  assumes "\<forall>x \<in> set (limits (cp_params c)). is_double x"
  shows "(\<exists>c'. buildHot c = Inr c') \<longleftrightarrow> (\<forall>x \<in> set (limits (cp_params c)). limit_ok x)"
  using assms by (auto simp: limits_def buildHot_def bind_outcome_Inr_iff simp flip: toDecimal_limit)

section \<open>Properties\<close>

text \<open>
  Property C13: \<^verbatim>\<open>publishParams\<close> installs the parameters of the dark buffer. With a consistent double buffer
  and limits that fit a \<^verbatim>\<open>Decimal\<close>, it returns; the hot form and the buffer that readers get hold the
  converted limits, the version has advanced by two and is even again, the two buffers have changed
  roles, and the double buffer is consistent again.
\<close>

theorem publishParams_installs:
  assumes ok: "engine_ok e" and fits: "\<forall>x \<in> set (limits (cp_params (getWriteBuffer e))). is_double x \<and> limit_ok x"
  shows "\<exists>e'. publishParams e = Inr e' \<and> engine_ok e' \<and>
    hp_version (re_hot_params e') = hp_version (re_hot_params e) + 2 \<and>
    re_active_cold e' = re_write_idx e \<and> re_write_idx e' = re_active_cold e \<and>
    cp_params (getReadBuffer e') = cp_params (getWriteBuffer e) \<and>
    toDecimal (rp_max_order_value (cp_params (getWriteBuffer e))) = Inr (hp_max_order_value (re_hot_params e')) \<and>
    toDecimal (rp_max_position_value (cp_params (getWriteBuffer e))) = Inr (hp_max_position_value (re_hot_params e')) \<and>
    toDecimal (rp_max_total_position_value (cp_params (getWriteBuffer e))) = Inr (hp_max_total_position_value (re_hot_params e')) \<and>
    toDecimal (rp_min_available_capital (cp_params (getWriteBuffer e))) = Inr (hp_min_available_capital (re_hot_params e')) \<and>
    hp_max_orders_per_second (re_hot_params e') = rp_max_orders_per_second (cp_params (getWriteBuffer e))"
proof -
  obtain c where c: "buildHot (getWriteBuffer e) = Inr c"
    using buildHot_defined [of "getWriteBuffer e"] fits by auto
  note converted = buildHot_converts [OF c] buildHot_params [OF c]
  show ?thesis
  proof (rule publishParams_state [OF ok c])
    fix e' assume *: "publishParams e = Inr e'" "engine_ok e'"
      "re_active_cold e' = re_write_idx e" "re_write_idx e' = re_active_cold e"
      "hp_version (re_hot_params e') = hp_version (re_hot_params e) + 2"
      and same: "same_params (re_hot_params e') (cp_hot c)"
      and read: "getReadBuffer e' = c\<lparr>cp_hot := (cp_hot c)\<lparr>hp_version := hp_version (re_hot_params e) + 1\<rparr>\<rparr>"
    have "cp_params (getReadBuffer e') = cp_params (getWriteBuffer e)"
      using converted by (simp add: read)
    with * same converted show ?thesis
      by (intro exI [of _ e']) (simp add: same_params_iff)
  qed
qed

lemma RiskParameters_init_fits: "\<forall>x \<in> set (limits RiskParameters_init). is_double x \<and> limit_ok x"
  using representable_of_int [of 100000] representable_of_int [of 500000] representable_of_int [of 1000000]
    representable_of_int [of 10000]
  by (simp add: limits_def RiskParameters_init_def)

theorem publishParams_installs_witness:
  "\<exists>e'. publishParams RiskEngine_init = Inr e' \<and> re_active_cold e' = 1 \<and> hp_version (re_hot_params e') = 2"
  using publishParams_installs [OF engine_ok_init] RiskParameters_init_fits
  by (simp add: RiskEngine_init_def getWriteBuffer_def ColdParams_init_def HotParams_init_def) blast

text \<open>
  The buffer a reader may still hold is overwritten at once. The swap copies the new hot form
  into the buffer that was active until then, while its parameters stay the old ones: after one
  \<^verbatim>\<open>publishParams\<close>, a reader that got its pointer before reads new limits next to old parameters.
\<close>

theorem publishParams_overwrites_retired:
  assumes ok: "engine_ok e" and pub: "publishParams e = Inr e'"
  shows "re_cold_buffers e' ! re_active_cold e =
    (getReadBuffer e)\<lparr>cp_hot := (re_hot_params e')\<lparr>hp_version := hp_version (cp_hot (getReadBuffer e))\<rparr>\<rparr>"
proof -
  obtain c where c: "buildHot (getWriteBuffer e) = Inr c"
    using publishParams_cases [OF pub] by blast
  show ?thesis
  proof (rule publishParams_state [OF ok c])
    fix e'' assume "publishParams e = Inr e''" "re_write_idx e'' = re_active_cold e"
      "getWriteBuffer e'' = (getReadBuffer e)\<lparr>cp_hot := memcpy_params (re_hot_params e'') (cp_hot (getReadBuffer e))\<rparr>"
    then show ?thesis
      using pub by (simp add: getWriteBuffer_def memcpy_params_def)
  qed
qed

text \<open>
  Publishing twice without writing the dark buffer in between brings back the parameters
  that the first call replaced, because the swap brings only the hot form of the new dark buffer up to
  date.
\<close>

theorem publish_again_rolls_back:
  assumes ok: "engine_ok e" and pub: "publishParams e = Inr e1" "publishParams e1 = Inr e2"
  shows "cp_params (getReadBuffer e2) = cp_params (getReadBuffer e)"
proof -
  obtain c1 where c1: "buildHot (getWriteBuffer e) = Inr c1"
    using publishParams_cases [OF pub(1)] by blast
  obtain c2 where c2: "buildHot (getWriteBuffer e1) = Inr c2"
    using publishParams_cases [OF pub(2)] by blast
  have one: "engine_ok e1" "cp_params (getWriteBuffer e1) = cp_params (getReadBuffer e)"
    using pub(1) by (auto intro: publishParams_state [OF ok c1])
  show ?thesis
    using pub(2) one(2) buildHot_params [OF c2] by (auto intro: publishParams_state [OF one(1) c2])
qed

text \<open>
  Limits a \<^verbatim>\<open>Decimal\<close> cannot hold. Publishing is undefined behaviour exactly when one of the
  four limits of the dark buffer is not in \<open>[-2^31, 2^31)\<close>.
\<close>

theorem publishParams_undefined_iff:
  assumes "\<forall>x \<in> set (limits (cp_params (getWriteBuffer e))). is_double x"
  shows "publishParams e = Inl UB_float_to_int \<longleftrightarrow>
    (\<exists>x \<in> set (limits (cp_params (getWriteBuffer e))). \<not> limit_ok x)"
proof -
  have "publishParams e = Inl UB_float_to_int \<longleftrightarrow> (\<nexists>c. buildHot (getWriteBuffer e) = Inr c)"
  proof (cases "buildHot (getWriteBuffer e)")
    case (Inl f)
    then have "f = UB_float_to_int"
      by (auto simp: buildHot_def bind_outcome_def toDecimal_def Let_def split: sum.splits if_splits elim!: d_to_i64.elims)
    with Inl show ?thesis by (simp add: publishParams_def)
  qed (simp add: publishParams_def Let_def)
  then show ?thesis
    using buildHot_defined [OF assms] by auto
qed

definition consistent :: "u64 \<times> HotParams \<times> u64 \<Rightarrow> bool" where
  "consistent ob = (case ob of (v1, p, v2) \<Rightarrow> even (unat v1) \<and> v1 = v2)"

lemma odd_version: "and v 1 = 1 \<longleftrightarrow> odd (unat v)" for v :: u64
proof -
  have "and v 1 = of_bool (odd v)"
    by (rule and_one_eq [unfolded mod_2_eq_odd])
  moreover have "odd v \<longleftrightarrow> odd (unat v)"
    by transfer (simp add: even_nat_iff even_take_bit_eq)
  ultimately show ?thesis by simp
qed

lemma read_attempts_result:
  "read_attempts n func obs k =
     (if \<exists>i. k \<le> i \<and> i < k + n \<and> consistent (obs i)
      then Some (func (fst (snd (obs (LEAST i. k \<le> i \<and> consistent (obs i))))))
      else None)"
proof (induction n arbitrary: k)
  case 0
  then show ?case by auto
next
  case (Suc n)
  show ?case
  proof (cases "consistent (obs k)")
    case True
    then have "(LEAST i. k \<le> i \<and> consistent (obs i)) = k"
      by (intro Least_equality) auto
    moreover have "read_attempts (Suc n) func obs k = Some (func (fst (snd (obs k))))"
      using True by (auto simp: consistent_def odd_version split: prod.splits)
    moreover have "\<exists>i. k \<le> i \<and> i < k + Suc n \<and> consistent (obs i)"
      using True by (intro exI [of _ k]) simp
    ultimately show ?thesis by simp
  next
    case False
    have next_iff: "k \<le> i \<and> consistent (obs i) \<longleftrightarrow> Suc k \<le> i \<and> consistent (obs i)" for i
      using False by (auto simp: Suc_le_eq le_less)
    have "read_attempts (Suc n) func obs k = read_attempts n func obs (Suc k)"
      using False by (auto simp: consistent_def odd_version split: prod.splits)
    also have "\<dots> = (if \<exists>i. Suc k \<le> i \<and> i < Suc k + n \<and> consistent (obs i)
        then Some (func (fst (snd (obs (LEAST i. Suc k \<le> i \<and> consistent (obs i)))))) else None)"
      by (rule Suc.IH)
    also have "(\<exists>i. Suc k \<le> i \<and> i < Suc k + n \<and> consistent (obs i)) \<longleftrightarrow>
        (\<exists>i. k \<le> i \<and> i < k + Suc n \<and> consistent (obs i))"
      using next_iff by auto
    finally show ?thesis
      by (simp only: next_iff)
  qed
qed

text \<open>
  The reader always returns, after at most 100 attempts. Its result is taken from the first
  attempt that saw an even version and the same version again; if none of the hundred did, from the
  unchecked read after the loop.
\<close>

theorem readHotParamsOptimistic_result:
  "readHotParamsOptimistic func obs final =
     (if \<exists>i < 100. consistent (obs i) then func (fst (snd (obs (LEAST i. consistent (obs i)))))
      else func final)"
  unfolding readHotParamsOptimistic_def read_attempts_result MAX_RETRIES_def by auto

section \<open>Concrete runs\<close>

text \<open>The initial engine whose dark buffer asks for 7 orders per second.\<close>

definition engine_7 :: RiskEngine where
  "engine_7 = setWriteBuffer (ColdParams_init\<lparr>cp_params := RiskParameters_init\<lparr>rp_max_orders_per_second := 7\<rparr>\<rparr>) RiskEngine_init"

lemma engine_7_facts:
  "engine_ok engine_7" "getReadBuffer engine_7 = ColdParams_init" "re_active_cold engine_7 = 0"
  "cp_params (getWriteBuffer engine_7) = RiskParameters_init\<lparr>rp_max_orders_per_second := 7\<rparr>"
  using engine_ok_init
  by (simp_all add: engine_7_def engine_ok_def setWriteBuffer_def getReadBuffer_def getWriteBuffer_def
      RiskEngine_init_def ColdParams_init_def)

lemma publish_total:
  assumes "engine_ok e" and "\<forall>x \<in> set (limits (cp_params (getWriteBuffer e))). is_double x \<and> limit_ok x"
  shows "\<exists>e'. publishParams e = Inr e' \<and> engine_ok e' \<and>
    cp_params (getReadBuffer e') = cp_params (getWriteBuffer e) \<and>
    cp_params (getWriteBuffer e') = cp_params (getReadBuffer e) \<and>
    hp_max_orders_per_second (re_hot_params e') = rp_max_orders_per_second (cp_params (getWriteBuffer e))"
proof -
  obtain c where c: "buildHot (getWriteBuffer e) = Inr c"
    using buildHot_defined [of "getWriteBuffer e"] assms(2) by auto
  show ?thesis
  proof (rule publishParams_state [OF assms(1) c])
    fix e' assume *: "publishParams e = Inr e'" "engine_ok e'"
      "same_params (re_hot_params e') (cp_hot c)"
      "getReadBuffer e' = c\<lparr>cp_hot := (cp_hot c)\<lparr>hp_version := hp_version (re_hot_params e) + 1\<rparr>\<rparr>"
      "getWriteBuffer e' = (getReadBuffer e)\<lparr>cp_hot := memcpy_params (re_hot_params e') (cp_hot (getReadBuffer e))\<rparr>"
    then show ?thesis
      using buildHot_params [OF c] buildHot_converts [OF c]
      by (intro exI [of _ e']) (simp add: same_params_iff)
  qed
qed

lemma limits_orders: "limits (p\<lparr>rp_max_orders_per_second := n\<rparr>) = limits p"
  by (simp add: limits_def)

lemma engine_7_publishes:
  "\<exists>e1. publishParams engine_7 = Inr e1 \<and> engine_ok e1 \<and> rp_max_orders_per_second (cp_params (getReadBuffer e1)) = 7 \<and>
     hp_max_orders_per_second (re_hot_params e1) = 7 \<and> cp_params (getWriteBuffer e1) = RiskParameters_init"
  using publish_total [of engine_7] RiskParameters_init_fits
  by (auto simp: engine_7_facts limits_orders ColdParams_init_def)

theorem publishParams_overwrites_retired_witness:
  "\<exists>e'. publishParams engine_7 = Inr e' \<and>
     rp_max_orders_per_second (cp_params (re_cold_buffers e' ! 0)) = 100 \<and>
     hp_max_orders_per_second (cp_hot (re_cold_buffers e' ! 0)) = 7"
proof -
  obtain e' where e': "publishParams engine_7 = Inr e'" "hp_max_orders_per_second (re_hot_params e') = 7"
    using engine_7_publishes by blast
  from publishParams_overwrites_retired [OF engine_7_facts(1) e'(1)] e' show ?thesis
    by (simp add: engine_7_facts ColdParams_init_def RiskParameters_init_def)
qed

theorem publish_again_rolls_back_witness:
  "\<exists>e1 e2. publishParams engine_7 = Inr e1 \<and> publishParams e1 = Inr e2 \<and>
     rp_max_orders_per_second (cp_params (getReadBuffer e1)) = 7 \<and>
     rp_max_orders_per_second (cp_params (getReadBuffer e2)) = 100"
proof -
  obtain e1 where e1: "publishParams engine_7 = Inr e1" "engine_ok e1"
    "rp_max_orders_per_second (cp_params (getReadBuffer e1)) = 7" "cp_params (getWriteBuffer e1) = RiskParameters_init"
    using engine_7_publishes by blast
  obtain e2 where e2: "publishParams e1 = Inr e2"
    using publish_total [OF e1(2)] RiskParameters_init_fits e1(4) by auto
  from publish_again_rolls_back [OF engine_7_facts(1) e1(1) e2] e1 e2 show ?thesis
    by (simp add: engine_7_facts ColdParams_init_def RiskParameters_init_def)
qed

theorem publishParams_undefined_iff_witness:
  "publishParams (setWriteBuffer (ColdParams_init\<lparr>cp_params :=
     RiskParameters_init\<lparr>rp_max_order_value := Fin 3000000000\<rparr>\<rparr>) RiskEngine_init) = Inl UB_float_to_int"
proof -
  let ?p = "RiskParameters_init\<lparr>rp_max_order_value := Fin 3000000000\<rparr>"
  let ?e = "setWriteBuffer (ColdParams_init\<lparr>cp_params := ?p\<rparr>) RiskEngine_init"
  have p: "cp_params (getWriteBuffer ?e) = ?p"
    by (simp add: setWriteBuffer_def getWriteBuffer_def RiskEngine_init_def)
  have "\<forall>x \<in> set (limits ?p). is_double x"
    using RiskParameters_init_fits representable_of_int [of 3000000000] by (simp add: limits_def)
  then show ?thesis
    using publishParams_undefined_iff [of ?e] unfolding p by (simp add: limits_def)
qed

text \<open>
  The layout the seqlock relies on. \<^verbatim>\<open>HotParams\<close> fills 256 bytes, and the bytes that
  \<^verbatim>\<open>publishParams\<close> copies, up to the offset of \<^verbatim>\<open>version\<close>, are the five parameters and nothing of the version.
\<close>

theorem HotParams_layout:
  "sizeof_struct 256 HotParams_members = 256 \<and> offsetof HotParams_members ''version'' = Some 40 \<and>
   map fst (filter (\<lambda>(m, off). off < 40) (offsets_from 0 HotParams_members)) =
     [''max_order_value'', ''max_position_value'', ''max_total_position_value'', ''min_available_capital'',
      ''max_orders_per_second'']"
  by (simp add: HotParams_members_def sizeof_struct_def offsetof_def align_up_def)

end
