(* ===== verification/Seqlock.thy ===== *)
theory Seqlock
  imports Risk_Params
begin

text \<open>
  Optimistic readers beside a writer: the protocol that \<^verbatim>\<open>RiskEngine::publishParams\<close> and the two reader
  loops (\<^verbatim>\<open>RiskEngine::readHotParamsOptimistic\<close>, which gives up after 100 attempts, and
  \<^verbatim>\<open>OrderBookV2::readHotDataOptimistic\<close>, which does not) run on the version counter and the plain members.
  One transition is one access to shared memory; one writer and any number of readers interleave.

  \<open>ordered\<close> tells whether the writer's plain stores stay behind the store that makes the version odd, as
  they do when the program order is kept. That store has release order, which only keeps \<^emph>\<open>earlier\<close>
  accesses before it: without a fence after it, later plain stores may become visible first, the
  transition \<open>w_early\<close> of the case \<open>\<not> ordered\<close>.
\<close>

section \<open>Writer and readers\<close>

text \<open>The cells that the writer has still to copy, and the cells that a reader has read.\<close>

datatype 'w writer = W_idle | W_begin "'w list" "nat set" | W_copy "'w list" "nat set"

datatype 'w reader =
    R_idle
  | R_version nat
  | R_read u64 nat "nat \<rightharpoonup> 'w"
  | R_fallback "nat \<rightharpoonup> 'w"
  | R_accepted u64 "nat \<rightharpoonup> 'w"
  | R_unchecked "nat \<rightharpoonup> 'w"

record 'w seqlock =
  sl_version :: u64
  sl_cells :: "'w list"
  sl_writer :: "'w writer"
  sl_readers :: "nat \<Rightarrow> 'w reader"
  sl_history :: "'w list list"   \<comment> \<open>ghost: the snapshots published so far\<close>

definition seqlock_init :: "'w list \<Rightarrow> 'w seqlock" where
  "seqlock_init xs = \<lparr>sl_version = 0, sl_cells = xs, sl_writer = W_idle, sl_readers = (\<lambda>_. R_idle), sl_history = [xs]\<rparr>"

definition may_try :: "nat option \<Rightarrow> nat \<Rightarrow> bool" where
  "may_try retries k \<longleftrightarrow> (case retries of None \<Rightarrow> True | Some m \<Rightarrow> k < m)"

definition set_reader :: "nat \<Rightarrow> 'w reader \<Rightarrow> 'w seqlock \<Rightarrow> 'w seqlock" where
  "set_reader i r s = s\<lparr>sl_readers := (sl_readers s)(i := r)\<rparr>"

inductive seq_step :: "bool \<Rightarrow> nat option \<Rightarrow> nat \<Rightarrow> 'w seqlock \<Rightarrow> 'w seqlock \<Rightarrow> bool" for ordered retries n where
  w_start: "sl_writer s = W_idle \<Longrightarrow> length xs = n \<Longrightarrow>
    seq_step ordered retries n s (s\<lparr>sl_writer := W_begin xs {..<n}\<rparr>)"
| w_early: "\<not> ordered \<Longrightarrow> sl_writer s = W_begin xs todo \<Longrightarrow> j \<in> todo \<Longrightarrow>
    seq_step ordered retries n s (s\<lparr>sl_cells := (sl_cells s)[j := xs ! j], sl_writer := W_begin xs (todo - {j})\<rparr>)"
| w_odd: "sl_writer s = W_begin xs todo \<Longrightarrow>
    seq_step ordered retries n s (s\<lparr>sl_version := sl_version s + 1, sl_writer := W_copy xs todo\<rparr>)"
| w_copy: "sl_writer s = W_copy xs todo \<Longrightarrow> j \<in> todo \<Longrightarrow>
    seq_step ordered retries n s (s\<lparr>sl_cells := (sl_cells s)[j := xs ! j], sl_writer := W_copy xs (todo - {j})\<rparr>)"
| w_even: "sl_writer s = W_copy xs {} \<Longrightarrow>
    seq_step ordered retries n s
      (s\<lparr>sl_version := sl_version s + 1, sl_writer := W_idle, sl_history := sl_history s @ [xs]\<rparr>)"
| r_call: "sl_readers s i = R_idle \<Longrightarrow> seq_step ordered retries n s (set_reader i (R_version 0) s)"
| r_odd: "sl_readers s i = R_version k \<Longrightarrow> may_try retries k \<Longrightarrow> and (sl_version s) 1 = 1 \<Longrightarrow>
    seq_step ordered retries n s (set_reader i (R_version (Suc k)) s)"
| r_even: "sl_readers s i = R_version k \<Longrightarrow> may_try retries k \<Longrightarrow> and (sl_version s) 1 \<noteq> 1 \<Longrightarrow>
    seq_step ordered retries n s (set_reader i (R_read (sl_version s) k Map.empty) s)"
| r_cell: "sl_readers s i = R_read v k got \<Longrightarrow> j < n \<Longrightarrow> got j = None \<Longrightarrow>
    seq_step ordered retries n s (set_reader i (R_read v k (got(j \<mapsto> sl_cells s ! j))) s)"
| r_accept: "sl_readers s i = R_read v k got \<Longrightarrow> \<forall>j < n. got j \<noteq> None \<Longrightarrow> sl_version s = v \<Longrightarrow>
    seq_step ordered retries n s (set_reader i (R_accepted v got) s)"
| r_retry: "sl_readers s i = R_read v k got \<Longrightarrow> \<forall>j < n. got j \<noteq> None \<Longrightarrow> sl_version s \<noteq> v \<Longrightarrow>
    seq_step ordered retries n s (set_reader i (R_version (Suc k)) s)"
| r_give_up: "sl_readers s i = R_version k \<Longrightarrow> \<not> may_try retries k \<Longrightarrow>
    seq_step ordered retries n s (set_reader i (R_fallback Map.empty) s)"
| r_last_cell: "sl_readers s i = R_fallback got \<Longrightarrow> j < n \<Longrightarrow> got j = None \<Longrightarrow>
    seq_step ordered retries n s (set_reader i (R_fallback (got(j \<mapsto> sl_cells s ! j))) s)"
| r_last: "sl_readers s i = R_fallback got \<Longrightarrow> \<forall>j < n. got j \<noteq> None \<Longrightarrow>
    seq_step ordered retries n s (set_reader i (R_unchecked got) s)"

inductive seq_reachable :: "bool \<Rightarrow> nat option \<Rightarrow> 'w list \<Rightarrow> 'w seqlock \<Rightarrow> bool" for ordered retries xs where
  seq_start: "seq_reachable ordered retries xs (seqlock_init xs)"
| seq_next: "seq_reachable ordered retries xs s \<Longrightarrow> seq_step ordered retries (length xs) s s' \<Longrightarrow> seq_reachable ordered retries xs s'"

text \<open>A snapshot as a reader sees it.\<close>

definition snapshot :: "'w list \<Rightarrow> nat \<rightharpoonup> 'w" where
  "snapshot xs j = (if j < length xs then Some (xs ! j) else None)"

section \<open>Invariant\<close>

fun writer_ok :: "nat \<Rightarrow> 'w list \<Rightarrow> 'w list \<Rightarrow> 'w writer \<Rightarrow> bool" where
  "writer_ok n old cells W_idle \<longleftrightarrow> cells = old"
| "writer_ok n old cells (W_begin xs todo) \<longleftrightarrow> cells = old \<and> todo = {..<n} \<and> length xs = n"
| "writer_ok n old cells (W_copy xs todo) \<longleftrightarrow> length xs = n \<and> todo \<subseteq> {..<n} \<and>
     (\<forall>j < n. cells ! j = (if j \<in> todo then old ! j else xs ! j))"

fun is_copying :: "'w writer \<Rightarrow> bool" where
  "is_copying (W_copy xs todo) = True"
| "is_copying _ = False"

fun reader_ok :: "u64 \<Rightarrow> nat \<Rightarrow> 'w list list \<Rightarrow> 'w reader \<Rightarrow> bool" where
  "reader_ok ver n hist (R_read v k got) \<longleftrightarrow>
     even (unat v) \<and> v \<le> ver \<and> (v = ver \<longrightarrow> (\<forall>j x. got j = Some x \<longrightarrow> j < n \<and> x = last hist ! j))"
| "reader_ok ver n hist (R_accepted v got) \<longleftrightarrow>
     unat v div 2 < length hist \<and> got = snapshot (hist ! (unat v div 2))"
| "reader_ok ver n hist _ \<longleftrightarrow> True"

definition seq_ok :: "nat \<Rightarrow> 'w seqlock \<Rightarrow> bool" where
  "seq_ok n s \<longleftrightarrow> sl_history s \<noteq> [] \<and> (\<forall>xs \<in> set (sl_history s). length xs = n) \<and> length (sl_cells s) = n \<and>
     2 * length (sl_history s) < 2 ^ 64 \<and>
     unat (sl_version s) = 2 * (length (sl_history s) - 1) + (if is_copying (sl_writer s) then 1 else 0) \<and>
     writer_ok n (last (sl_history s)) (sl_cells s) (sl_writer s) \<and>
     (\<forall>i. reader_ok (sl_version s) n (sl_history s) (sl_readers s i))"

lemma seq_ok_reader:
  assumes "seq_ok n s" and "reader_ok (sl_version s) n (sl_history s) r"
  shows "seq_ok n (set_reader i r s)"
  using assms by (simp add: seq_ok_def set_reader_def)

lemma seq_ok_cells:
  assumes ok: "seq_ok n s" and not_copying: "\<not> is_copying (sl_writer s)"
  shows "sl_cells s = last (sl_history s)"
  using assms by (cases "sl_writer s") (auto simp: seq_ok_def)

lemma seq_ok_even:
  assumes "seq_ok n s"
  shows "even (unat (sl_version s)) \<longleftrightarrow> \<not> is_copying (sl_writer s)"
  using assms by (simp add: seq_ok_def)

text \<open>The version moves on: a reader that is under way keeps what it knows, or knows nothing any more.\<close>

lemma reader_ok_bump:
  assumes "reader_ok ver n hist r" and "unat (ver + 1) = Suc (unat ver)" and "hist' = hist \<or> (\<exists>xs. hist' = hist @ [xs])"
  shows "reader_ok (ver + 1) n hist' r"
proof (cases r)
  case (R_read v k got)
  with assms(1,2) have "v \<noteq> ver + 1" "v \<le> ver + 1"
    by (auto simp: word_le_nat_alt)
  with R_read assms(1) show ?thesis by simp
next
  case (R_accepted v got)
  with assms(1,3) show ?thesis by (auto simp: nth_append)
qed simp_all

lemma writer_ok_copy:
  assumes ok: "writer_ok n old cells (W_copy xs todo)" and "j \<in> todo" "length cells = n"
  shows "writer_ok n old (cells[j := xs ! j]) (W_copy xs (todo - {j}))"
  using assms by (auto simp: nth_list_update)

lemma seq_ok_bound:
  assumes "seq_ok n s" and "\<not> is_copying (sl_writer s)"
  shows "Suc (unat (sl_version s)) < 2 ^ 64"
proof -
  have "0 < length (sl_history s)" "2 * length (sl_history s) < 2 ^ 64"
    "unat (sl_version s) = 2 * (length (sl_history s) - 1)"
    using assms by (simp_all add: seq_ok_def)
  then show ?thesis by linarith
qed

lemma seq_ok_step:
  assumes step: "seq_step True retries n s s'" and ok: "seq_ok n s"
    and room: "2 * length (sl_history s') < 2 ^ 64"
  shows "seq_ok n s'"
  using step
proof cases
  case (w_start xs)
  then show ?thesis using ok by (simp add: seq_ok_def)
next
  case (w_odd xs todo)
  have "unat (sl_version s + 1) = Suc (unat (sl_version s))"
    using seq_ok_bound [OF ok] w_odd(2) by (intro unat_Suc_small) simp
  then have readers: "reader_ok (sl_version s + 1) n (sl_history s) (sl_readers s i)" for i
    using ok by (intro reader_ok_bump [of _ _ "sl_history s"]) (simp_all add: seq_ok_def)
  have "writer_ok n (last (sl_history s)) (sl_cells s) (W_begin xs todo)"
    using ok w_odd(2) by (simp add: seq_ok_def)
  then show ?thesis
    using ok w_odd readers \<open>unat (sl_version s + 1) = _\<close> by (simp add: seq_ok_def)
next
  case (w_copy xs todo j)
  then show ?thesis
    using ok writer_ok_copy [of n "last (sl_history s)" "sl_cells s" xs todo j]
    by (simp add: seq_ok_def del: writer_ok.simps)
next
  case (w_even xs)
  have "0 < length (sl_history s)" "2 * Suc (length (sl_history s)) < 2 ^ 64"
    "unat (sl_version s) = 2 * (length (sl_history s) - 1) + 1"
    using ok w_even room by (simp_all add: seq_ok_def)
  then have "Suc (unat (sl_version s)) < 2 ^ 64"
    by (cases "length (sl_history s)") simp_all
  then have "unat (sl_version s + 1) = Suc (unat (sl_version s))"
    by (intro unat_Suc_small) simp
  then have readers: "reader_ok (sl_version s + 1) n (sl_history s @ [xs]) (sl_readers s i)"
    and ver: "unat (sl_version s + 1) = Suc (unat (sl_version s))" for i
    using ok reader_ok_bump [of "sl_version s" n "sl_history s" "sl_readers s i"] by (simp_all add: seq_ok_def)
  have "writer_ok n (last (sl_history s)) (sl_cells s) (W_copy xs {})" "length (sl_cells s) = n"
    using ok w_even(2) by (simp_all add: seq_ok_def)
  then have "sl_cells s = xs" "length xs = n"
    by (auto intro: nth_equalityI)
  moreover have "Suc (Suc (2 * (length (sl_history s) - Suc 0))) = 2 * length (sl_history s)"
    using \<open>0 < length (sl_history s)\<close> by linarith
  ultimately show ?thesis
    using ok w_even room readers ver by (simp add: seq_ok_def)
next
  case (r_even i k)
  then show ?thesis
    using ok by (auto simp: odd_version intro!: seq_ok_reader)
next
  case (r_cell i v k got j)
  have "reader_ok (sl_version s) n (sl_history s) (R_read v k got)"
    using ok r_cell(2) by (metis seq_ok_def)
  moreover have "sl_cells s = last (sl_history s)" if "v = sl_version s"
    using that seq_ok_even [OF ok] seq_ok_cells [OF ok] calculation by simp
  ultimately show ?thesis
    using r_cell ok by (auto intro!: seq_ok_reader split: if_splits)
next
  case (r_accept i v k got)
  have rd: "reader_ok (sl_version s) n (sl_history s) (R_read v k got)"
    using ok r_accept(2) by (metis seq_ok_def)
  have len: "length (last (sl_history s)) = n" and ne: "sl_history s \<noteq> []"
    and ver: "unat v div 2 = length (sl_history s) - 1"
    using ok r_accept(4) by (auto simp: seq_ok_def)
  have "got = snapshot (last (sl_history s))"
  proof
    fix j show "got j = snapshot (last (sl_history s)) j"
    proof (cases "j < n")
      case True
      then obtain x where "got j = Some x" using r_accept(3) by auto
      with rd r_accept(4) True len show ?thesis by (simp add: snapshot_def)
    next
      case False
      then have "got j = None" using rd r_accept(4) by (cases "got j") auto
      with False len show ?thesis by (simp add: snapshot_def)
    qed
  qed
  then show ?thesis
    using ok r_accept(1) ne ver by (auto simp: last_conv_nth intro!: seq_ok_reader)
qed (use ok in \<open>auto intro!: seq_ok_reader\<close>)

lemma history_grows: "seq_step ordered retries n s s' \<Longrightarrow> length (sl_history s) \<le> length (sl_history s')"
  by (cases rule: seq_step.cases) (auto simp: set_reader_def)

lemma seq_reachable_ok:
  assumes "seq_reachable True retries xs s" and "2 * length (sl_history s) < 2 ^ 64"
  shows "seq_ok (length xs) s"
  using assms
proof (induction rule: seq_reachable.induct)
  case seq_start
  then show ?case by (simp add: seq_ok_def seqlock_init_def)
next
  case (seq_next s s')
  then have "2 * length (sl_history s) < 2 ^ 64"
    using history_grows [OF seq_next(2)] by linarith
  with seq_next show ?case by (blast intro: seq_ok_step)
qed

section \<open>Executing a schedule\<close>

datatype 'w move =
    Prepare "'w list" | Store_cell nat | Make_odd | Make_even
  | Call nat | Load_version nat | Load_cell nat nat | Check nat

fun seq_move :: "bool \<Rightarrow> nat option \<Rightarrow> nat \<Rightarrow> 'w seqlock \<Rightarrow> 'w move \<Rightarrow> 'w seqlock option" where
  "seq_move ordered retries n s (Prepare xs) =
     (case sl_writer s of
        W_idle \<Rightarrow> if length xs = n then Some (s\<lparr>sl_writer := W_begin xs {..<n}\<rparr>) else None
      | _ \<Rightarrow> None)"
| "seq_move ordered retries n s (Store_cell j) =
     (case sl_writer s of
        W_begin xs todo \<Rightarrow>
          if \<not> ordered \<and> j \<in> todo
          then Some (s\<lparr>sl_cells := (sl_cells s)[j := xs ! j], sl_writer := W_begin xs (todo - {j})\<rparr>) else None
      | W_copy xs todo \<Rightarrow>
          if j \<in> todo
          then Some (s\<lparr>sl_cells := (sl_cells s)[j := xs ! j], sl_writer := W_copy xs (todo - {j})\<rparr>) else None
      | W_idle \<Rightarrow> None)"
| "seq_move ordered retries n s Make_odd =
     (case sl_writer s of
        W_begin xs todo \<Rightarrow> Some (s\<lparr>sl_version := sl_version s + 1, sl_writer := W_copy xs todo\<rparr>)
      | _ \<Rightarrow> None)"
| "seq_move ordered retries n s Make_even =
     (case sl_writer s of
        W_copy xs todo \<Rightarrow>
          if todo = {}
          then Some (s\<lparr>sl_version := sl_version s + 1, sl_writer := W_idle, sl_history := sl_history s @ [xs]\<rparr>)
          else None
      | _ \<Rightarrow> None)"
| "seq_move ordered retries n s (Call i) =
     (case sl_readers s i of R_idle \<Rightarrow> Some (set_reader i (R_version 0) s) | _ \<Rightarrow> None)"
| "seq_move ordered retries n s (Load_version i) =
     (case sl_readers s i of
        R_version k \<Rightarrow>
          Some (set_reader i
            (if may_try retries k then
               if and (sl_version s) 1 = 1 then R_version (Suc k) else R_read (sl_version s) k Map.empty
             else R_fallback Map.empty) s)
      | _ \<Rightarrow> None)"
| "seq_move ordered retries n s (Load_cell i j) =
     (case sl_readers s i of
        R_read v k got \<Rightarrow>
          if j < n \<and> got j = None then Some (set_reader i (R_read v k (got(j \<mapsto> sl_cells s ! j))) s) else None
      | R_fallback got \<Rightarrow>
          if j < n \<and> got j = None then Some (set_reader i (R_fallback (got(j \<mapsto> sl_cells s ! j))) s) else None
      | _ \<Rightarrow> None)"
| "seq_move ordered retries n s (Check i) =
     (case sl_readers s i of
        R_read v k got \<Rightarrow>
          if \<forall>j \<in> {..<n}. got j \<noteq> None
          then Some (set_reader i (if sl_version s = v then R_accepted v got else R_version (Suc k)) s) else None
      | R_fallback got \<Rightarrow>
          if \<forall>j \<in> {..<n}. got j \<noteq> None then Some (set_reader i (R_unchecked got) s) else None
      | _ \<Rightarrow> None)"

lemma seq_move_sound:
  assumes "seq_move ordered retries n s m = Some s'"
  shows "seq_step ordered retries n s s'"
  using assms
proof (cases m)
  case (Load_version i)
  with assms show ?thesis
    by (cases "sl_readers s i") (auto split: if_splits intro: seq_step.r_odd seq_step.r_even seq_step.r_give_up)
next
  case (Check i)
  with assms show ?thesis
    by (cases "sl_readers s i") (auto split: if_splits intro: seq_step.r_accept seq_step.r_retry seq_step.r_last)
qed (auto split: writer.splits reader.splits if_splits
    intro: seq_step.w_start seq_step.w_early seq_step.w_odd seq_step.w_copy seq_step.w_even seq_step.r_call
      seq_step.r_cell seq_step.r_last_cell)

fun seq_moves :: "bool \<Rightarrow> nat option \<Rightarrow> nat \<Rightarrow> 'w seqlock \<Rightarrow> 'w move list \<Rightarrow> 'w seqlock option" where
  "seq_moves ordered retries n s [] = Some s"
| "seq_moves ordered retries n s (m # ms) =
     (case seq_move ordered retries n s m of None \<Rightarrow> None | Some s' \<Rightarrow> seq_moves ordered retries n s' ms)"

lemma seq_moves_reachable:
  "seq_reachable ordered retries xs s \<Longrightarrow> seq_moves ordered retries (length xs) s ms = Some s' \<Longrightarrow>
    seq_reachable ordered retries xs s'"
proof (induction ms arbitrary: s)
  case (Cons m ms)
  then obtain s1 where s1: "seq_move ordered retries (length xs) s m = Some s1"
    "seq_moves ordered retries (length xs) s1 ms = Some s'"
    by (auto split: option.splits)
  have "seq_reachable ordered retries xs s1"
    by (rule seq_next [OF Cons.prems(1) seq_move_sound [OF s1(1)]])
  then show ?case by (rule Cons.IH [OF _ s1(2)])
qed simp

lemma seq_moves_reachable_pair:
  "seq_reachable ordered retries [x, y] s \<Longrightarrow> seq_moves ordered retries 2 s ms = Some s' \<Longrightarrow>
    seq_reachable ordered retries [x, y] s'"
  using seq_moves_reachable [of ordered retries "[x, y]" s ms s'] by (simp add: numeral_2_eq_2)

section \<open>Properties\<close>

text \<open>
  In program order the optimistic read is consistent. With one writer, any number of
  readers, every interleaving, with and without a bound on the attempts: a read whose two versions agree
  is exactly one of the published snapshots, the one its version counts.
\<close>

theorem optimistic_read_consistent:
  assumes "seq_reachable True retries xs s" and "2 * length (sl_history s) < 2 ^ 64"
    and "sl_readers s i = R_accepted v got"
  shows "unat v div 2 < length (sl_history s) \<and> got = snapshot (sl_history s ! (unat v div 2))"
proof -
  have "reader_ok (sl_version s) (length xs) (sl_history s) (sl_readers s i)"
    using seq_reachable_ok [OF assms(1,2)] by (simp add: seq_ok_def)
  then show ?thesis
    using assms(3) by simp
qed

definition published_then_read :: "nat move list" where
  "published_then_read =
     [Call 0, Prepare [1, 1], Make_odd, Load_version 0, Store_cell 1, Store_cell 0, Make_even,
      Load_version 0, Load_cell 0 0, Load_cell 0 1, Check 0]"

definition the_run :: "bool \<Rightarrow> nat option \<Rightarrow> nat move list \<Rightarrow> nat seqlock" where
  "the_run ordered retries ms =
     (case seq_moves ordered retries 2 (seqlock_init [0, 0]) ms of Some s \<Rightarrow> s | None \<Rightarrow> seqlock_init [])"

lemma the_run_reachable:
  assumes "seq_moves ordered retries 2 (seqlock_init [0, 0]) ms \<noteq> None"
  shows "seq_reachable ordered retries [0, 0] (the_run ordered retries ms)"
  using assms seq_moves_reachable [OF seq_start [of ordered retries "[0, 0 :: nat]"], of ms]
  by (auto simp: the_run_def numeral_2_eq_2)

theorem optimistic_read_consistent_witness:
  "\<exists>s got. seq_reachable True (Some 100) [0, 0 :: nat] s \<and> sl_readers s 0 = R_accepted 2 got \<and>
     got = snapshot [1, 1]"
proof -
  let ?s = "the_run True (Some 100) published_then_read"
  let ?got = "[0 \<mapsto> 1, 1 \<mapsto> 1] :: nat \<rightharpoonup> nat"
  have run: "seq_moves True (Some 100) 2 (seqlock_init [0, 0]) published_then_read \<noteq> None"
    and hist: "sl_history ?s = [[0, 0], [1, 1]]" and rd: "sl_readers ?s 0 = R_accepted 2 ?got"
    by (simp_all add: the_run_def published_then_read_def seqlock_init_def set_reader_def may_try_def lessThan_nat_numeral
        lessThan_Suc numeral_2_eq_2 fun_upd_def)
  from optimistic_read_consistent [OF the_run_reachable [OF run] _ rd] hist
  show ?thesis
    using the_run_reachable [OF run] rd by (intro exI [of _ ?s] exI [of _ ?got]) simp
qed


text \<open>
  A writer that stalls between its two version stores: whatever number of attempts the reader makes, it is
  still waiting.
\<close>

definition half_copied :: "bool \<Rightarrow> nat option \<Rightarrow> nat seqlock" where
  "half_copied ordered retries = the_run ordered retries [Prepare [1, 1], Make_odd, Store_cell 0, Call 0]"

lemma half_copied_state:
  "half_copied ordered retries =
     \<lparr>sl_version = 1, sl_cells = [1, 0], sl_writer = W_copy [1, 1] ({..<2} - {0}),
      sl_readers = (\<lambda>_. R_idle)(0 := R_version 0), sl_history = [[0, 0]]\<rparr>"
  by (simp add: half_copied_def the_run_def seqlock_init_def set_reader_def)

lemma half_copied_reachable: "seq_reachable ordered retries [0, 0] (half_copied ordered retries)"
  unfolding half_copied_def by (rule the_run_reachable) (simp add: seqlock_init_def set_reader_def)

lemma stalled_reader:
  assumes "\<And>k. k < m \<Longrightarrow> may_try retries k"
  shows "seq_reachable ordered retries [0, 0] (set_reader 0 (R_version m) (half_copied ordered retries))"
  using assms
proof (induction m)
  case 0
  have "set_reader 0 (R_version 0) (half_copied ordered retries) = half_copied ordered retries"
    by (simp add: half_copied_state set_reader_def)
  then show ?case using half_copied_reachable [of ordered retries] by simp
next
  case (Suc m)
  let ?s = "set_reader 0 (R_version m) (half_copied ordered retries)"
  have "seq_reachable ordered retries [0, 0] ?s"
    by (rule Suc.IH) (simp add: Suc.prems)
  moreover have "seq_step ordered retries 2 ?s (set_reader 0 (R_version (Suc m)) ?s)"
    using Suc.prems by (intro seq_step.r_odd) (simp_all add: set_reader_def half_copied_state)
  moreover have "set_reader 0 (R_version (Suc m)) ?s = set_reader 0 (R_version (Suc m)) (half_copied ordered retries)"
    by (simp add: set_reader_def)
  ultimately show ?case
    using seq_next [of ordered retries "[0, 0 :: nat]" ?s] by (simp add: numeral_2_eq_2)
qed

text \<open>
  The read after the hundred attempts is not merely stale. A writer that stalls in the middle of
  its copy, in program order, makes \<^verbatim>\<open>RiskEngine::readHotParamsOptimistic\<close> return a mixture of two
  parameter sets.
\<close>

theorem fallback_read_torn:
  "\<exists>s got. seq_reachable True (Some MAX_RETRIES) [0, 0 :: nat] s \<and> sl_readers s 0 = R_unchecked got \<and>
     got \<notin> snapshot ` (set (sl_history s) \<union> {[1, 1]}) \<and> (\<exists>todo. sl_writer s = W_copy [1, 1] todo)"
proof -
  let ?r = "Some MAX_RETRIES"
  let ?s = "set_reader 0 (R_version MAX_RETRIES) (half_copied True ?r)"
  let ?got = "[0 \<mapsto> 1, 1 \<mapsto> 0] :: nat \<rightharpoonup> nat"
  have start: "seq_reachable True ?r [0, 0] ?s"
    by (rule stalled_reader) (simp add: may_try_def)
  have "seq_moves True ?r 2 ?s [Load_version 0, Load_cell 0 0, Load_cell 0 1, Check 0] =
      Some (set_reader 0 (R_unchecked ?got) (half_copied True ?r))"
    by (simp add: set_reader_def half_copied_state may_try_def lessThan_Suc numeral_2_eq_2)
  then have "seq_reachable True ?r [0, 0] (set_reader 0 (R_unchecked ?got) (half_copied True ?r))"
    by (rule seq_moves_reachable_pair [OF start])
  moreover have "?got 0 \<noteq> snapshot [0, 0] 0" "?got 1 \<noteq> snapshot [1, 1] 1"
    by (simp_all add: snapshot_def)
  then have "?got \<notin> snapshot ` {[0, 0], [1, 1]}"
    by (auto simp del: fun_upd_apply)
  ultimately show ?thesis
    by (intro exI [of _ "set_reader 0 (R_unchecked ?got) (half_copied True ?r)"] exI [of _ ?got])
      (simp add: half_copied_state set_reader_def del: fun_upd_apply, simp)
qed

text \<open>
  \<^verbatim>\<open>OrderBookV2::readHotDataOptimistic\<close> is not wait-free. With the writer stalled between its
  two version stores, the reader can have made any number of attempts without being done, and every
  further step of the reader alone is one more failed attempt.
\<close>

theorem unbounded_read_blocks:
  "\<exists>s. seq_reachable True None [0, 0 :: nat] s \<and> sl_readers s 0 = R_version m \<and>
     (\<forall>s'. seq_step True None 2 s s' \<longrightarrow> sl_writer s' = sl_writer s \<longrightarrow>
        sl_readers s' 0 \<in> {R_version m, R_version (Suc m)})"
proof -
  let ?s = "set_reader 0 (R_version m) (half_copied True None)"
  have "seq_reachable True None [0, 0] ?s"
    by (rule stalled_reader) (simp add: may_try_def)
  moreover have "sl_readers s' 0 \<in> {R_version m, R_version (Suc m)}"
    if "seq_step True None 2 ?s s'" for s'
    using that by cases (auto simp: set_reader_def half_copied_state may_try_def split: if_splits)
  ultimately show ?thesis
    by (intro exI [of _ ?s]) (auto simp: set_reader_def)
qed

theorem unbounded_read_blocks_witness:
  "\<exists>s. seq_reachable True None [0, 0 :: nat] s \<and> sl_readers s 0 = R_version 1000000"
  using unbounded_read_blocks [of 1000000] by blast

end
