(* ===== verification/Seqlock_Calls.thy ===== *)
theory Seqlock_Calls
  imports Seqlock
begin

text \<open>
  One call of an optimistic reader, from its start to its end, while the writer publishes and other
  readers run: what it returns is at least as new as what had been published when it began, and it can
  only run out of attempts if the writer keeps it from reading. The run of the whole system since the
  call began is counted by the attempts of the reader that met an odd version.
\<close>

section \<open>A call and the versions it meets\<close>

text \<open>The reader's attempt ends at once, because it loads an odd version.\<close>

definition meets_odd :: "nat \<Rightarrow> 'w seqlock \<Rightarrow> 'w seqlock \<Rightarrow> bool" where
  "meets_odd i s s' \<longleftrightarrow> (\<exists>k. sl_readers s i = R_version k \<and> sl_readers s' i = R_version (Suc k))"

inductive during_call ::
  "bool \<Rightarrow> nat option \<Rightarrow> nat \<Rightarrow> nat \<Rightarrow> 'w seqlock \<Rightarrow> nat \<Rightarrow> 'w seqlock \<Rightarrow> bool" for ordered retries n i s0 where
  call_begins: "sl_readers s0 i = R_idle \<Longrightarrow> during_call ordered retries n i s0 0 s0"
| call_step: "during_call ordered retries n i s0 odds s \<Longrightarrow> seq_step ordered retries n s s' \<Longrightarrow>
    during_call ordered retries n i s0 (if meets_odd i s s' then Suc odds else odds) s'"

definition updates_begun :: "'w seqlock \<Rightarrow> nat" where
  "updates_begun s = length (sl_history s) - 1 + (if is_copying (sl_writer s) then 1 else 0)"

text \<open>The version counts the updates, whether or not the copies stay in their place.\<close>

definition version_ok :: "'w seqlock \<Rightarrow> bool" where
  "version_ok s \<longleftrightarrow> sl_history s \<noteq> [] \<and> 2 * length (sl_history s) < 2 ^ 64 \<and>
     unat (sl_version s) = 2 * (length (sl_history s) - 1) + (if is_copying (sl_writer s) then 1 else 0)"

lemma set_reader_simps [simp]:
  "sl_version (set_reader i r s) = sl_version s" "sl_history (set_reader i r s) = sl_history s"
  "sl_writer (set_reader i r s) = sl_writer s" "sl_cells (set_reader i r s) = sl_cells s"
  "sl_readers (set_reader i r s) j = (if j = i then r else sl_readers s j)"
  by (simp_all add: set_reader_def)

lemma version_bump:
  assumes "version_ok s"
  shows "unat (sl_version s + 1) = Suc (unat (sl_version s))"
proof -
  obtain m where m: "length (sl_history s) = Suc m"
    using assms by (cases "sl_history s") (auto simp: version_ok_def)
  with assms have "Suc (unat (sl_version s)) < 2 ^ 64"
    unfolding version_ok_def by (simp split: if_splits)
  then show ?thesis by (intro unat_Suc_small) simp
qed

lemma version_ok_step:
  assumes "seq_step ordered retries n s s'" and "version_ok s" and "2 * length (sl_history s') < 2 ^ 64"
  shows "version_ok s' \<and> sl_version s \<le> sl_version s'"
  using assms(1)
proof cases
  case (w_odd xs todo)
  then show ?thesis
    using assms(2,3) version_bump [OF assms(2)] by (simp add: version_ok_def word_le_nat_alt)
next
  case (w_even xs)
  have "Suc (Suc (2 * (length (sl_history s) - 1))) = 2 * length (sl_history s)"
    using assms(2) by (cases "sl_history s") (simp_all add: version_ok_def)
  with w_even show ?thesis
    using assms(2,3) version_bump [OF assms(2)] by (simp add: version_ok_def word_le_nat_alt)
qed (use assms(2) in \<open>auto simp: version_ok_def\<close>)

lemma version_ok_reachable:
  assumes "seq_reachable ordered retries xs s" and "2 * length (sl_history s) < 2 ^ 64"
  shows "version_ok s"
  using assms
proof (induction rule: seq_reachable.induct)
  case seq_start
  then show ?case by (simp add: version_ok_def seqlock_init_def)
next
  case (seq_next s s')
  then have "2 * length (sl_history s) < 2 ^ 64"
    using history_grows [OF seq_next(2)] by linarith
  with seq_next show ?case by (blast dest: version_ok_step)
qed

lemma version_updates:
  "version_ok s \<Longrightarrow> unat (sl_version s) \<le> 2 * updates_begun s \<and> 2 * updates_begun s \<le> Suc (unat (sl_version s))"
  by (simp add: version_ok_def updates_begun_def)

text \<open>
  Where the call stands, if \<open>b\<close> updates had begun before it and it has met an odd version in \<open>odds\<close>
  attempts: each of the other failed attempts has seen an update begin.
\<close>

fun call_ok :: "nat \<Rightarrow> nat option \<Rightarrow> nat \<Rightarrow> u64 \<Rightarrow> 'w reader \<Rightarrow> bool" where
  "call_ok b retries odds ver R_idle \<longleftrightarrow> odds = 0 \<and> 2 * b \<le> Suc (unat ver)"
| "call_ok b retries odds ver (R_version k) \<longleftrightarrow> odds \<le> k \<and> 2 * (b + (k - odds)) \<le> Suc (unat ver)"
| "call_ok b retries odds ver (R_read v k got) \<longleftrightarrow>
     odds \<le> k \<and> even (unat v) \<and> v \<le> ver \<and> 2 * (b + (k - odds)) \<le> unat v"
| "call_ok b retries odds ver (R_accepted v got) \<longleftrightarrow> 2 * b \<le> unat v"
| "call_ok b retries odds ver (R_fallback got) \<longleftrightarrow>
     (\<exists>m. retries = Some m \<and> 2 * (b + (m - odds)) \<le> Suc (unat ver))"
| "call_ok b retries odds ver (R_unchecked got) \<longleftrightarrow>
     (\<exists>m. retries = Some m \<and> 2 * (b + (m - odds)) \<le> Suc (unat ver))"

lemma call_ok_later: "call_ok b retries odds ver r \<Longrightarrow> ver \<le> ver' \<Longrightarrow> call_ok b retries odds ver' r"
  by (cases r) (auto simp: word_le_nat_alt)

lemma call_ok_own_step:
  assumes step: "seq_step ordered retries n s s'" and ok: "call_ok b retries odds (sl_version s) (sl_readers s i)"
    and ver: "sl_version s \<le> sl_version s'"
  shows "call_ok b retries (if meets_odd i s s' then Suc odds else odds) (sl_version s') (sl_readers s' i)"
  using step
proof cases
  case (r_odd j k)
  then show ?thesis
    using ok by (auto simp: meets_odd_def)
next
  case (r_even j k)
  then have "even (unat (sl_version s))"
    by (simp add: odd_version)
  then have "2 * (b + (k - odds)) \<le> Suc (unat (sl_version s)) \<Longrightarrow> 2 * (b + (k - odds)) \<le> unat (sl_version s)"
    by presburger
  with r_even show ?thesis
    using ok by (auto simp: meets_odd_def odd_version)
next
  case (r_retry j v k got)
  then show ?thesis
    using ok by (auto simp: meets_odd_def word_le_nat_alt word_unat_eq_iff)
next
  case (r_give_up j k)
  then show ?thesis
    using ok by (auto simp: meets_odd_def may_try_def split: option.splits)
qed (use ok ver in \<open>auto simp: meets_odd_def intro: call_ok_later\<close>)

lemma during_call_ok:
  assumes "during_call ordered retries (length xs) i s0 odds s" and "seq_reachable ordered retries xs s0"
    and "2 * length (sl_history s) < 2 ^ 64"
  shows "seq_reachable ordered retries xs s \<and> version_ok s \<and>
    call_ok (updates_begun s0) retries odds (sl_version s) (sl_readers s i)"
  using assms
proof (induction rule: during_call.induct)
  case call_begins
  then show ?case
    using version_ok_reachable [OF call_begins(2,3)] version_updates [OF version_ok_reachable [OF call_begins(2,3)]]
    by simp
next
  case (call_step odds s s')
  have room: "2 * length (sl_history s) < 2 ^ 64"
    using call_step.prems(2) history_grows [OF call_step.hyps(2)] by linarith
  note IH = call_step.IH [OF call_step.prems(1) room]
  then have "version_ok s' \<and> sl_version s \<le> sl_version s'"
    using version_ok_step [OF call_step.hyps(2) _ call_step.prems(2)] by blast
  with IH show ?case
    using seq_next [OF _ call_step.hyps(2)] call_ok_own_step [OF call_step.hyps(2)] by blast
qed

section \<open>What a call returns\<close>


text \<open>
  Property C38: when \<^verbatim>\<open>RiskEngine::readHotParamsOptimistic\<close> runs out of attempts. The unchecked read after
  the last attempt happens only if the writer is to blame for every one of them: each attempt that did
  not meet the writer between its two version stores has overlapped an update of its own. A reader that
  never meets a half-done copy therefore falls back only if at least 100 updates begin during its call.
\<close>

theorem reader_gives_up_only_under_writes:
  assumes "seq_reachable ordered (Some m) xs s0" and "during_call ordered (Some m) (length xs) i s0 odds s"
    and "2 * length (sl_history s) < 2 ^ 64" and "sl_readers s i \<in> {R_fallback got, R_unchecked got}"
  shows "m \<le> odds + (updates_begun s - updates_begun s0)"
proof -
  have "version_ok s" and "call_ok (updates_begun s0) (Some m) odds (sl_version s) (sl_readers s i)"
    using during_call_ok [OF assms(2,1,3)] by simp_all
  then have "2 * (updates_begun s0 + (m - odds)) \<le> Suc (unat (sl_version s))"
    and "unat (sl_version s) \<le> 2 * updates_begun s"
    using assms(4) version_updates by auto
  then show ?thesis by presburger
qed

section \<open>Two calls\<close>

lemma during_moves:
  "during_call ordered retries n i s0 odds s \<Longrightarrow> seq_moves ordered retries n s ms = Some s' \<Longrightarrow>
     \<exists>odds'. during_call ordered retries n i s0 odds' s'"
proof (induction ms arbitrary: s odds)
  case (Cons m ms)
  then obtain s1 where "seq_move ordered retries n s m = Some s1" "seq_moves ordered retries n s1 ms = Some s'"
    by (auto split: option.splits)
  with call_step [OF Cons.prems(1) seq_move_sound] Cons.IH show ?case by blast
qed auto

lemma during_run:
  assumes "seq_moves ordered retries 2 (seqlock_init [0, 0]) ms = Some s0" and "sl_readers s0 i = R_idle"
    and "seq_moves ordered retries 2 s0 ms' = Some s"
  shows "\<exists>odds. seq_reachable ordered retries [0, 0 :: nat] s0 \<and>
    during_call ordered retries (length [0, 0 :: nat]) i s0 odds s"
proof -
  have "2 = length [0, 0 :: nat]" by simp
  with during_moves [OF call_begins [OF assms(2)] assms(3)] seq_moves_reachable_pair [OF seq_start assms(1)]
  show ?thesis by metis
qed

text \<open>A reader that begins after an update was published returns that update.\<close>

definition publish_once :: "nat move list" where
  "publish_once = [Prepare [1, 1], Make_odd, Store_cell 1, Store_cell 0, Make_even]"

definition read_once :: "nat move list" where
  "read_once = [Call 0, Load_version 0, Load_cell 0 0, Load_cell 0 1, Check 0]"

lemmas run_simps = seqlock_init_def set_reader_def may_try_def lessThan_nat_numeral lessThan_Suc numeral_2_eq_2
  fun_upd_def


text \<open>
  Two attempts are allowed: the first overlaps an update, the second meets it half done, and the read is
  unchecked.
\<close>

definition two_failures :: "nat move list" where
  "two_failures = [Call 0, Load_version 0, Load_cell 0 0, Load_cell 0 1, Prepare [1, 1], Make_odd, Check 0,
     Load_version 0, Load_version 0]"

theorem reader_gives_up_only_under_writes_witness:
  "\<exists>s odds. during_call True (Some 2) (length [0, 0 :: nat]) 0 (seqlock_init [0, 0 :: nat]) odds s \<and>
     sl_readers s 0 = R_fallback Map.empty \<and> 2 \<le> odds + updates_begun s"
proof -
  let ?init = "seqlock_init [0, 0 :: nat]"
  let ?s = "the (seq_moves True (Some 2) 2 ?init two_failures)"
  have start: "seq_moves True (Some 2) 2 ?init [] = Some ?init" "sl_readers ?init 0 = R_idle"
    by (simp_all add: seqlock_init_def)
  have s: "seq_moves True (Some 2) 2 ?init two_failures = Some ?s" "sl_history ?s = [[0, 0]]"
      "sl_readers ?s 0 = R_fallback Map.empty"
    by (simp_all add: two_failures_def run_simps)
  obtain odds where run: "seq_reachable True (Some 2) [0, 0] ?init"
      "during_call True (Some 2) (length [0, 0 :: nat]) 0 ?init odds ?s"
    using during_run [OF start s(1)] by blast
  have "2 * length (sl_history ?s) < 2 ^ 64"
    unfolding s(2) by simp
  from reader_gives_up_only_under_writes [OF run this, of Map.empty] s(3)
  have "2 \<le> odds + updates_begun ?s" by simp
  with run(2) s(3) show ?thesis by blast
qed

end
