(* ===== verification/Small_Steps.thy ===== *)
theory Small_Steps
  imports Mpmc_Concurrent Seqlock
begin

text \<open>
  The sequential models and the interleaved ones describe the same code. A call of \<^verbatim>\<open>try_push\<close> or
  \<^verbatim>\<open>try_pop\<close> as modelled in \<open>Mpmc_Queue\<close> is a run of one thread of \<open>Mpmc_Concurrent\<close> with no other thread
  in between, and \<^verbatim>\<open>publishParams\<close> of \<open>Risk_Params\<close> is, on the hot parameters, a run of the writer of
  \<open>Seqlock\<close>.
\<close>

section \<open>The queue\<close>

text \<open>One step of a thread that runs alone.\<close>

definition solo_step :: "'a MPMCQueue \<times> 'a thread \<Rightarrow> 'a MPMCQueue \<times> 'a thread \<Rightarrow> bool" where
  "solo_step s s' \<longleftrightarrow> (\<exists>ev. thread_step (fst s) (snd s) ev (fst s') (snd s'))"

lemma solo_stepI: "thread_step q t ev q' t' \<Longrightarrow> solo_step (q, t) (q', t')"
  by (auto simp: solo_step_def)

text \<open>Where a call ends: with its answer, or in the fault of a signed overflow.\<close>

fun push_end :: "'a MPMCQueue \<Rightarrow> (bool \<times> 'a MPMCQueue) outcome \<Rightarrow> 'a MPMCQueue \<times> 'a thread" where
  "push_end q (Inl e) = (q, Faulted e)"
| "push_end q (Inr (b, q')) = (q', Push_return b)"

fun pop_end :: "'a MPMCQueue \<Rightarrow> ('a option \<times> 'a MPMCQueue) outcome \<Rightarrow> 'a MPMCQueue \<times> 'a thread" where
  "pop_end q (Inl e) = (q, Faulted e)"
| "pop_end q (Inr (v, q')) = (q', Pop_return v)"

lemma slot_frame [simp]:
  "slot_index (q\<lparr>q_head := h\<rparr>) pos = slot_index q pos" "slot_at (q\<lparr>q_head := h\<rparr>) pos = slot_at q pos"
  "slot_index (q\<lparr>q_tail := h\<rparr>) pos = slot_index q pos" "slot_at (q\<lparr>q_tail := h\<rparr>) pos = slot_at q pos"
  by (simp_all add: slot_index_def slot_at_def capacity_def)

lemma two_updates:
  "update_slot pos (slot_seq_update (\<lambda>_. n)) (update_slot pos (slot_data_update (\<lambda>_. v)) q) =
     q\<lparr>q_slots := (q_slots q)[slot_index q pos := \<lparr>slot_data = v, slot_seq = n\<rparr>]\<rparr>"
proof (cases "slot_index q pos < length (q_slots q)")
  case True
  obtain d m where "slot_at q pos = \<lparr>slot_data = d, slot_seq = m\<rparr>"
    by (cases "slot_at q pos")
  with True show ?thesis
    by (simp add: update_slot_def slot_at_def slot_index_def capacity_def)
next
  case False
  then show ?thesis
    by (simp add: update_slot_def slot_index_def capacity_def list_update_beyond)
qed

lemma solo_claim_push:
  assumes "q_head q = pos"
  shows "rtranclp solo_step (q, Push_cas v pos)
    (q\<lparr>q_head := pos + 1, q_slots := (q_slots q)[slot_index q pos := \<lparr>slot_data = v, slot_seq = pos + 1\<rparr>]\<rparr>, Push_return True)"
proof -
  let ?q1 = "q\<lparr>q_head := pos + 1\<rparr>"
  let ?q2 = "update_slot pos (slot_data_update (\<lambda>_. v)) ?q1"
  let ?q3 = "update_slot pos (slot_seq_update (\<lambda>_. pos + 1)) ?q2"
  have "solo_step (q, Push_cas v pos) (?q1, Push_write v pos)"
    by (rule solo_stepI [OF push_claim [OF assms]])
  moreover have "solo_step (?q1, Push_write v pos) (?q2, Push_publish pos)"
    by (rule solo_stepI [OF push_write])
  moreover have "solo_step (?q2, Push_publish pos) (?q3, Push_return True)"
    by (rule solo_stepI [OF push_publish])
  ultimately have "rtranclp solo_step (q, Push_cas v pos) (?q3, Push_return True)"
    by (meson converse_rtranclp_into_rtranclp r_into_rtranclp)
  then show ?thesis
    unfolding two_updates by simp
qed

lemma solo_push_loop:
  assumes "push_loop q v pos = Some r"
  shows "rtranclp solo_step (q, Push_seq v pos) (push_end q r)"
proof (rule push_loop.raw_induct [OF _ assms])
  fix loop :: "'a MPMCQueue \<Rightarrow> 'a \<Rightarrow> u64 \<Rightarrow> (bool \<times> 'a MPMCQueue) outcome option" and q v pos r
  assume IH: "\<And>q v pos r. loop q v pos = Some r \<Longrightarrow> rtranclp solo_step (q, Push_seq v pos) (push_end q r)"
    and body: "(let i = slot_index q pos; seq = slot_seq (q_slots q ! i) in case seq_diff seq pos of
       Inl e \<Rightarrow> Some (Inl e)
     | Inr d \<Rightarrow> if d = 0 then
           (if q_head q = pos then Some (Inr (True,
              q\<lparr>q_head := pos + 1, q_slots := (q_slots q)[i := \<lparr>slot_data = v, slot_seq = pos + 1\<rparr>]\<rparr>))
            else loop q v (q_head q))
         else if d < 0 then Some (Inr (False, q)) else loop q v (q_head q)) = Some r"
  let ?s = "slot_seq (slot_at q pos)"
  have again: "rtranclp solo_step (q, t) (push_end q r)"
    if "loop q v (q_head q) = Some r" and "solo_step (q, t) (q, Push_seq v (q_head q))" for t
    using that(2) IH [OF that(1)] by (rule converse_rtranclp_into_rtranclp)
  have load: "solo_step (q, Push_load v) (q, Push_seq v (q_head q))"
    by (rule solo_stepI [OF push_load]) simp
  note body = body [unfolded Let_def, folded slot_at_def]
  show "rtranclp solo_step (q, Push_seq v pos) (push_end q r)"
  proof (cases "seq_diff ?s pos")
    case (Inl e)
    with body have "r = Inl e" by simp
    then show ?thesis
      using solo_stepI [OF push_overflow [OF order_refl Inl]] by (simp add: r_into_rtranclp)
  next
    case (Inr d)
    consider (claim) "d = 0" "q_head q = pos" | (retry) "d = 0" "q_head q \<noteq> pos" | (full) "d < 0" | (behind) "0 < d"
      by linarith
    then show ?thesis
    proof cases
      case claim
      with body Inr have r: "r = Inr (True, q\<lparr>q_head := pos + 1,
          q_slots := (q_slots q)[slot_index q pos := \<lparr>slot_data = v, slot_seq = pos + 1\<rparr>]\<rparr>)"
        by simp
      have "solo_step (q, Push_seq v pos) (q, Push_cas v pos)"
        by (rule solo_stepI [OF push_free [OF order_refl]]) (simp add: Inr claim(1))
      from this solo_claim_push [OF claim(2), of v] show ?thesis
        unfolding r push_end.simps by (rule converse_rtranclp_into_rtranclp)
    next
      case retry
      with body Inr have "loop q v (q_head q) = Some r" by simp
      then have "rtranclp solo_step (q, Push_cas v pos) (push_end q r)"
        by (rule again) (rule solo_stepI [OF push_retry], simp)
      moreover have "solo_step (q, Push_seq v pos) (q, Push_cas v pos)"
        by (rule solo_stepI [OF push_free [OF order_refl]]) (simp add: Inr retry(1))
      ultimately show ?thesis by (rule converse_rtranclp_into_rtranclp [rotated])
    next
      case full
      with body Inr have "r = Inr (False, q)" by simp
      then show ?thesis
        using solo_stepI [OF push_full [OF order_refl Inr full]] by (simp add: r_into_rtranclp)
    next
      case behind
      with body Inr have "loop q v (q_head q) = Some r" by simp
      from solo_stepI [OF push_behind [OF order_refl Inr behind]] again [OF this load] show ?thesis
        by (rule converse_rtranclp_into_rtranclp)
    qed
  qed
qed

lemma solo_claim_pop:
  assumes "q_tail q = pos"
  shows "rtranclp solo_step (q, Pop_cas pos)
    (q\<lparr>q_tail := pos + 1, q_slots := (q_slots q)[slot_index q pos := (slot_at q pos)\<lparr>slot_seq := pos + of_nat (capacity q)\<rparr>]\<rparr>,
     Pop_return (Some (slot_data (slot_at q pos))))"
proof -
  let ?q1 = "q\<lparr>q_tail := pos + 1\<rparr>" and ?v = "slot_data (slot_at q pos)"
  let ?q2 = "update_slot pos (slot_seq_update (\<lambda>_. pos + of_nat (capacity ?q1))) ?q1"
  have "solo_step (q, Pop_cas pos) (?q1, Pop_read pos)"
    by (rule solo_stepI [OF pop_claim [OF assms]])
  moreover have "solo_step (?q1, Pop_read pos) (?q1, Pop_release pos ?v)"
    by (rule solo_stepI [OF pop_read]) simp
  moreover have "solo_step (?q1, Pop_release pos ?v) (?q2, Pop_return (Some ?v))"
    by (rule solo_stepI [OF pop_release])
  ultimately have "rtranclp solo_step (q, Pop_cas pos) (?q2, Pop_return (Some ?v))"
    by (meson converse_rtranclp_into_rtranclp r_into_rtranclp)
  then show ?thesis
    by (simp add: update_slot_def capacity_def)
qed

lemma solo_pop_loop:
  assumes "pop_loop q pos = Some r"
  shows "rtranclp solo_step (q, Pop_seq pos) (pop_end q r)"
proof (rule pop_loop.raw_induct [OF _ assms])
  fix loop :: "'a MPMCQueue \<Rightarrow> u64 \<Rightarrow> ('a option \<times> 'a MPMCQueue) outcome option" and q pos r
  assume IH: "\<And>q pos r. loop q pos = Some r \<Longrightarrow> rtranclp solo_step (q, Pop_seq pos) (pop_end q r)"
    and body: "(let i = slot_index q pos; seq = slot_seq (q_slots q ! i) in case seq_diff seq (pos + 1) of
       Inl e \<Rightarrow> Some (Inl e)
     | Inr d \<Rightarrow> if d = 0 then
           (if q_tail q = pos then Some (Inr (Some (slot_data (q_slots q ! i)), q\<lparr>q_tail := pos + 1,
              q_slots := (q_slots q)[i := (q_slots q ! i)\<lparr>slot_seq := pos + of_nat (capacity q)\<rparr>]\<rparr>))
            else loop q (q_tail q))
         else if d < 0 then Some (Inr (None, q)) else loop q (q_tail q)) = Some r"
  let ?s = "slot_seq (slot_at q pos)"
  have again: "rtranclp solo_step (q, t) (pop_end q r)"
    if "loop q (q_tail q) = Some r" and "solo_step (q, t) (q, Pop_seq (q_tail q))" for t
    using that(2) IH [OF that(1)] by (rule converse_rtranclp_into_rtranclp)
  have load: "solo_step (q, Pop_load) (q, Pop_seq (q_tail q))"
    by (rule solo_stepI [OF pop_load]) simp
  note body = body [unfolded Let_def, folded slot_at_def]
  show "rtranclp solo_step (q, Pop_seq pos) (pop_end q r)"
  proof (cases "seq_diff ?s (pos + 1)")
    case (Inl e)
    with body have "r = Inl e" by simp
    then show ?thesis
      using solo_stepI [OF pop_overflow [OF order_refl Inl]] by (simp add: r_into_rtranclp)
  next
    case (Inr d)
    consider (claim) "d = 0" "q_tail q = pos" | (retry) "d = 0" "q_tail q \<noteq> pos" | (none) "d < 0" | (behind) "0 < d"
      by linarith
    then show ?thesis
    proof cases
      case claim
      with body Inr have r: "r = Inr (Some (slot_data (slot_at q pos)), q\<lparr>q_tail := pos + 1,
          q_slots := (q_slots q)[slot_index q pos := (slot_at q pos)\<lparr>slot_seq := pos + of_nat (capacity q)\<rparr>]\<rparr>)"
        by simp
      have "solo_step (q, Pop_seq pos) (q, Pop_cas pos)"
        by (rule solo_stepI [OF pop_ready [OF order_refl]]) (simp add: Inr claim(1))
      from this solo_claim_pop [OF claim(2)] show ?thesis
        unfolding r pop_end.simps by (rule converse_rtranclp_into_rtranclp)
    next
      case retry
      with body Inr have "loop q (q_tail q) = Some r" by simp
      then have "rtranclp solo_step (q, Pop_cas pos) (pop_end q r)"
        by (rule again) (rule solo_stepI [OF pop_retry], simp)
      moreover have "solo_step (q, Pop_seq pos) (q, Pop_cas pos)"
        by (rule solo_stepI [OF pop_ready [OF order_refl]]) (simp add: Inr retry(1))
      ultimately show ?thesis by (rule converse_rtranclp_into_rtranclp [rotated])
    next
      case none
      with body Inr have "r = Inr (None, q)" by simp
      then show ?thesis
        using solo_stepI [OF pop_empty [OF order_refl Inr none]] by (simp add: r_into_rtranclp)
    next
      case behind
      with body Inr have "loop q (q_tail q) = Some r" by simp
      from solo_stepI [OF pop_behind [OF order_refl Inr behind]] again [OF this load] show ?thesis
        by (rule converse_rtranclp_into_rtranclp)
    qed
  qed
qed

text \<open>
  Property C8: the two models of the queue agree. Whenever \<^verbatim>\<open>try_push\<close> or \<^verbatim>\<open>try_pop\<close>, as the function on
  the whole queue, returns, one thread that runs the call access by access with nobody in between can
  end with the same answer and leave the same queue; and a fault of the function is a fault of the thread.
\<close>

theorem calls_are_thread_runs:
  "(try_push q v = Some r \<longrightarrow> rtranclp solo_step (q, Idle) (push_end q r)) \<and>
   (try_pop q = Some r' \<longrightarrow> rtranclp solo_step (q, Idle) (pop_end q r'))"
proof (intro conjI impI)
  have "solo_step (q, Idle) (q, Push_load v)" "solo_step (q, Push_load v) (q, Push_seq v (q_head q))"
    by (rule solo_stepI [OF call_push], rule solo_stepI [OF push_load], simp)
  moreover assume "try_push q v = Some r"
  then have "rtranclp solo_step (q, Push_seq v (q_head q)) (push_end q r)"
    unfolding try_push_def by (rule solo_push_loop)
  ultimately show "rtranclp solo_step (q, Idle) (push_end q r)"
    by (meson converse_rtranclp_into_rtranclp)
next
  have "solo_step (q, Idle) (q, Pop_load)" "solo_step (q, Pop_load) (q, Pop_seq (q_tail q))"
    by (rule solo_stepI [OF call_pop], rule solo_stepI [OF pop_load], simp)
  moreover assume "try_pop q = Some r'"
  then have "rtranclp solo_step (q, Pop_seq (q_tail q)) (pop_end q r')"
    unfolding try_pop_def by (rule solo_pop_loop)
  ultimately show "rtranclp solo_step (q, Idle) (pop_end q r')"
    by (meson converse_rtranclp_into_rtranclp)
qed

theorem calls_are_thread_runs_witness:
  "\<exists>q'. rtranclp solo_step (MPMCQueue_new 2 (0::nat), Idle) (q', Push_return True) \<and> queue_content q' = [7]"
proof -
  have ok: "queue_ok (MPMCQueue_new 2 (0::nat))" "queue_content (MPMCQueue_new 2 (0::nat)) = []"
    "capacity (MPMCQueue_new 2 (0::nat)) = 2"
    using queue_ok_new [OF good_capacity_2, of "0::nat"] by simp_all
  moreover have "0 < queue_room (MPMCQueue_new 2 (0::nat))"
    using new_room [OF good_capacity_2, of "0::nat"] by simp
  ultimately obtain q' where "try_push (MPMCQueue_new 2 (0::nat)) 7 = Some (Inr (True, q'))" "queue_content q' = [7]"
    using mpmc.push_accepts [OF ok(1), of "7::nat"] by auto
  with calls_are_thread_runs [of "MPMCQueue_new 2 (0::nat)" 7 "Inr (True, q')"] show ?thesis by auto
qed

section \<open>The hot parameters\<close>

text \<open>The cells that the copy up to \<^verbatim>\<open>version\<close> consists of, and the sequence lock of an engine.\<close>

definition params_cells :: "HotParams \<Rightarrow> u64 list" where
  "params_cells p =
     [raw_value (hp_max_order_value p), raw_value (hp_max_position_value p),
      raw_value (hp_max_total_position_value p), raw_value (hp_min_available_capital p),
      ucast (hp_max_orders_per_second p)]"

definition engine_lock :: "(nat \<Rightarrow> u64 reader) \<Rightarrow> u64 list list \<Rightarrow> RiskEngine \<Rightarrow> u64 seqlock" where
  "engine_lock readers history e =
     \<lparr>sl_version = hp_version (re_hot_params e), sl_cells = params_cells (re_hot_params e), sl_writer = W_idle,
      sl_readers = readers, sl_history = history\<rparr>"

text \<open>The writer copies the cells that are left, in any order; here one after another.\<close>

lemma writer_copies:
  assumes "length xs = n" and "length cells = n" and "k \<le> n" and "take k cells = take k xs"
  shows "rtranclp (seq_step ordered retries n) (s\<lparr>sl_cells := cells, sl_writer := W_copy xs {k..<n}\<rparr>)
    (s\<lparr>sl_cells := xs, sl_writer := W_copy xs {}\<rparr>)"
  using assms(2-4)
proof (induction "n - k" arbitrary: k cells)
  case 0
  then show ?case using assms(1) by simp
next
  case (Suc d)
  let ?s = "s\<lparr>sl_cells := cells, sl_writer := W_copy xs {k..<n}\<rparr>"
  have k: "k < n" using Suc.hyps(2) by simp
  have "seq_step ordered retries n ?s (?s\<lparr>sl_cells := (sl_cells ?s)[k := xs ! k], sl_writer := W_copy xs ({k..<n} - {k})\<rparr>)"
    by (rule w_copy) (use k in simp_all)
  moreover have "{k..<n} - {k} = {Suc k..<n}" by auto
  ultimately have "seq_step ordered retries n ?s (s\<lparr>sl_cells := cells[k := xs ! k], sl_writer := W_copy xs {Suc k..<n}\<rparr>)"
    by simp
  moreover have "take (Suc k) (cells[k := xs ! k]) = take (Suc k) xs"
    using k assms(1) Suc.prems by (simp add: take_Suc_conv_app_nth)
  ultimately show ?case
    using Suc.hyps(1) [of "Suc k" "cells[k := xs ! k]"] Suc.hyps(2) Suc.prems k
    by (auto intro: converse_rtranclp_into_rtranclp)
qed

lemma writer_run:
  assumes "length xs = n" and "length (sl_cells s) = n" and "sl_writer s = W_idle"
  shows "rtranclp (seq_step ordered retries n) s
    (s\<lparr>sl_cells := xs, sl_version := sl_version s + 2, sl_writer := W_idle, sl_history := sl_history s @ [xs]\<rparr>)"
proof -
  let ?s1 = "s\<lparr>sl_writer := W_begin xs {..<n}\<rparr>"
  let ?s2 = "?s1\<lparr>sl_version := sl_version ?s1 + 1, sl_writer := W_copy xs {..<n}\<rparr>"
  let ?s3 = "?s2\<lparr>sl_cells := xs, sl_writer := W_copy xs {}\<rparr>"
  let ?s4 = "?s3\<lparr>sl_version := sl_version ?s3 + 1, sl_writer := W_idle, sl_history := sl_history ?s3 @ [xs]\<rparr>"
  have "seq_step ordered retries n s ?s1"
    by (rule w_start) (use assms in simp_all)
  moreover have "seq_step ordered retries n ?s1 ?s2"
    by (rule w_odd) simp
  moreover have "rtranclp (seq_step ordered retries n) ?s2 ?s3"
    using writer_copies [OF assms(1,2), of 0 ordered retries ?s2] assms(2) by (simp add: atLeast0LessThan)
  moreover have "seq_step ordered retries n ?s3 ?s4"
    by (rule w_even) simp
  ultimately have "rtranclp (seq_step ordered retries n) s ?s4"
    by (meson converse_rtranclp_into_rtranclp r_into_rtranclp rtranclp_trans)
  moreover have "sl_version s + 1 + 1 = sl_version s + 2" by simp
  ultimately show ?thesis by simp
qed



end
