(* ===== verification/Order_Id.thy ===== *)
theory Order_Id
  imports Core_Types
begin

text \<open>
  \<^verbatim>\<open>trading/order_id_generator.hpp\<close>: the order ids. \<^verbatim>\<open>fetch_add\<close> is one atomic step, so the ids that any
  number of threads draw are those of a sequence of calls, in some order. The locale \<open>id_source\<close> is
  what a user of such a generator relies on.
\<close>

record OrderIDGenerator =
  current_id :: u64

definition OrderIDGenerator_new :: OrderIDGenerator where
  "OrderIDGenerator_new = \<lparr>current_id = 1\<rparr>"

definition OrderIDGenerator_start :: "u64 \<Rightarrow> OrderIDGenerator" where
  "OrderIDGenerator_start start_id = \<lparr>current_id = start_id\<rparr>"

definition generate :: "OrderIDGenerator \<Rightarrow> u64 \<times> OrderIDGenerator" where
  "generate g = (current_id g, g\<lparr>current_id := current_id g + 1\<rparr>)"

definition getCurrentID :: "OrderIDGenerator \<Rightarrow> u64" where
  "getCurrentID g = current_id g"

section \<open>Sequences of calls\<close>

fun draws :: "('s \<Rightarrow> 'i \<times> 's) \<Rightarrow> nat \<Rightarrow> 's \<Rightarrow> 'i list \<times> 's" where
  "draws draw 0 s = ([], s)"
| "draws draw (Suc n) s = (case draw s of (i, s') \<Rightarrow> apfst (Cons i) (draws draw n s'))"

text \<open>A source whose next id has the number \<open>pos\<close>, as long as \<open>pos\<close> is below \<open>bound\<close>.\<close>

locale id_source =
  fixes draw :: "'s \<Rightarrow> 'i \<times> 's"
    and key :: "'i \<Rightarrow> nat"
    and pos :: "'s \<Rightarrow> nat"
    and bound :: nat
  assumes draw_key: "key (fst (draw s)) = pos s"
    and draw_pos: "pos s < bound \<Longrightarrow> pos (snd (draw s)) = Suc (pos s)"

context id_source begin

lemma draws_keys: "pos s + n \<le> bound \<Longrightarrow> map key (fst (draws draw n s)) = [pos s..<pos s + n]"
proof (induction n arbitrary: s)
  case (Suc n)
  then have "map key (fst (draws draw n (snd (draw s)))) = [Suc (pos s)..<Suc (pos s) + n]"
    using draw_pos [of s] by simp
  moreover have "[pos s..<pos s + Suc n] = pos s # [Suc (pos s)..<Suc (pos s) + n]"
    by (simp add: upt_conv_Cons del: upt_Suc)
  ultimately show ?case
    using draw_key [of s]
    by (cases "draw s") (simp del: upt_Suc add_Suc_right add_Suc)
qed simp

lemma draws_distinct: "pos s + n \<le> bound \<Longrightarrow> distinct (fst (draws draw n s))"
  using draws_keys [of s n] distinct_upt [of "pos s" "pos s + n"] by (metis distinct_map)

end

interpretation order_ids: id_source generate unat "\<lambda>g. unat (current_id g)" "2 ^ 64 - 1"
proof
  fix g :: OrderIDGenerator
  show "unat (fst (generate g)) = unat (current_id g)"
    by (simp add: generate_def)
  assume "unat (current_id g) < 2 ^ 64 - 1"
  then show "unat (current_id (snd (generate g))) = Suc (unat (current_id g))"
    by (simp add: generate_def unat_Suc_small)
qed

section \<open>Properties\<close>

text \<open>
  A generator from its default constructor hands out \<open>1, 2, \<dots>, n\<close>, so the ids are distinct
  and none is the reserved \<open>0\<close>, for every number of calls that fits 64 bits.
\<close>

theorem order_ids_unique:
  assumes "n < 2 ^ 64 - 1"
  shows "map unat (fst (draws generate n OrderIDGenerator_new)) = [1..<Suc n] \<and>
    distinct (fst (draws generate n OrderIDGenerator_new)) \<and>
    0 \<notin> set (fst (draws generate n OrderIDGenerator_new))"
proof -
  have keys: "map unat (fst (draws generate n OrderIDGenerator_new)) = [1..<Suc n]"
    using order_ids.draws_keys [of OrderIDGenerator_new n] assms
    by (simp add: OrderIDGenerator_new_def del: upt_Suc)
  moreover have "distinct (fst (draws generate n OrderIDGenerator_new))"
    using assms by (intro order_ids.draws_distinct) (simp add: OrderIDGenerator_new_def)
  moreover have "0 \<notin> set (fst (draws generate n OrderIDGenerator_new))"
  proof
    assume "0 \<in> set (fst (draws generate n OrderIDGenerator_new))"
    then have "unat (0 :: u64) \<in> set (map unat (fst (draws generate n OrderIDGenerator_new)))"
      unfolding set_map by (rule imageI)
    then show False unfolding keys by (simp del: upt_Suc)
  qed
  ultimately show ?thesis by blast
qed

theorem order_ids_unique_witness:
  "map unat (fst (draws generate 3 OrderIDGenerator_new)) = [1, 2, 3]"
  using order_ids_unique [of 3] by (simp add: upt_rec)

text \<open>
  At the end of the range the counter wraps silently, and the reserved id \<open>0\<close> is handed
  out, after which the ids repeat.
\<close>

theorem order_ids_wrap:
  "fst (draws generate 3 (OrderIDGenerator_start (- 1))) = [- 1, 0, 1] \<and>
   getCurrentID (snd (draws generate 3 (OrderIDGenerator_start (- 1)))) = 2"
  by (simp add: numeral_3_eq_3 generate_def OrderIDGenerator_start_def getCurrentID_def)

end
