(* ===== verification/Grid_Strategy.thy ===== *)
theory Grid_Strategy
  imports Order_Id
begin

text \<open>
  \<^verbatim>\<open>strategies/grid_strategy.hpp\<close>: the grid trading strategy, with its constructor and all its
  callbacks. Doubles are IEEE binary64 with every operation rounded (\<^verbatim>\<open>Binary64\<close>). The strategy context
  is in the closed library: its three operations that the strategy calls are the record \<open>context_ops\<close>,
  on a state of any type.
\<close>

section \<open>The context\<close>

record 'c context_ops =
  getMidPrice :: "'c \<Rightarrow> u32 \<Rightarrow> Decimal option"
  submitOrder :: "'c \<Rightarrow> OrderRequest \<Rightarrow> u64 \<times> 'c"     \<comment> \<open>the order id, 0 if rejected\<close>
  cancelOrder :: "'c \<Rightarrow> u64 \<Rightarrow> bool \<times> 'c"

section \<open>State\<close>

record GridConfig =
  gc_grid_low :: Double
  gc_grid_high :: Double
  gc_grid_levels :: int        \<comment> \<open>a C++ \<^verbatim>\<open>int\<close>\<close>
  gc_quantity :: Double
  gc_symbol_id :: u32

definition d_tenth :: Double where   \<comment> \<open>the literal \<^verbatim>\<open>0.1\<close>\<close>
  "d_tenth = rnd (1 / 10)"

definition GridConfig_init :: GridConfig where
  "GridConfig_init =
     \<lparr>gc_grid_low = Fin 90, gc_grid_high = Fin 110, gc_grid_levels = 10,
      gc_quantity = rnd (1 / 100), gc_symbol_id = 1\<rparr>"

record GridLevel =
  gl_price :: Decimal
  gl_buy_order_id :: u64
  gl_sell_order_id :: u64

record GridStrategy =
  gs_cfg :: GridConfig
  gs_levels :: "GridLevel list"
  gs_initialized :: bool
  gs_ticks_processed :: u64
  gs_fills_processed :: u64

section \<open>Constructor and lifecycle\<close>

text \<open>The loop of the constructor over the remaining indices \<open>i\<close>.\<close>

fun push_levels :: "Double \<Rightarrow> Double \<Rightarrow> int list \<Rightarrow> GridLevel list outcome" where
  "push_levels low spacing [] = Inr []"
| "push_levels low spacing (i # is) =
     bind_outcome (toDecimal (d_add low (d_mul spacing (d_of_int i)))) (\<lambda>p.
       bind_outcome (push_levels low spacing is) (\<lambda>ls.
         Inr (\<lparr>gl_price = p, gl_buy_order_id = 0, gl_sell_order_id = 0\<rparr> # ls)))"

text \<open>
  \<^verbatim>\<open>reserve\<close> throws when asked for more than \<^verbatim>\<open>max_size()\<close> levels of 24 bytes; a negative count becomes
  such a number in the cast to \<^verbatim>\<open>size_t\<close>.
\<close>

definition reserve_limit :: nat where
  "reserve_limit = (2 ^ 63 - 1) div 24"

definition GridStrategy_new :: "GridConfig \<Rightarrow> GridStrategy outcome" where
  "GridStrategy_new cfg =
     (let spacing = d_div (d_sub (gc_grid_high cfg) (gc_grid_low cfg)) (d_of_int (gc_grid_levels cfg)) in
      if gc_grid_levels cfg + 1 \<ge> 2 ^ 31 then Inl UB_signed_overflow
      else if unat (word_of_int (gc_grid_levels cfg + 1) :: u64) > reserve_limit then Inl Length_error
      else bind_outcome (push_levels (gc_grid_low cfg) spacing [0..gc_grid_levels cfg]) (\<lambda>ls.
        Inr \<lparr>gs_cfg = cfg, gs_levels = ls, gs_initialized = False,
             gs_ticks_processed = 0, gs_fills_processed = 0\<rparr>))"

definition strategy_name :: string where
  "strategy_name = ''GridStrategy''"

definition strategy_symbols :: "GridStrategy \<Rightarrow> u32 list" where
  "strategy_symbols st = [gc_symbol_id (gs_cfg st)]"

definition onLoad :: "GridStrategy \<Rightarrow> GridStrategy" where
  "onLoad st = st\<lparr>gs_initialized := True\<rparr>"

definition onUnload :: "GridStrategy \<Rightarrow> GridStrategy" where
  "onUnload st = st\<lparr>gs_initialized := False\<rparr>"

text \<open>The accessors.\<close>

definition strategy_config :: "GridStrategy \<Rightarrow> GridConfig" where
  "strategy_config st = gs_cfg st"

definition tickCount :: "GridStrategy \<Rightarrow> u64" where
  "tickCount st = gs_ticks_processed st"

definition fillCount :: "GridStrategy \<Rightarrow> u64" where
  "fillCount st = gs_fills_processed st"

definition isInitialized :: "GridStrategy \<Rightarrow> bool" where
  "isInitialized st = gs_initialized st"

definition strategy_levels :: "GridStrategy \<Rightarrow> GridLevel list" where
  "strategy_levels st = gs_levels st"

section \<open>Placing orders\<close>

definition roundPrice :: "Decimal \<Rightarrow> nat \<Rightarrow> Decimal outcome" where
  "roundPrice price decimals =
     (let v = toDouble price; scale = rnd (10 ^ decimals)
      in toDecimal (d_div (d_round (d_mul v scale)) scale))"

definition grid_order :: "GridConfig \<Rightarrow> OrderSide \<Rightarrow> Decimal \<Rightarrow> OrderRequest outcome" where
  "grid_order cfg side price =
     bind_outcome (roundPrice price 1) (\<lambda>p.
     bind_outcome (toDecimal (gc_quantity cfg)) (\<lambda>q.
       Inr (OrderRequest_init\<lparr>req_symbol_id := gc_symbol_id cfg, req_price := p, req_quantity := q,
         req_side := side, req_type := LIMIT, req_tif := GTC\<rparr>)))"

definition placeBuyAt ::
  "'c context_ops \<Rightarrow> nat \<Rightarrow> Decimal \<Rightarrow> GridStrategy \<Rightarrow> 'c \<Rightarrow> (u64 \<times> GridStrategy \<times> 'c) outcome" where
  "placeBuyAt ops i price st ctx =
     bind_outcome (grid_order (gs_cfg st) BUY price) (\<lambda>order.
       case submitOrder ops ctx order of (oid, ctx') \<Rightarrow>
         if oid \<noteq> 0 then
           (if i < length (gs_levels st) then
              Inr (oid, st\<lparr>gs_levels := (gs_levels st)[i := (gs_levels st ! i)\<lparr>gl_buy_order_id := oid\<rparr>]\<rparr>, ctx')
            else Inl UB_out_of_bounds)
         else Inr (oid, st, ctx'))"

definition placeSellAt ::
  "'c context_ops \<Rightarrow> nat \<Rightarrow> Decimal \<Rightarrow> GridStrategy \<Rightarrow> 'c \<Rightarrow> (u64 \<times> GridStrategy \<times> 'c) outcome" where
  "placeSellAt ops i price st ctx =
     bind_outcome (grid_order (gs_cfg st) SELL price) (\<lambda>order.
       case submitOrder ops ctx order of (oid, ctx') \<Rightarrow>
         if oid \<noteq> 0 then
           (if i < length (gs_levels st) then
              Inr (oid, st\<lparr>gs_levels := (gs_levels st)[i := (gs_levels st ! i)\<lparr>gl_sell_order_id := oid\<rparr>]\<rparr>, ctx')
            else Inl UB_out_of_bounds)
         else Inr (oid, st, ctx'))"

definition placeBuy :: "'c context_ops \<Rightarrow> nat \<Rightarrow> GridStrategy \<Rightarrow> 'c \<Rightarrow> (u64 \<times> GridStrategy \<times> 'c) outcome" where
  "placeBuy ops i st ctx =
     (if i < length (gs_levels st) then placeBuyAt ops i (gl_price (gs_levels st ! i)) st ctx
      else Inl UB_out_of_bounds)"

definition placeSell :: "'c context_ops \<Rightarrow> nat \<Rightarrow> GridStrategy \<Rightarrow> 'c \<Rightarrow> (u64 \<times> GridStrategy \<times> 'c) outcome" where
  "placeSell ops i st ctx =
     (if i < length (gs_levels st) then placeSellAt ops i (gl_price (gs_levels st ! i)) st ctx
      else Inl UB_out_of_bounds)"

definition count_tick :: "u64 \<Rightarrow> GridStrategy \<Rightarrow> GridStrategy" where
  "count_tick oid st = (if oid \<noteq> 0 then st\<lparr>gs_ticks_processed := gs_ticks_processed st + 1\<rparr> else st)"

section \<open>Callbacks\<close>

text \<open>
  The two branches of the loop body of \<^verbatim>\<open>onTick\<close>, for the level with index \<open>i\<close> and the price \<open>level\<close>;
  \<open>b\<close> and \<open>s\<close> are \<^verbatim>\<open>buy_offset\<close> and \<^verbatim>\<open>sell_offset\<close>.
\<close>

definition tick_buy ::
  "'c context_ops \<Rightarrow> Double \<Rightarrow> nat \<Rightarrow> Double \<Rightarrow> int \<Rightarrow> GridStrategy \<Rightarrow> 'c \<Rightarrow> (int \<times> GridStrategy \<times> 'c) outcome" where
  "tick_buy ops mid i level b st ctx =
     (if d_less level mid \<and> gl_buy_order_id (gs_levels st ! i) = 0 then
        let aggressive = d_add (d_add (d_max level mid) (Fin (1 / 2))) (d_mul (d_of_int b) d_tenth) in
        bind_outcome (toDecimal aggressive) (\<lambda>p.
        bind_outcome (placeBuyAt ops i p st ctx) (\<lambda>(oid, st', ctx').
          Inr (b + 1, count_tick oid st', ctx')))
      else Inr (b, st, ctx))"

definition tick_sell ::
  "'c context_ops \<Rightarrow> Double \<Rightarrow> nat \<Rightarrow> Double \<Rightarrow> int \<Rightarrow> GridStrategy \<Rightarrow> 'c \<Rightarrow> (int \<times> GridStrategy \<times> 'c) outcome" where
  "tick_sell ops mid i level s st ctx =
     (if d_less mid level \<and> gl_sell_order_id (gs_levels st ! i) = 0 then
        let aggressive = d_sub (d_sub (d_min level mid) (Fin (1 / 2))) (d_mul (d_of_int s) d_tenth) in
        bind_outcome (toDecimal aggressive) (\<lambda>p.
        bind_outcome (placeSellAt ops i p st ctx) (\<lambda>(oid, st', ctx').
          Inr (s + 1, count_tick oid st', ctx')))
      else Inr (s, st, ctx))"

fun tick_levels ::
  "'c context_ops \<Rightarrow> Double \<Rightarrow> nat list \<Rightarrow> int \<Rightarrow> int \<Rightarrow> GridStrategy \<Rightarrow> 'c \<Rightarrow> (GridStrategy \<times> 'c) outcome" where
  "tick_levels ops mid [] b s st ctx = Inr (st, ctx)"
| "tick_levels ops mid (i # is) b s st ctx =
     (let level = toDouble (gl_price (gs_levels st ! i)) in
      bind_outcome (tick_buy ops mid i level b st ctx) (\<lambda>(b', st', ctx').
      bind_outcome (tick_sell ops mid i level s st' ctx') (\<lambda>(s', st'', ctx'').
        tick_levels ops mid is b' s' st'' ctx'')))"

definition onTick :: "'c context_ops \<Rightarrow> Tick \<Rightarrow> GridStrategy \<Rightarrow> 'c \<Rightarrow> (GridStrategy \<times> 'c) outcome" where
  "onTick ops tick st ctx =
     (if \<not> gs_initialized st then Inr (st, ctx)
      else case getMidPrice ops ctx (gc_symbol_id (gs_cfg st)) of
        None \<Rightarrow> Inr (st, ctx)
      | Some mid \<Rightarrow> tick_levels ops (toDouble mid) [0..<length (gs_levels st)] 0 0 st ctx)"

text \<open>The body of the loop of \<^verbatim>\<open>onFill\<close> where the ids match, for a buy and for a sell at level \<open>i\<close>.\<close>

definition fill_buy ::
  "'c context_ops \<Rightarrow> Double \<Rightarrow> nat \<Rightarrow> GridStrategy \<Rightarrow> 'c \<Rightarrow> (GridStrategy \<times> 'c) outcome" where
  "fill_buy ops mid i st ctx =
     (let st1 = st\<lparr>gs_levels := (gs_levels st)[i := (gs_levels st ! i)\<lparr>gl_buy_order_id := 0\<rparr>],
                   gs_fills_processed := gs_fills_processed st + 1\<rparr> in
      if i + 1 < length (gs_levels st1) then
        let price = toDouble (gl_price (gs_levels st1 ! (i + 1)));
            price' = (if d_less (Fin 0) mid then d_min price mid else price) in
        bind_outcome (toDecimal price') (\<lambda>p.
        bind_outcome (placeSellAt ops (i + 1) p st1 ctx) (\<lambda>(oid, st2, ctx'). Inr (st2, ctx')))
      else Inr (st1, ctx))"

definition fill_sell ::
  "'c context_ops \<Rightarrow> Double \<Rightarrow> nat \<Rightarrow> GridStrategy \<Rightarrow> 'c \<Rightarrow> (GridStrategy \<times> 'c) outcome" where
  "fill_sell ops mid i st ctx =
     (let st1 = st\<lparr>gs_levels := (gs_levels st)[i := (gs_levels st ! i)\<lparr>gl_sell_order_id := 0\<rparr>],
                   gs_fills_processed := gs_fills_processed st + 1\<rparr> in
      if i > 0 then
        let price = toDouble (gl_price (gs_levels st1 ! (i - 1)));
            price' = (if d_less (Fin 0) mid then d_max price mid else price) in
        bind_outcome (toDecimal price') (\<lambda>p.
        bind_outcome (placeBuyAt ops (i - 1) p st1 ctx) (\<lambda>(oid, st2, ctx'). Inr (st2, ctx')))
      else Inr (st1, ctx))"

fun fill_levels ::
  "'c context_ops \<Rightarrow> Double \<Rightarrow> Fill \<Rightarrow> nat list \<Rightarrow> GridStrategy \<Rightarrow> 'c \<Rightarrow> (GridStrategy \<times> 'c) outcome" where
  "fill_levels ops mid fill [] st ctx = Inr (st, ctx)"
| "fill_levels ops mid fill (i # is) st ctx =
     (if fill_order_id fill \<noteq> 0 \<and> fill_order_id fill = gl_buy_order_id (gs_levels st ! i)
      then fill_buy ops mid i st ctx
      else if fill_order_id fill \<noteq> 0 \<and> fill_order_id fill = gl_sell_order_id (gs_levels st ! i)
      then fill_sell ops mid i st ctx
      else fill_levels ops mid fill is st ctx)"

definition onFill :: "'c context_ops \<Rightarrow> Fill \<Rightarrow> GridStrategy \<Rightarrow> 'c \<Rightarrow> (GridStrategy \<times> 'c) outcome" where
  "onFill ops fill st ctx =
     (let mid = (case getMidPrice ops ctx (gc_symbol_id (gs_cfg st)) of None \<Rightarrow> Fin 0 | Some m \<Rightarrow> toDouble m)
      in fill_levels ops mid fill [0..<length (gs_levels st)] st ctx)"

text \<open>The body of the loop of \<^verbatim>\<open>onTimer\<close>; the results of \<^verbatim>\<open>cancelOrder\<close> are not used.\<close>

definition timer_level :: "'c context_ops \<Rightarrow> Double \<Rightarrow> nat \<Rightarrow> GridStrategy \<times> 'c \<Rightarrow> GridStrategy \<times> 'c" where
  "timer_level ops mid i = (\<lambda>(st, ctx).
     let l = gs_levels st ! i;
         price = toDouble (gl_price l);
         (l1, ctx1) =
           (if d_less mid price \<and> gl_buy_order_id l \<noteq> 0
            then (l\<lparr>gl_buy_order_id := 0\<rparr>, snd (cancelOrder ops ctx (gl_buy_order_id l))) else (l, ctx));
         (l2, ctx2) =
           (if d_less price mid \<and> gl_sell_order_id l1 \<noteq> 0
            then (l1\<lparr>gl_sell_order_id := 0\<rparr>, snd (cancelOrder ops ctx1 (gl_sell_order_id l1))) else (l1, ctx1))
     in (st\<lparr>gs_levels := (gs_levels st)[i := l2]\<rparr>, ctx2))"

definition onTimer :: "'c context_ops \<Rightarrow> u64 \<Rightarrow> GridStrategy \<Rightarrow> 'c \<Rightarrow> GridStrategy \<times> 'c" where
  "onTimer ops ts st ctx =
     (if \<not> gs_initialized st then (st, ctx)
      else case getMidPrice ops ctx (gc_symbol_id (gs_cfg st)) of
        None \<Rightarrow> (st, ctx)
      | Some mid \<Rightarrow> fold (timer_level ops (toDouble mid)) [0..<length (gs_levels st)] (st, ctx))"

end
