(* ===== verification/Grid_Properties.thy ===== *)
theory Grid_Properties
  imports Grid_Strategy
begin

text \<open>
  Properties of the grid strategy (\<^verbatim>\<open>Grid_Strategy\<close>): what the constructor builds and when it fails, the
  orders one tick places as a list computed beforehand, the invariant on the order ids of the levels,
  and what fills and timers do with them.
\<close>

section \<open>Order ids of the levels\<close>

definition order_id :: "GridStrategy \<Rightarrow> nat \<Rightarrow> OrderSide \<Rightarrow> u64" where
  "order_id st i side =
     (case side of BUY \<Rightarrow> gl_buy_order_id (gs_levels st ! i) | SELL \<Rightarrow> gl_sell_order_id (gs_levels st ! i))"

definition set_id :: "nat \<Rightarrow> OrderSide \<Rightarrow> u64 \<Rightarrow> GridStrategy \<Rightarrow> GridStrategy" where
  "set_id i side v st =
     st\<lparr>gs_levels := (gs_levels st)[i :=
       (case side of
          BUY \<Rightarrow> (gs_levels st ! i)\<lparr>gl_buy_order_id := v\<rparr>
        | SELL \<Rightarrow> (gs_levels st ! i)\<lparr>gl_sell_order_id := v\<rparr>)]\<rparr>"

definition level_count :: "GridStrategy \<Rightarrow> nat" where
  "level_count st = length (gs_levels st)"

definition grid_price :: "GridStrategy \<Rightarrow> nat \<Rightarrow> Double" where
  "grid_price st i = toDouble (gl_price (gs_levels st ! i))"

lemma set_id_simps [simp]:
  "level_count (set_id i side v st) = level_count st"
  "gs_cfg (set_id i side v st) = gs_cfg st"
  "gs_initialized (set_id i side v st) = gs_initialized st"
  "gs_fills_processed (set_id i side v st) = gs_fills_processed st"
  "gs_ticks_processed (set_id i side v st) = gs_ticks_processed st"
  by (simp_all add: set_id_def level_count_def)

lemma order_id_set_id [simp]:
  "i < level_count st \<Longrightarrow>
     order_id (set_id i side v st) j side' = (if j = i \<and> side' = side then v else order_id st j side')"
  by (auto simp: order_id_def set_id_def level_count_def nth_list_update split: OrderSide.splits)

lemma grid_price_set_id [simp]: "grid_price (set_id i side v st) j = grid_price st j"
proof (cases "i < level_count st \<and> j = i")
  case True
  then show ?thesis
    by (auto simp: grid_price_def set_id_def level_count_def split: OrderSide.splits)
next
  case False
  then show ?thesis
    by (auto simp: grid_price_def set_id_def level_count_def nth_list_update list_update_beyond not_less
        split: OrderSide.splits)
qed

lemma counters_simps [simp]:
  "order_id (st\<lparr>gs_ticks_processed := n\<rparr>) = order_id st" "level_count (st\<lparr>gs_ticks_processed := n\<rparr>) = level_count st"
  "order_id (st\<lparr>gs_fills_processed := n\<rparr>) = order_id st" "level_count (st\<lparr>gs_fills_processed := n\<rparr>) = level_count st"
  "order_id (count_tick oid st) = order_id st" "level_count (count_tick oid st) = level_count st"
  "gs_levels (count_tick oid st) = gs_levels st" "gs_cfg (count_tick oid st) = gs_cfg st"
  by (simp_all add: fun_eq_iff order_id_def level_count_def count_tick_def split: OrderSide.splits)

text \<open>Placing an order on a side, and what it does when it returns.\<close>

definition placeAt ::
  "'c context_ops \<Rightarrow> OrderSide \<Rightarrow> nat \<Rightarrow> Decimal \<Rightarrow> GridStrategy \<Rightarrow> 'c \<Rightarrow> (u64 \<times> GridStrategy \<times> 'c) outcome" where
  "placeAt ops side = (case side of BUY \<Rightarrow> placeBuyAt ops | SELL \<Rightarrow> placeSellAt ops)"

lemma placeAt_simps: "placeBuyAt ops = placeAt ops BUY" "placeSellAt ops = placeAt ops SELL"
  by (simp_all add: placeAt_def)

lemma placeAt_set_id:
  "placeAt ops side i price st ctx =
     bind_outcome (grid_order (gs_cfg st) side price) (\<lambda>order.
       case submitOrder ops ctx order of (oid, ctx') \<Rightarrow>
         if oid = 0 then Inr (0, st, ctx')
         else if i < level_count st then Inr (oid, set_id i side oid st, ctx') else Inl UB_out_of_bounds)"
  by (cases side)
    (auto simp: placeAt_def placeBuyAt_def placeSellAt_def set_id_def level_count_def split: prod.splits
      intro!: arg_cong [of _ _ "bind_outcome _"])

lemma placeAt_InrE:
  assumes "placeAt ops side i price st ctx = Inr (oid, st', ctx')"
  obtains order where "grid_order (gs_cfg st) side price = Inr order" "submitOrder ops ctx order = (oid, ctx')"
    "oid = 0 \<Longrightarrow> st' = st" "oid \<noteq> 0 \<Longrightarrow> i < level_count st \<and> st' = set_id i side oid st"
proof -
  from assms obtain order where order: "grid_order (gs_cfg st) side price = Inr order"
    and rest: "(case submitOrder ops ctx order of (oid, ctx') \<Rightarrow>
         if oid = 0 then Inr (0, st, ctx')
         else if i < level_count st then Inr (oid, set_id i side oid st, ctx') else Inl UB_out_of_bounds) =
      Inr (oid, st', ctx')"
    unfolding placeAt_set_id by (rule bind_outcome_InrE)
  obtain o' c' where "submitOrder ops ctx order = (o', c')" by force
  with rest show thesis
    by (intro that [OF order]) (auto split: if_splits)
qed

lemma placeAt_levels:
  assumes "placeAt ops side i price st ctx = Inr (oid, st', ctx')"
  shows "drop (Suc i) (gs_levels st') = drop (Suc i) (gs_levels st)" and "level_count st' = level_count st"
    and "gs_cfg st' = gs_cfg st" and "gs_initialized st' = gs_initialized st" and "grid_price st' = grid_price st"
proof -
  from assms obtain "oid = 0 \<Longrightarrow> st' = st" "oid \<noteq> 0 \<Longrightarrow> st' = set_id i side oid st"
    by (rule placeAt_InrE) blast
  then show "drop (Suc i) (gs_levels st') = drop (Suc i) (gs_levels st)" and "level_count st' = level_count st"
    and "gs_cfg st' = gs_cfg st" and "gs_initialized st' = gs_initialized st" and "grid_price st' = grid_price st"
    by (cases "oid = 0"; simp add: fun_eq_iff; simp add: set_id_def)+
qed

section \<open>One tick as a list of orders\<close>

definition buy_price :: "Double \<Rightarrow> int \<Rightarrow> Double" where
  "buy_price mid k = d_add (d_add mid (Fin (1 / 2))) (d_mul (d_of_int k) d_tenth)"

definition sell_price :: "Double \<Rightarrow> int \<Rightarrow> Double" where
  "sell_price mid k = d_sub (d_sub mid (Fin (1 / 2))) (d_mul (d_of_int k) d_tenth)"

text \<open>
  The reference: go through the levels as they are before the tick, and list a buy for every level below
  the mid price that has no buy out, a sell for every level above it that has no sell out. The price
  depends on how many orders of that side come earlier in the list, and not on the level.
\<close>

fun plan :: "Double \<Rightarrow> GridLevel list \<Rightarrow> nat \<Rightarrow> int \<Rightarrow> int \<Rightarrow> (nat \<times> OrderSide \<times> Double) list" where
  "plan mid [] i b s = []"
| "plan mid (l # ls) i b s =
     (if d_less (toDouble (gl_price l)) mid then
        (if gl_buy_order_id l = 0 then (i, BUY, buy_price mid b) # plan mid ls (Suc i) (b + 1) s
         else plan mid ls (Suc i) b s)
      else if d_less mid (toDouble (gl_price l)) \<and> gl_sell_order_id l = 0
      then (i, SELL, sell_price mid s) # plan mid ls (Suc i) b (s + 1)
      else plan mid ls (Suc i) b s)"

fun place_all ::
  "'c context_ops \<Rightarrow> (nat \<times> OrderSide \<times> Double) list \<Rightarrow> GridStrategy \<Rightarrow> 'c \<Rightarrow> (GridStrategy \<times> 'c) outcome" where
  "place_all ops [] st ctx = Inr (st, ctx)"
| "place_all ops ((i, side, price) # ps) st ctx =
     bind_outcome (toDecimal price) (\<lambda>p.
     bind_outcome (placeAt ops side i p st ctx) (\<lambda>(oid, st', ctx').
       place_all ops ps (count_tick oid st') ctx'))"

lemma bind_outcome_eqI: "(\<And>x. r = Inr x \<Longrightarrow> f x = g x) \<Longrightarrow> bind_outcome r f = bind_outcome r g"
  by (cases r) simp_all

lemma tick_levels_plan:
  assumes "drop i (gs_levels st) = ls"
  shows "tick_levels ops mid [i..<i + length ls] b s st ctx = place_all ops (plan mid ls i b s) st ctx"
  using assms
proof (induction ls arbitrary: i b s st ctx)
  case (Cons l ls)
  have l: "gs_levels st ! i = l" and ls: "drop (Suc i) (gs_levels st) = ls"
    using Cons.prems nth_via_drop [of i "gs_levels st" l ls] by (simp_all add: drop_Suc flip: tl_drop)
  have upt: "[i..<i + length (l # ls)] = i # [Suc i..<Suc i + length ls]"
    by (simp add: upt_conv_Cons del: upt_Suc)
  have rest: "drop (Suc i) (gs_levels st') = ls \<Longrightarrow>
      tick_levels ops mid [Suc i..<Suc (i + length ls)] b s st' ctx = place_all ops (plan mid ls (Suc i) b s) st' ctx"
    for b s st' ctx
    using Cons.IH [of "Suc i" st' b s ctx] by (simp del: upt_Suc)
  let ?level = "toDouble (gl_price l)"
  have placed: "drop (Suc i) (gs_levels (count_tick oid st')) = ls"
    if "placeAt ops side i p st ctx = Inr (oid, st', ctx')" for side p oid st' ctx'
    using placeAt_levels(1) [OF that] ls by simp
  consider "d_less ?level mid" "gl_buy_order_id l = 0" | "d_less ?level mid" "gl_buy_order_id l \<noteq> 0"
    | "\<not> d_less ?level mid" "d_less mid ?level" "gl_sell_order_id l = 0"
    | "\<not> d_less ?level mid" "\<not> (d_less mid ?level \<and> gl_sell_order_id l = 0)"
    by blast
  then show ?case
  proof cases
    case 1
    then have "\<not> d_less mid ?level" by (simp add: d_less_asym)
    with 1 show ?thesis
      unfolding upt
      by (auto simp: l tick_buy_def tick_sell_def Let_def d_max_def buy_price_def placeAt_simps bind_outcome_assoc
          simp del: upt_Suc intro!: bind_outcome_eqI rest placed)
  next
    case 2
    then have "\<not> d_less mid ?level" by (simp add: d_less_asym)
    with 2 rest [OF ls] show ?thesis
      unfolding upt by (simp add: l tick_buy_def tick_sell_def Let_def del: upt_Suc)
  next
    case 3
    then show ?thesis
      unfolding upt
      by (auto simp: l tick_buy_def tick_sell_def Let_def d_min_def sell_price_def placeAt_simps bind_outcome_assoc
          simp del: upt_Suc intro!: bind_outcome_eqI rest placed)
  next
    case 4
    with rest [OF ls] show ?thesis
      unfolding upt by (auto simp add: l tick_buy_def tick_sell_def Let_def simp del: upt_Suc)
  qed
qed simp

section \<open>The ids are in step with the context\<close>

text \<open>
  What the context documents about \<^verbatim>\<open>submitOrder\<close>: the result is \<open>0\<close> (rejected) or an id that was not in use
  before. \<open>used\<close> gives the ids a context has handed out.
\<close>

definition fresh_ids :: "'c context_ops \<Rightarrow> ('c \<Rightarrow> u64 set) \<Rightarrow> bool" where
  "fresh_ids ops used \<longleftrightarrow>
     (\<forall>c r oid c'. submitOrder ops c r = (oid, c') \<longrightarrow>
        used c \<subseteq> used c' \<and> (oid \<noteq> 0 \<longrightarrow> oid \<notin> used c \<and> oid \<in> used c')) \<and>
     (\<forall>c i. used c \<subseteq> used (snd (cancelOrder ops c i)))"

definition ids_ok :: "u64 set \<Rightarrow> GridStrategy \<Rightarrow> bool" where
  "ids_ok used st \<longleftrightarrow>
     (\<forall>i < level_count st. \<forall>side. order_id st i side \<noteq> 0 \<longrightarrow> order_id st i side \<in> used) \<and>
     (\<forall>i < level_count st. \<forall>j < level_count st. \<forall>side side'.
        order_id st i side = order_id st j side' \<longrightarrow> order_id st i side \<noteq> 0 \<longrightarrow> i = j \<and> side = side')"

lemma ids_ok_mono: "ids_ok used st \<Longrightarrow> used \<subseteq> used' \<Longrightarrow> ids_ok used' st"
  unfolding ids_ok_def by blast

lemma ids_ok_set_0: "ids_ok used st \<Longrightarrow> i < level_count st \<Longrightarrow> ids_ok used (set_id i side 0 st)"
  by (auto simp: ids_ok_def)

lemma ids_ok_set_fresh:
  assumes ok: "ids_ok used st" and i: "i < level_count st" and v: "v \<notin> used" "used \<subseteq> used'" "v \<in> used'"
  shows "ids_ok used' (set_id i side v st)"
proof -
  have "order_id st j s = v \<longrightarrow> v = 0" if "j < level_count st" for j s
    using ok v(1) that unfolding ids_ok_def by blast
  with ok i v(2,3) show ?thesis
    unfolding ids_ok_def by auto
qed

lemma ids_ok_counters [simp]:
  "ids_ok used (count_tick oid st) = ids_ok used st"
  "ids_ok used (st\<lparr>gs_fills_processed := n\<rparr>) = ids_ok used st"
  by (simp_all add: ids_ok_def)

lemma placeAt_ids:
  assumes fresh: "fresh_ids ops used" and ok: "ids_ok (used ctx) st"
    and place: "placeAt ops side i price st ctx = Inr (oid, st', ctx')"
  shows "ids_ok (used ctx') st'"
proof -
  obtain order where sub: "submitOrder ops ctx order = (oid, ctx')"
    and st': "oid = 0 \<Longrightarrow> st' = st" "oid \<noteq> 0 \<Longrightarrow> i < level_count st \<and> st' = set_id i side oid st"
    using place by (rule placeAt_InrE) blast
  have u: "used ctx \<subseteq> used ctx'" "oid \<noteq> 0 \<Longrightarrow> oid \<notin> used ctx \<and> oid \<in> used ctx'"
    using fresh sub by (auto simp: fresh_ids_def)
  show ?thesis
  proof (cases "oid = 0")
    case True
    with st'(1) ok u(1) show ?thesis by (simp add: ids_ok_mono)
  next
    case False
    with st'(2) ok u show ?thesis by (auto intro: ids_ok_set_fresh)
  qed
qed

lemma place_all_ids:
  assumes "fresh_ids ops used" and "ids_ok (used ctx) st" and "place_all ops ps st ctx = Inr (st', ctx')"
  shows "ids_ok (used ctx') st'"
  using assms(2,3)
proof (induction ps arbitrary: st ctx)
  case (Cons p ps)
  obtain i side price where p: "p = (i, side, price)" by (cases p)
  obtain d oid st1 ctx1 where "placeAt ops side i d st ctx = Inr (oid, st1, ctx1)"
    and rest: "place_all ops ps (count_tick oid st1) ctx1 = Inr (st', ctx')"
    using Cons.prems(2) by (auto simp: p bind_outcome_Inr_iff)
  from placeAt_ids [OF assms(1) Cons.prems(1) this(1)]
  show ?case by (intro Cons.IH [OF _ rest]) simp
qed simp

section \<open>Fills\<close>

definition other_side :: "OrderSide \<Rightarrow> OrderSide" where
  "other_side side = (case side of BUY \<Rightarrow> SELL | SELL \<Rightarrow> BUY)"

text \<open>The level that gets the counter-order of a fill on \<open>side\<close> at level \<open>i\<close>, if there is one.\<close>

definition neighbour :: "OrderSide \<Rightarrow> nat \<Rightarrow> nat \<Rightarrow> nat option" where
  "neighbour side n i =
     (case side of BUY \<Rightarrow> if i + 1 < n then Some (i + 1) else None | SELL \<Rightarrow> if i > 0 then Some (i - 1) else None)"

definition counter_price :: "OrderSide \<Rightarrow> Double \<Rightarrow> Double \<Rightarrow> Double" where
  "counter_price side mid price =
     (if d_less (Fin 0) mid then (case side of BUY \<Rightarrow> d_min price mid | SELL \<Rightarrow> d_max price mid) else price)"

definition fill_at ::
  "'c context_ops \<Rightarrow> OrderSide \<Rightarrow> Double \<Rightarrow> nat \<Rightarrow> GridStrategy \<Rightarrow> 'c \<Rightarrow> (GridStrategy \<times> 'c) outcome" where
  "fill_at ops side mid i st ctx =
     (let st1 = (set_id i side 0 st)\<lparr>gs_fills_processed := gs_fills_processed st + 1\<rparr> in
      case neighbour side (level_count st) i of
        None \<Rightarrow> Inr (st1, ctx)
      | Some j \<Rightarrow>
          bind_outcome (toDecimal (counter_price side mid (grid_price st j))) (\<lambda>p.
          bind_outcome (placeAt ops (other_side side) j p st1 ctx) (\<lambda>(oid, st2, ctx'). Inr (st2, ctx'))))"

lemma fill_buy_at: "fill_buy ops mid i st ctx = fill_at ops BUY mid i st ctx"
proof -
  have "grid_price ((set_id i BUY 0 st)\<lparr>gs_fills_processed := n\<rparr>) j = grid_price st j" for n j
    using grid_price_set_id [of i BUY 0 st j] by (simp add: grid_price_def)
  from this [of _ "Suc i"] show ?thesis
    by (simp add: fill_buy_def fill_at_def set_id_def level_count_def neighbour_def counter_price_def other_side_def
        placeAt_simps grid_price_def Let_def split: if_splits)
qed

lemma fill_sell_at: "fill_sell ops mid i st ctx = fill_at ops SELL mid i st ctx"
proof -
  have "grid_price ((set_id i SELL 0 st)\<lparr>gs_fills_processed := n\<rparr>) j = grid_price st j" for n j
    using grid_price_set_id [of i SELL 0 st j] by (simp add: grid_price_def)
  from this [of _ "i - 1"] show ?thesis
    by (simp add: fill_sell_def fill_at_def set_id_def level_count_def neighbour_def counter_price_def other_side_def
        placeAt_simps grid_price_def Let_def split: if_splits)
qed

text \<open>With distinct ids, \<^verbatim>\<open>onFill\<close> finds the one level and side that the order belongs to.\<close>

lemma fill_levels_none:
  assumes "\<And>i side. i \<in> set is \<Longrightarrow> order_id st i side = fill_order_id fill \<Longrightarrow> fill_order_id fill = 0"
  shows "fill_levels ops mid fill is st ctx = Inr (st, ctx)"
  using assms
proof (induction "is")
  case (Cons i "is")
  have "fill_order_id fill = 0 \<or> gl_buy_order_id (gs_levels st ! i) \<noteq> fill_order_id fill \<and>
      gl_sell_order_id (gs_levels st ! i) \<noteq> fill_order_id fill"
    using Cons.prems [of i BUY] Cons.prems [of i SELL] by (auto simp: order_id_def)
  with Cons show ?case by auto
qed simp

lemma fill_levels_at:
  assumes ok: "ids_ok used st" and i: "i < level_count st" and hit: "order_id st i side = fill_order_id fill"
    and nz: "fill_order_id fill \<noteq> 0"
  shows "fill_levels ops mid fill [0..<level_count st] st ctx = fill_at ops side mid i st ctx"
proof -
  have unique: "j = i \<and> side' = side" if "j < level_count st" "order_id st j side' = fill_order_id fill" for j side'
    using ok i hit nz that unfolding ids_ok_def by metis
  have "fill_levels ops mid fill is st ctx = fill_at ops side mid i st ctx"
    if "i \<in> set is" "set is \<subseteq> {..<level_count st}" for "is"
    using that
  proof (induction "is")
    case (Cons j "is")
    show ?case
    proof (cases "j = i")
      case True
      have "gl_buy_order_id (gs_levels st ! i) = fill_order_id fill \<longleftrightarrow> side = BUY"
        "gl_sell_order_id (gs_levels st ! i) = fill_order_id fill \<longleftrightarrow> side = SELL"
        using unique [OF i, of BUY] unique [OF i, of SELL] hit by (auto simp: order_id_def)
      with True nz show ?thesis
        by (cases side) (auto simp: fill_buy_at fill_sell_at)
    next
      case False
      then have "gl_buy_order_id (gs_levels st ! j) \<noteq> fill_order_id fill"
        "gl_sell_order_id (gs_levels st ! j) \<noteq> fill_order_id fill"
        using unique [of j BUY] unique [of j SELL] Cons.prems by (auto simp: order_id_def)
      with False Cons show ?thesis by auto
    qed
  qed simp
  from this [of "[0..<level_count st]"] i show ?thesis by (auto simp: lessThan_atLeast0)
qed

definition fill_mid :: "'c context_ops \<Rightarrow> GridStrategy \<Rightarrow> 'c \<Rightarrow> Double" where
  "fill_mid ops st ctx =
     (case getMidPrice ops ctx (gc_symbol_id (gs_cfg st)) of None \<Rightarrow> Fin 0 | Some m \<Rightarrow> toDouble m)"

lemma onFill_levels:
  "onFill ops fill st ctx = fill_levels ops (fill_mid ops st ctx) fill [0..<level_count st] st ctx"
  by (simp add: onFill_def fill_mid_def level_count_def)

lemma fill_at_ids:
  assumes "fresh_ids ops used" and ok: "ids_ok (used ctx) st" and i: "i < level_count st"
    and fill: "fill_at ops side mid i st ctx = Inr (st', ctx')"
  shows "ids_ok (used ctx') st'"
proof -
  let ?st1 = "(set_id i side 0 st)\<lparr>gs_fills_processed := gs_fills_processed st + 1\<rparr>"
  have st1: "ids_ok (used ctx) ?st1"
    using ids_ok_set_0 [OF ok i] by simp
  show ?thesis
  proof (cases "neighbour side (level_count st) i")
    case None
    with fill st1 show ?thesis by (simp add: fill_at_def Let_def)
  next
    case (Some j)
    then obtain p oid where "placeAt ops (other_side side) j p ?st1 ctx = Inr (oid, st', ctx')"
      using fill by (auto simp: fill_at_def Let_def bind_outcome_Inr_iff)
    from placeAt_ids [OF assms(1) st1 this] show ?thesis .
  qed
qed

section \<open>Timer\<close>

definition drop_stale :: "Double \<Rightarrow> GridLevel \<Rightarrow> GridLevel" where
  "drop_stale mid l =
     l\<lparr>gl_buy_order_id := (if d_less mid (toDouble (gl_price l)) then 0 else gl_buy_order_id l),
       gl_sell_order_id := (if d_less (toDouble (gl_price l)) mid then 0 else gl_sell_order_id l)\<rparr>"

fun stale_ids :: "Double \<Rightarrow> GridLevel list \<Rightarrow> u64 list" where
  "stale_ids mid [] = []"
| "stale_ids mid (l # ls) =
     (if d_less mid (toDouble (gl_price l)) \<and> gl_buy_order_id l \<noteq> 0 then [gl_buy_order_id l] else []) @
     (if d_less (toDouble (gl_price l)) mid \<and> gl_sell_order_id l \<noteq> 0 then [gl_sell_order_id l] else []) @
     stale_ids mid ls"

definition cancel_all :: "'c context_ops \<Rightarrow> u64 list \<Rightarrow> 'c \<Rightarrow> 'c" where
  "cancel_all ops = fold (\<lambda>oid c. snd (cancelOrder ops c oid))"

lemma timer_level_step:
  "timer_level ops mid (length pre) (st\<lparr>gs_levels := pre @ l # ls\<rparr>, ctx) =
     (st\<lparr>gs_levels := (pre @ [drop_stale mid l]) @ ls\<rparr>, cancel_all ops (stale_ids mid [l]) ctx)"
  by (auto simp: timer_level_def drop_stale_def cancel_all_def Let_def d_less_asym split: prod.splits)

lemma timer_levels:
  "fold (timer_level ops mid) [length pre..<length pre + length ls] (st\<lparr>gs_levels := pre @ ls\<rparr>, ctx) =
     (st\<lparr>gs_levels := pre @ map (drop_stale mid) ls\<rparr>, cancel_all ops (stale_ids mid ls) ctx)"
proof (induction ls arbitrary: pre ctx)
  case (Cons l ls)
  have upt: "[length pre..<length pre + length (l # ls)] =
      length pre # [length (pre @ [drop_stale mid l])..<length (pre @ [drop_stale mid l]) + length ls]"
    by (simp add: upt_conv_Cons del: upt_Suc)
  have cancels: "stale_ids mid (l # ls) = stale_ids mid [l] @ stale_ids mid ls"
    by simp
  show ?case
    unfolding upt cancels
    using Cons.IH [of "pre @ [drop_stale mid l]"]
    by (simp add: timer_level_step cancel_all_def del: upt_Suc stale_ids.simps)
qed (simp add: cancel_all_def)

lemma order_id_drop_stale:
  "i < length ls \<Longrightarrow> gs_levels st = map (drop_stale mid) ls \<Longrightarrow>
     order_id st i side = 0 \<or> order_id st i side = order_id (st\<lparr>gs_levels := ls\<rparr>) i side"
  by (simp add: order_id_def drop_stale_def split: OrderSide.splits)

section \<open>Constructor\<close>

lemma toDecimal_finite: "toDecimal v = Inr d \<Longrightarrow> \<exists>q. v = Fin q"
  by (cases v) (auto simp: toDecimal_def decimal_scale_def signed_inf_def split: if_splits)

lemma push_levels_Inr:
  "push_levels low spacing is = Inr ls \<longleftrightarrow> length ls = length is \<and>
     (\<forall>k < length is. \<exists>p. toDecimal (d_add low (d_mul spacing (d_of_int (is ! k)))) = Inr p \<and>
        ls ! k = \<lparr>gl_price = p, gl_buy_order_id = 0, gl_sell_order_id = 0\<rparr>)"
proof (induction "is" arbitrary: ls)
  case (Cons i "is")
  show ?case
    by (cases ls) (auto simp: bind_outcome_Inr_iff Cons.IH All_less_Suc2)
qed auto

lemma grid_point_mono:
  assumes ij: "(i :: int) \<le> j" and s: "0 \<le> s"
    and i: "d_add (Fin lo) (d_mul (Fin s) (d_of_int i)) = Fin p"
    and j: "d_add (Fin lo) (d_mul (Fin s) (d_of_int j)) = Fin q"
  shows "p \<le> q"
proof -
  have fin: "\<exists>a b. d_of_int n = Fin a \<and> rnd (s * a) = Fin b \<and> rnd (lo + b) = Fin r"
    if point: "d_add (Fin lo) (d_mul (Fin s) (d_of_int n)) = Fin r" for n r
  proof -
    obtain b where b: "d_mul (Fin s) (d_of_int n) = Fin b" "rnd (lo + b) = Fin r"
      using point by (cases "d_mul (Fin s) (d_of_int n)") auto
    obtain a where "d_of_int n = Fin a" "rnd (s * a) = Fin b"
      using b(1) by (cases "d_of_int n") (auto simp: signed_inf_def split: if_splits)
    with b(2) show ?thesis by blast
  qed
  obtain a b where ab: "d_of_int i = Fin a" "rnd (s * a) = Fin b" "rnd (lo + b) = Fin p"
    using fin [OF i] by blast
  obtain c d where cd: "d_of_int j = Fin c" "rnd (s * c) = Fin d" "rnd (lo + d) = Fin q"
    using fin [OF j] by blast
  have "a \<le> c"
    using rnd_mono [of "of_int i" "of_int j" a c] ij ab(1) cd(1) by (simp add: d_of_int_def)
  then have "b \<le> d"
    using rnd_mono [OF _ ab(2) cd(2)] s by (simp add: mult_left_mono)
  then show ?thesis
    using rnd_mono [OF _ ab(3) cd(3)] by simp
qed

lemma rnd_nonneg: "0 \<le> q \<Longrightarrow> (\<exists>r \<ge> 0. rnd q = Fin r) \<or> rnd q = PInf"
proof -
  assume q: "0 \<le> q"
  show ?thesis
  proof (cases "rnd q")
    case (Fin r)
    with rnd_mono [of 0 q 0 r] q show ?thesis by simp
  qed (use q round_finite_nonneg [of q] in \<open>auto simp: rnd_def Let_def overflows_code split: if_splits\<close>)
qed

lemma onTick_ids:
  assumes "fresh_ids ops used" and "ids_ok (used ctx) st" and "onTick ops tick st ctx = Inr (st1, ctx1)"
  shows "ids_ok (used ctx1) st1"
proof (cases "if gs_initialized st then getMidPrice ops ctx (gc_symbol_id (gs_cfg st)) else None")
  case None
  with assms(2,3) show ?thesis by (simp add: onTick_def split: if_splits)
next
  case (Some mid)
  then have "place_all ops (plan (toDouble mid) (gs_levels st) 0 0 0) st ctx = Inr (st1, ctx1)"
    using assms(3) tick_levels_plan [where ops = ops, of 0 st "gs_levels st"]
    by (simp add: onTick_def split: if_splits)
  then show ?thesis
    by (rule place_all_ids [OF assms(1,2)])
qed

lemma onFill_ids:
  assumes fresh: "fresh_ids ops used" and ok: "ids_ok (used ctx) st" and fill: "onFill ops fill st ctx = Inr (st1, ctx1)"
  shows "ids_ok (used ctx1) st1"
proof (cases "\<exists>i < level_count st. \<exists>side. order_id st i side = fill_order_id fill \<and> fill_order_id fill \<noteq> 0")
  case True
  then obtain i side where i: "i < level_count st" "order_id st i side = fill_order_id fill" "fill_order_id fill \<noteq> 0"
    by blast
  show ?thesis
    using fill fill_at_ids [OF fresh ok i(1)] by (simp add: onFill_levels fill_levels_at [OF ok i])
next
  case False
  then have "onFill ops fill st ctx = Inr (st, ctx)"
    unfolding onFill_levels by (intro fill_levels_none) auto
  with fill ok show ?thesis by simp
qed

lemma used_cancel_all: "fresh_ids ops used \<Longrightarrow> used ctx \<subseteq> used (cancel_all ops oids ctx)"
proof (induction oids arbitrary: ctx)
  case (Cons oid oids)
  have "used ctx \<subseteq> used (snd (cancelOrder ops ctx oid))"
    using Cons.prems by (simp add: fresh_ids_def)
  also have "\<dots> \<subseteq> used (cancel_all ops oids (snd (cancelOrder ops ctx oid)))"
    by (rule Cons.IH [OF Cons.prems])
  finally show ?case by (simp add: cancel_all_def)
qed (simp add: cancel_all_def)

lemma onTimer_result:
  "onTimer ops ts st ctx =
     (case (if gs_initialized st then getMidPrice ops ctx (gc_symbol_id (gs_cfg st)) else None) of
        None \<Rightarrow> (st, ctx)
      | Some mid \<Rightarrow> (st\<lparr>gs_levels := map (drop_stale (toDouble mid)) (gs_levels st)\<rparr>,
          cancel_all ops (stale_ids (toDouble mid) (gs_levels st)) ctx))"
  using timer_levels [where ops = ops, of _ "[]" "gs_levels st" st ctx] by (simp add: onTimer_def split: option.split)

lemma ids_ok_fewer:
  assumes ok: "ids_ok used st" and n: "level_count st' = level_count st"
    and fewer: "\<And>i side. i < level_count st \<Longrightarrow> order_id st' i side = 0 \<or> order_id st' i side = order_id st i side"
  shows "ids_ok used st'"
  unfolding ids_ok_def
proof (intro conjI allI impI)
  fix i side assume "i < level_count st'" "order_id st' i side \<noteq> 0"
  with fewer [of i side] ok n show "order_id st' i side \<in> used"
    by (simp add: ids_ok_def)
next
  fix i j side side'
  assume ij: "i < level_count st'" "j < level_count st'" "order_id st' i side = order_id st' j side'"
    "order_id st' i side \<noteq> 0"
  with fewer [of i side] fewer [of j side'] n
  have "order_id st i side = order_id st j side'" "order_id st i side \<noteq> 0" by auto
  with ok ij n show "i = j" "side = side'"
    by (auto simp: ids_ok_def)
qed

lemma ids_ok_drop_stale:
  assumes ok: "ids_ok used st"
  shows "ids_ok used (st\<lparr>gs_levels := map (drop_stale mid) (gs_levels st)\<rparr>)"
proof -
  let ?st = "st\<lparr>gs_levels := map (drop_stale mid) (gs_levels st)\<rparr>"
  have "level_count ?st = level_count st"
    by (simp add: level_count_def)
  moreover have "order_id ?st i side = 0 \<or> order_id ?st i side = order_id st i side" if "i < level_count st" for i side
    using order_id_drop_stale [of i "gs_levels st" ?st mid side] that by (simp add: level_count_def)
  ultimately show ?thesis by (rule ids_ok_fewer [OF ok])
qed

lemma onTimer_ids:
  assumes "fresh_ids ops used" and "ids_ok (used ctx) st" and "onTimer ops ts st ctx = (st1, ctx1)"
  shows "ids_ok (used ctx1) st1"
proof (cases "if gs_initialized st then getMidPrice ops ctx (gc_symbol_id (gs_cfg st)) else None")
  case None
  with assms(2,3) show ?thesis by (simp add: onTimer_result)
next
  case (Some mid)
  then have "st1 = st\<lparr>gs_levels := map (drop_stale (toDouble mid)) (gs_levels st)\<rparr>"
    and "used ctx \<subseteq> used ctx1"
    using assms(3) used_cancel_all [OF assms(1), of ctx] by (auto simp: onTimer_result)
  then show ?thesis
    using ids_ok_mono [OF ids_ok_drop_stale [OF assms(2)]] by simp
qed

section \<open>Properties\<close>

text \<open>
  Property C12: what one tick does, on every path. Without \<^verbatim>\<open>onLoad\<close> or without a mid price, nothing.
  Otherwise the loop, with its two branches, its offsets and its updates of the levels it runs over, places
  exactly the list of orders that \<open>plan\<close> computes from the levels as they were before the tick, in that
  order: at most one per level, and never for a side that has an order out.
\<close>

theorem onTick_places_plan:
  "onTick ops tick st ctx =
     (case (if gs_initialized st then getMidPrice ops ctx (gc_symbol_id (gs_cfg st)) else None) of
        None \<Rightarrow> Inr (st, ctx)
      | Some mid \<Rightarrow> place_all ops (plan (toDouble mid) (gs_levels st) 0 0 0) st ctx)"
  using tick_levels_plan [where ops = ops, of 0 st "gs_levels st"] by (simp add: onTick_def split: option.split)

lemma plan_entries:
  "(i, side, x) \<in> set (plan mid ls k b s) \<Longrightarrow> 0 \<le> b \<Longrightarrow> 0 \<le> s \<Longrightarrow>
     (side = BUY \<longrightarrow> (\<exists>n \<ge> 0. x = buy_price mid n)) \<and> (side = SELL \<longrightarrow> (\<exists>n \<ge> 0. x = sell_price mid n))"
  by (induction mid ls k b s rule: plan.induct) (fastforce split: if_splits)+

lemma signed_inf_not_Fin [simp]: "signed_inf x \<noteq> Fin s"
  by (simp add: signed_inf_def)

lemma d_div_nonneg:
  assumes "(\<exists>r \<ge> 0. a = Fin r) \<or> a = PInf" and "(\<exists>r \<ge> 0. b = Fin r) \<or> b = PInf" and "d_div a b = Fin s"
  shows "0 \<le> s"
proof -
  consider d m where "a = Fin d" "0 \<le> d" "b = Fin m" "0 \<le> m" | "a = PInf \<or> b = PInf"
    using assms(1,2) by blast
  then show ?thesis
  proof cases
    case 1
    with assms(3) rnd_nonneg [of "d / m"] show ?thesis by (auto split: if_splits)
  next
    case 2
    with assms show ?thesis by auto
  qed
qed

lemma offset_nonneg: "0 \<le> n \<Longrightarrow> (\<exists>r \<ge> 0. d_mul (d_of_int n) d_tenth = Fin r) \<or> d_mul (d_of_int n) d_tenth \<in> {PInf, NaN}"
proof -
  assume n: "0 \<le> n"
  obtain t where t: "0 \<le> t" "d_tenth = Fin t \<or> d_tenth = PInf"
    using rnd_nonneg [of "1 / 10"] by (auto simp: d_tenth_def)
  consider r where "0 \<le> r" "d_of_int n = Fin r" | "d_of_int n = PInf"
    using rnd_nonneg [of "of_int n"] n by (auto simp: d_of_int_def)
  then show ?thesis
  proof cases
    case 1
    from t(2) show ?thesis
    proof
      assume "d_tenth = Fin t"
      then show ?thesis
        unfolding \<open>d_tenth = Fin t\<close> 1(2) using rnd_nonneg [of "r * t"] 1(1) t(1) by auto
    qed (use 1 in \<open>auto simp: signed_inf_def sgn_if\<close>)
  next
    case 2
    from t(2) show ?thesis
    proof
      assume "d_tenth = Fin t"
      then show ?thesis
        unfolding \<open>d_tenth = Fin t\<close> 2 using t(1) by (simp add: signed_inf_def)
    qed (simp add: 2 signed_inf_def)
  qed
qed

text \<open>
  The orders of a tick are never at the grid. Every buy of the plan is priced at or above the mid
  price and every sell at or below it, whatever the level that it is for (\<open>m\<close> is a double, \<open>rnd m = Fin m\<close>).
\<close>

theorem planned_orders_cross_mid:
  assumes "(i, side, Fin x) \<in> set (plan (Fin m) ls 0 0 0)" and m: "rnd m = Fin m"
  shows "(side = BUY \<longrightarrow> m \<le> x) \<and> (side = SELL \<longrightarrow> x \<le> m)"
proof (intro conjI impI)
  note entry = plan_entries [OF assms(1)]
  assume "side = BUY"
  then obtain n where n: "0 \<le> n" "buy_price (Fin m) n = Fin x"
    using entry by auto
  obtain h where h: "rnd (m + 1 / 2) = Fin h"
    using n(2) by (cases "rnd (m + 1 / 2)"; cases "d_mul (d_of_int n) d_tenth") (auto simp: buy_price_def)
  obtain r where r: "0 \<le> r" "rnd (h + r) = Fin x"
    using offset_nonneg [OF n(1)] n(2) h by (auto simp: buy_price_def)
  have "m \<le> h" by (rule rnd_mono [OF _ m h]) simp
  moreover have "m \<le> x"
    by (rule rnd_mono [OF _ m r(2)]) (use r(1) \<open>m \<le> h\<close> in simp)
  ultimately show "m \<le> x" by simp
next
  note entry = plan_entries [OF assms(1)]
  assume "side = SELL"
  then obtain n where n: "0 \<le> n" "sell_price (Fin m) n = Fin x"
    using entry by auto
  obtain h where h: "rnd (m - 1 / 2) = Fin h"
    using n(2) by (cases "rnd (m - 1 / 2)"; cases "d_mul (d_of_int n) d_tenth") (auto simp: sell_price_def d_sub_def)
  obtain r where r: "0 \<le> r" "rnd (h - r) = Fin x"
    using offset_nonneg [OF n(1)] n(2) h by (auto simp: sell_price_def d_sub_def)
  have "h \<le> m" by (rule rnd_mono [OF _ h m]) simp
  then show "x \<le> m"
    by (intro rnd_mono [OF _ r(2) m]) (use r(1) in simp)
qed

text \<open>
  Property C15: the order ids of the grid stay in step with the context: every id a level holds was handed out
  by the context, and no id is held twice. All three callbacks keep this, on every path that returns.
\<close>

theorem grid_ids_invariant:
  assumes fresh: "fresh_ids ops used" and ok: "ids_ok (used ctx) st"
  shows "(\<forall>st1 ctx1. onTick ops tick st ctx = Inr (st1, ctx1) \<longrightarrow> ids_ok (used ctx1) st1) \<and>
    (\<forall>st1 ctx1. onFill ops fill st ctx = Inr (st1, ctx1) \<longrightarrow> ids_ok (used ctx1) st1) \<and>
    (\<forall>st1 ctx1. onTimer ops ts st ctx = (st1, ctx1) \<longrightarrow> ids_ok (used ctx1) st1)"
  by (simp add: onTick_ids [OF assms] onFill_ids [OF assms] onTimer_ids [OF assms])

lemma fill_at_result:
  assumes fresh: "fresh_ids ops used" and i: "i < level_count st"
    and fill: "fill_at ops side mid i st ctx = Inr (st1, ctx1)"
  shows "level_count st1 = level_count st \<and> used ctx \<subseteq> used ctx1 \<and>
    (\<exists>oid. (oid \<noteq> 0 \<longrightarrow> oid \<notin> used ctx) \<and>
      (\<forall>k s. order_id st1 k s =
        (if neighbour side (level_count st) i = Some k \<and> s = other_side side \<and> oid \<noteq> 0 then oid
         else if k = i \<and> s = side then 0 else order_id st k s)))"
proof (cases "neighbour side (level_count st) i")
  case None
  with fill i show ?thesis by (auto simp: fill_at_def Let_def)
next
  case (Some j)
  let ?st1 = "(set_id i side 0 st)\<lparr>gs_fills_processed := gs_fills_processed st + 1\<rparr>"
  obtain p oid where place: "placeAt ops (other_side side) j p ?st1 ctx = Inr (oid, st1, ctx1)"
    using fill Some by (auto simp: fill_at_def Let_def bind_outcome_Inr_iff)
  then obtain order where sub: "submitOrder ops ctx order = (oid, ctx1)"
    and st1: "oid = 0 \<Longrightarrow> st1 = ?st1"
      "oid \<noteq> 0 \<Longrightarrow> j < level_count ?st1 \<and> st1 = set_id j (other_side side) oid ?st1"
    by (rule placeAt_InrE) blast
  have used: "used ctx \<subseteq> used ctx1" "oid \<noteq> 0 \<longrightarrow> oid \<notin> used ctx"
    using fresh sub by (auto simp: fresh_ids_def)
  show ?thesis
  proof (cases "oid = 0")
    case True
    with st1(1) used i show ?thesis by (auto intro!: exI [of _ 0])
  next
    case False
    with st1(2) have "j < level_count ?st1" "st1 = set_id j (other_side side) oid ?st1"
      by simp_all
    with used i Some False show ?thesis
      by (auto intro!: exI [of _ oid])
  qed
qed

lemma onFill_none:
  assumes "\<And>k s. k < level_count st \<Longrightarrow> order_id st k s \<noteq> fill_order_id fill"
  shows "onFill ops fill st ctx = Inr (st, ctx)"
  unfolding onFill_levels using assms by (intro fill_levels_none) auto

text \<open>
  Property C3: what a fill does. A fill of an order that a level holds clears that id, counts the fill, and
  places one counter-order on the opposite side of the neighbouring level (a sell one level up, a buy one
  level down; at the edge of the grid, none), priced at that level but no worse than the mid price when
  one is known. The rest of the scan does not matter, because no other level holds the id.
\<close>

theorem onFill_places_counter_order:
  assumes "ids_ok used st" and "i < level_count st" and "order_id st i side = fill_order_id fill"
    and "fill_order_id fill \<noteq> 0"
  shows "onFill ops fill st ctx = fill_at ops side (fill_mid ops st ctx) i st ctx"
  by (simp add: onFill_levels fill_levels_at [OF assms])

text \<open>
  Partial fills. The first fill of an order removes its id, so every later fill of the same order
  changes nothing: it is not counted and gets no counter-order, whatever quantity the first fill had.
\<close>

theorem later_fills_ignored:
  assumes fresh: "fresh_ids ops used" and ok: "ids_ok (used ctx) st" and i: "i < level_count st"
    and hit: "order_id st i side = fill_order_id fill" "fill_order_id fill \<noteq> 0"
    and first: "onFill ops fill st ctx = Inr (st1, ctx1)"
    and same: "fill_order_id fill' = fill_order_id fill"
  shows "onFill ops fill' st1 ctx2 = Inr (st1, ctx2)"
proof (rule onFill_none)
  let ?o = "fill_order_id fill"
  have "fill_at ops side (fill_mid ops st ctx) i st ctx = Inr (st1, ctx1)"
    using first by (simp add: onFill_levels fill_levels_at [OF ok i hit])
  from fill_at_result [OF fresh i this] obtain oid where n: "level_count st1 = level_count st"
    and oid: "oid \<noteq> 0 \<longrightarrow> oid \<notin> used ctx"
    and ids: "\<And>k s. order_id st1 k s =
        (if neighbour side (level_count st) i = Some k \<and> s = other_side side \<and> oid \<noteq> 0 then oid
         else if k = i \<and> s = side then 0 else order_id st k s)"
    by blast
  have old: "?o \<in> used ctx"
    using ok i hit unfolding ids_ok_def by metis
  fix k s assume k: "k < level_count st1"
  have "order_id st k s \<noteq> ?o" if "\<not> (k = i \<and> s = side)"
    using ok i hit k n that unfolding ids_ok_def by metis
  with ids [of k s] oid old hit(2) show "order_id st1 k s \<noteq> fill_order_id fill'"
    unfolding same by (auto split: if_splits)
qed


text \<open>
  Property C37: the timer. With a mid price known, \<^verbatim>\<open>onTimer\<close> asks for the cancellation of exactly the buys at
  levels above the mid price and the sells at levels below it, level by level, and forgets these ids
  whether or not the context accepted the cancellation; prices and all other ids stay.
\<close>

theorem onTimer_cancels_stale:
  assumes "gs_initialized st" and "getMidPrice ops ctx (gc_symbol_id (gs_cfg st)) = Some mid"
    and "onTimer ops ts st ctx = (st1, ctx1)"
  shows "ctx1 = cancel_all ops (stale_ids (toDouble mid) (gs_levels st)) ctx \<and> level_count st1 = level_count st \<and>
    (\<forall>i < level_count st. grid_price st1 i = grid_price st i \<and>
       order_id st1 i BUY = (if d_less (toDouble mid) (grid_price st i) then 0 else order_id st i BUY) \<and>
       order_id st1 i SELL = (if d_less (grid_price st i) (toDouble mid) then 0 else order_id st i SELL))"
proof -
  have "st1 = st\<lparr>gs_levels := map (drop_stale (toDouble mid)) (gs_levels st)\<rparr>"
    and "ctx1 = cancel_all ops (stale_ids (toDouble mid) (gs_levels st)) ctx"
    using assms by (simp_all add: onTimer_result)
  then show ?thesis
    by (simp add: level_count_def order_id_def grid_price_def drop_stale_def)
qed

text \<open>
  The grid that the constructor builds. When it returns, for finite bounds \<open>low \<le> high\<close> and at
  least one interval, it has one level more than intervals, their prices never decrease, and no level has
  an order out.
\<close>

theorem grid_levels_ascending:
  assumes new: "GridStrategy_new cfg = Inr st" and low: "gc_grid_low cfg = Fin lo" and high: "gc_grid_high cfg = Fin hi"
    and "lo \<le> hi" and n: "1 \<le> gc_grid_levels cfg"
  shows "length (gs_levels st) = nat (gc_grid_levels cfg) + 1 \<and>
    sorted (map gl_price (gs_levels st)) \<and> ids_ok {} st \<and> \<not> gs_initialized st"
proof -
  define spacing where "spacing = d_div (d_sub (Fin hi) (Fin lo)) (d_of_int (gc_grid_levels cfg))"
  obtain ls where ls: "push_levels (Fin lo) spacing [0..gc_grid_levels cfg] = Inr ls"
    and st: "st = \<lparr>gs_cfg = cfg, gs_levels = ls, gs_initialized = False, gs_ticks_processed = 0, gs_fills_processed = 0\<rparr>"
    using new low high by (auto simp: GridStrategy_new_def Let_def bind_outcome_Inr_iff spacing_def split: if_splits)
  have len: "length ls = nat (gc_grid_levels cfg) + 1"
    using ls n by (simp add: push_levels_Inr nat_add_distrib)
  have point: "toDecimal (d_add (Fin lo) (d_mul spacing (d_of_int (int k)))) = Inr (gl_price (ls ! k))"
    and ids: "gl_buy_order_id (ls ! k) = 0" "gl_sell_order_id (ls ! k) = 0" if "k < length ls" for k
    using ls that n len by (auto simp: push_levels_Inr nth_upto)
  obtain s where s: "spacing = Fin s" "0 \<le> s"
  proof -
    obtain q where "d_add (Fin lo) (d_mul spacing (Fin 0)) = Fin q"
      using toDecimal_finite [OF point [of 0]] len by (auto simp: d_of_int_def)
    then obtain s where s: "spacing = Fin s"
      by (cases spacing) (auto simp: signed_inf_def)
    have "0 \<le> s"
      using s d_div_nonneg [of "d_sub (Fin hi) (Fin lo)" "d_of_int (gc_grid_levels cfg)" s]
        rnd_nonneg [of "hi - lo"] rnd_nonneg [of "of_int (gc_grid_levels cfg)"] \<open>lo \<le> hi\<close> n
      by (simp add: spacing_def d_sub_def d_of_int_def)
    with s show thesis by (rule that)
  qed
  have "gl_price (ls ! i) \<le> gl_price (ls ! j)"
    if ij: "i \<le> j" "j < length ls" for i j
  proof -
    obtain p where p: "d_add (Fin lo) (d_mul (Fin s) (d_of_int (int i))) = Fin p"
      using toDecimal_finite [OF point [of i]] ij by (auto simp: s)
    obtain q where q: "d_add (Fin lo) (d_mul (Fin s) (d_of_int (int j))) = Fin q"
      using toDecimal_finite [OF point [of j]] ij by (auto simp: s)
    have "p \<le> q"
      using ij by (intro grid_point_mono [OF _ s(2) p q]) simp
    then show ?thesis
      using point [of i] point [of j] ij by (intro toDecimal_mono) (simp_all add: s p q)
  qed
  then have "sorted (map gl_price ls)"
    by (simp add: sorted_iff_nth_mono)
  moreover have "ids_ok {} st"
    using ids by (auto simp: ids_ok_def st order_id_def level_count_def split: OrderSide.splits)
  ultimately show ?thesis
    using len by (simp add: st)
qed

text \<open>
  Property C39: the configurations the constructor does not survive. With 0 levels the spacing is a division by
  zero and the conversion of the first price is undefined; with fewer than \<open>-1\<close>, \<^verbatim>\<open>reserve\<close> throws; with the
  largest \<^verbatim>\<open>int\<close>, the addition overflows; with \<open>-1\<close>, the strategy is built without any level.
\<close>

theorem grid_constructor_edges:
  assumes "- (2 ^ 31) \<le> gc_grid_levels cfg" and "gc_grid_levels cfg < 2 ^ 31"
  shows "(gc_grid_levels cfg = 0 \<longrightarrow> GridStrategy_new cfg = Inl UB_float_to_int) \<and>
    (gc_grid_levels cfg < - 1 \<longrightarrow> GridStrategy_new cfg = Inl Length_error) \<and>
    (gc_grid_levels cfg = 2 ^ 31 - 1 \<longrightarrow> GridStrategy_new cfg = Inl UB_signed_overflow) \<and>
    (gc_grid_levels cfg = - 1 \<longrightarrow> (\<exists>st. GridStrategy_new cfg = Inr st \<and> gs_levels st = []))"
proof (intro conjI impI)
  assume "gc_grid_levels cfg = 0"
  define x where "x = d_div (d_sub (gc_grid_high cfg) (gc_grid_low cfg)) (Fin 0)"
  have "d_mul x (Fin 0) = NaN"
    unfolding x_def
    by (cases "d_sub (gc_grid_high cfg) (gc_grid_low cfg)") (auto simp: signed_inf_def)
  moreover have "d_add low NaN = NaN" for low by (cases low) simp_all
  ultimately show "GridStrategy_new cfg = Inl UB_float_to_int"
    using \<open>gc_grid_levels cfg = 0\<close>
    by (simp add: GridStrategy_new_def Let_def d_of_int_def reserve_limit_def toDecimal_def decimal_scale_def
        flip: x_def)
next
  assume neg: "gc_grid_levels cfg < - 1"
  define n where "n = gc_grid_levels cfg + 1"
  have n: "- (2 ^ 31) \<le> n" "n < 0"
    using neg assms(1) by (simp_all add: n_def)
  have "n mod 2 ^ 64 = (n + 2 ^ 64) mod 2 ^ 64"
    by (rule mod_add_self2 [symmetric])
  also have "\<dots> = n + 2 ^ 64"
    using n by (intro mod_pos_pos_trivial) simp_all
  finally have "unat (word_of_int n :: u64) = nat (n + 2 ^ 64)"
    using n by (simp add: unsigned_of_int nat_eq_iff take_bit_eq_mod mod_pos_neg_trivial)
  moreover have "reserve_limit < nat (n + 2 ^ 64)"
    using n by (simp add: reserve_limit_def)
  ultimately show "GridStrategy_new cfg = Inl Length_error"
    using n by (simp add: GridStrategy_new_def Let_def flip: n_def)
next
  assume "gc_grid_levels cfg = 2 ^ 31 - 1"
  then show "GridStrategy_new cfg = Inl UB_signed_overflow"
    by (simp add: GridStrategy_new_def Let_def)
next
  assume "gc_grid_levels cfg = - 1"
  then show "\<exists>st. GridStrategy_new cfg = Inr st \<and> gs_levels st = []"
    by (simp add: GridStrategy_new_def Let_def)
qed

section \<open>Concrete runs\<close>

text \<open>
  A context for the witnesses: its state is the list of the ids it has handed out, a mid price may be
  set, and it accepts every order while its ids last.
\<close>

definition example_ops :: "Decimal option \<Rightarrow> (u64 list) context_ops" where
  "example_ops mid =
     \<lparr>getMidPrice = (\<lambda>c s. mid),
      submitOrder = (\<lambda>c r. let oid = of_nat (length c + 1) in if oid = 0 \<or> oid \<in> set c then (0, c) else (oid, oid # c)),
      cancelOrder = (\<lambda>c i. (False, c))\<rparr>"

lemma example_ops_fresh: "fresh_ids (example_ops mid) set"
  by (auto simp: fresh_ids_def example_ops_def Let_def split: if_splits)

definition price_raw :: "int \<Rightarrow> Decimal" where
  "price_raw p = from_raw_value (word_of_int (p * 2 ^ 32))"

text \<open>Levels at 95, 100 and 105, a buy with id 1 at 95 and a sell with id 2 at 100.\<close>

definition example_grid :: GridStrategy where
  "example_grid =
     \<lparr>gs_cfg = GridConfig_init,
      gs_levels =
        [\<lparr>gl_price = price_raw 95, gl_buy_order_id = 1, gl_sell_order_id = 0\<rparr>,
         \<lparr>gl_price = price_raw 100, gl_buy_order_id = 0, gl_sell_order_id = 2\<rparr>,
         \<lparr>gl_price = price_raw 105, gl_buy_order_id = 0, gl_sell_order_id = 0\<rparr>],
      gs_initialized = True, gs_ticks_processed = 0, gs_fills_processed = 0\<rparr>"

lemma example_grid_ids: "ids_ok (set [2, 1]) example_grid"
  by (auto simp: ids_ok_def example_grid_def order_id_def level_count_def less_Suc_eq numeral_3_eq_3
      split: OrderSide.splits)

definition example_fill :: "u64 \<Rightarrow> Fill" where
  "example_fill oid = Fill_init\<lparr>fill_order_id := oid\<rparr>"

definition after_fill :: "(GridStrategy \<times> u64 list) outcome" where
  "after_fill = onFill (example_ops None) (example_fill 1) example_grid [2, 1]"

lemma after_fill_value:
  "\<exists>st. after_fill = Inr (st, [3, 2, 1]) \<and> map gl_buy_order_id (gs_levels st) = [0, 0, 0] \<and>
     map gl_sell_order_id (gs_levels st) = [0, 3, 0] \<and> gs_fills_processed st = 1"
proof -
  let ?p = "\<lambda>r. case r of Inr (st, c) \<Rightarrow> c = [3, 2, 1] \<and> map gl_buy_order_id (gs_levels st) = [0, 0, 0] \<and>
     map gl_sell_order_id (gs_levels st) = [0, 3, 0] \<and> gs_fills_processed st = 1 | Inl f \<Rightarrow> False"
  have "?p after_fill" by code_simp
  then show ?thesis by (auto split: sum.splits)
qed

theorem planned_orders_cross_mid_witness:
  "plan (Fin 100) [\<lparr>gl_price = price_raw 95, gl_buy_order_id = 0, gl_sell_order_id = 0\<rparr>] 0 0 0 =
     [(0, BUY, Fin (of_int 201 / of_int 2))] \<and> (100 :: rat) \<le> of_int 201 / of_int 2"
proof -
  have p: "plan (Fin 100) [\<lparr>gl_price = price_raw 95, gl_buy_order_id = 0, gl_sell_order_id = 0\<rparr>] 0 0 0 =
      [(0, BUY, Fin (of_int 201 / of_int 2))]"
    by code_simp
  have "rnd (of_int 100) = Fin 100" by code_simp
  then have m: "rnd 100 = Fin 100" by simp
  have "(0, BUY, Fin (of_int 201 / of_int 2)) \<in>
      set (plan (Fin 100) [\<lparr>gl_price = price_raw 95, gl_buy_order_id = 0, gl_sell_order_id = 0\<rparr>] 0 0 0)"
    unfolding p by simp
  from planned_orders_cross_mid [OF this m] p show ?thesis by simp
qed

theorem grid_ids_invariant_witness:
  "\<exists>st. after_fill = Inr (st, [3, 2, 1]) \<and> ids_ok {1, 2, 3} st"
proof -
  obtain st where st: "after_fill = Inr (st, [3, 2, 1])"
    using after_fill_value by blast
  then have "ids_ok (set [3, 2, 1]) st"
    using grid_ids_invariant [OF example_ops_fresh example_grid_ids, of None undefined "example_fill 1" undefined]
    unfolding after_fill_def by blast
  then show ?thesis
    using st by (auto simp: insert_commute)
qed

theorem onFill_places_counter_order_witness:
  "\<exists>st. fill_at (example_ops None) BUY (fill_mid (example_ops None) example_grid [2, 1]) 0 example_grid [2, 1] =
     Inr (st, [3, 2, 1])"
proof -
  have "onFill (example_ops None) (example_fill 1) example_grid [2, 1] =
      fill_at (example_ops None) BUY (fill_mid (example_ops None) example_grid [2, 1]) 0 example_grid [2, 1]"
    by (rule onFill_places_counter_order [OF example_grid_ids])
      (simp_all add: example_grid_def level_count_def order_id_def example_fill_def)
  then show ?thesis
    using after_fill_value unfolding after_fill_def by auto
qed

theorem later_fills_ignored_witness:
  "\<exists>st. after_fill = Inr (st, [3, 2, 1]) \<and> onFill (example_ops None) (example_fill 1) st [3, 2, 1] = Inr (st, [3, 2, 1])"
proof -
  obtain st where st: "after_fill = Inr (st, [3, 2, 1])"
    using after_fill_value by blast
  have "onFill (example_ops None) (example_fill 1) st [3, 2, 1] = Inr (st, [3, 2, 1])"
    by (rule later_fills_ignored [OF example_ops_fresh example_grid_ids _ _ _ st [unfolded after_fill_def], of 0 BUY])
      (simp_all add: example_grid_def level_count_def order_id_def example_fill_def)
  with st show ?thesis by blast
qed


theorem onTimer_cancels_stale_witness:
  "\<exists>st c. onTimer (example_ops (Some (price_raw 103))) 0 example_grid [2, 1] = (st, c) \<and>
     order_id st 0 BUY = 1 \<and> order_id st 1 SELL = 0"
proof -
  obtain st c where st: "onTimer (example_ops (Some (price_raw 103))) 0 example_grid [2, 1] = (st, c)"
    by (cases "onTimer (example_ops (Some (price_raw 103))) 0 example_grid [2, 1]") auto
  have cmp: "\<not> d_less (toDouble (price_raw 103)) (toDouble (price_raw 95))"
    "d_less (toDouble (price_raw 100)) (toDouble (price_raw 103))" by code_simp+
  have "gs_initialized example_grid"
    "getMidPrice (example_ops (Some (price_raw 103))) [2, 1] (gc_symbol_id (gs_cfg example_grid)) = Some (price_raw 103)"
    by (simp_all add: example_grid_def example_ops_def)
  from onTimer_cancels_stale [OF this st]
  have "\<forall>i < 3. order_id st i BUY = (if d_less (toDouble (price_raw 103)) (grid_price example_grid i) then 0 else order_id example_grid i BUY) \<and>
       order_id st i SELL = (if d_less (grid_price example_grid i) (toDouble (price_raw 103)) then 0 else order_id example_grid i SELL)"
    by (simp add: level_count_def example_grid_def)
  from this [rule_format, of 0] this [rule_format, of 1] cmp st show ?thesis
    by (simp add: grid_price_def example_grid_def order_id_def)
qed

definition example_config :: GridConfig where
  "example_config = \<lparr>gc_grid_low = Fin 95, gc_grid_high = Fin 105, gc_grid_levels = 2, gc_quantity = Fin 1, gc_symbol_id = 1\<rparr>"

theorem grid_levels_ascending_witness:
  "\<exists>st. GridStrategy_new example_config = Inr st \<and> length (gs_levels st) = 3"
proof -
  have "case push_levels (Fin 95) (d_div (d_sub (Fin 105) (Fin 95)) (d_of_int 2)) [0..2] of Inr ls \<Rightarrow> True | Inl f \<Rightarrow> False"
    by code_simp
  then obtain ls where "push_levels (Fin 95) (d_div (d_sub (Fin 105) (Fin 95)) (d_of_int 2)) [0..2] = Inr ls"
    by (auto split: sum.splits)
  then have "GridStrategy_new example_config = Inr \<lparr>gs_cfg = example_config, gs_levels = ls, gs_initialized = False,
      gs_ticks_processed = 0, gs_fills_processed = 0\<rparr>"
    by (simp add: GridStrategy_new_def example_config_def reserve_limit_def Let_def)
  then obtain st where st: "GridStrategy_new example_config = Inr st"
    by (rule that)
  have "length (gs_levels st) = nat (gc_grid_levels example_config) + 1"
    using grid_levels_ascending [OF st, of 95 105] by (simp add: example_config_def)
  with st show ?thesis by (simp add: example_config_def)
qed

theorem grid_constructor_edges_witness:
  "GridStrategy_new (example_config\<lparr>gc_grid_levels := 0\<rparr>) = Inl UB_float_to_int \<and>
   GridStrategy_new (example_config\<lparr>gc_grid_levels := - 5\<rparr>) = Inl Length_error"
  using grid_constructor_edges [of "example_config\<lparr>gc_grid_levels := 0\<rparr>"]
    grid_constructor_edges [of "example_config\<lparr>gc_grid_levels := - 5\<rparr>"]
  by simp

end
