(* ===== verification/Grid_Runs.thy ===== *)
theory Grid_Runs
  imports Grid_Properties
begin

text \<open>
  The grid strategy over many callbacks: what a second tick does, what the fill of a counter-order does, and
  what holds after any sequence of callbacks.
\<close>

section \<open>A second tick\<close>

text \<open>A context that accepts every order and whose mid prices do not depend on the orders.\<close>

definition accepts_all :: "'c context_ops \<Rightarrow> bool" where
  "accepts_all ops \<longleftrightarrow>
     (\<forall>c r oid c'. submitOrder ops c r = (oid, c') \<longrightarrow> oid \<noteq> 0 \<and> getMidPrice ops c' = getMidPrice ops c)"

lemma placeAt_accepted:
  assumes "accepts_all ops" and "placeAt ops side i price st ctx = Inr (oid, st', ctx')"
  shows "oid \<noteq> 0 \<and> i < level_count st \<and> st' = set_id i side oid st \<and> getMidPrice ops ctx' = getMidPrice ops ctx"
proof -
  obtain order where "submitOrder ops ctx order = (oid, ctx')"
    and "oid \<noteq> 0 \<Longrightarrow> i < level_count st \<and> st' = set_id i side oid st"
    using assms(2) by (rule placeAt_InrE) blast
  with assms(1) show ?thesis
    unfolding accepts_all_def by blast
qed

lemma set_id_levels:
  assumes "drop i (gs_levels st) = l # ls"
  obtains l' where "drop i (gs_levels (set_id i side oid st)) = l' # ls"
    "take i (gs_levels (set_id i side oid st)) = take i (gs_levels st)" "gl_price l' = gl_price l"
    "side = BUY \<Longrightarrow> gl_buy_order_id l' = oid" "side = SELL \<Longrightarrow> gl_sell_order_id l' = oid"
proof
  let ?l = "case side of BUY \<Rightarrow> l\<lparr>gl_buy_order_id := oid\<rparr> | SELL \<Rightarrow> l\<lparr>gl_sell_order_id := oid\<rparr>"
  have i: "i < length (gs_levels st)" and l: "gs_levels st ! i = l"
    using assms nth_via_drop [OF assms] by (auto intro: ccontr)
  have "drop (Suc i) (gs_levels st) = ls"
    using assms by (simp add: drop_Suc flip: tl_drop)
  with i show "drop i (gs_levels (set_id i side oid st)) = ?l # ls"
    by (auto simp: set_id_def l upd_conv_take_nth_drop split: OrderSide.split)
  show "take i (gs_levels (set_id i side oid st)) = take i (gs_levels st)"
    by (simp add: set_id_def)
qed (auto split: OrderSide.split)

lemma placeAt_counters:
  assumes "placeAt ops side i price st ctx = Inr (oid, st', ctx')"
  shows "gs_fills_processed st' = gs_fills_processed st"
proof -
  from assms obtain "oid = 0 \<Longrightarrow> st' = st" "oid \<noteq> 0 \<Longrightarrow> st' = set_id i side oid st"
    by (rule placeAt_InrE) blast
  then show ?thesis by (cases "oid = 0") simp_all
qed

lemma fill_at_counts:
  assumes "fill_at ops side mid i st ctx = Inr (st', ctx')"
  shows "gs_fills_processed st' = gs_fills_processed st + 1"
proof (cases "neighbour side (level_count st) i")
  case None
  with assms show ?thesis by (auto simp: fill_at_def Let_def)
next
  case (Some j)
  then obtain p oid where "placeAt ops (other_side side) j p
      ((set_id i side 0 st)\<lparr>gs_fills_processed := gs_fills_processed st + 1\<rparr>) ctx = Inr (oid, st', ctx')"
    using assms by (auto simp: fill_at_def Let_def bind_outcome_Inr_iff)
  from placeAt_counters [OF this] show ?thesis by simp
qed

text \<open>The levels from \<open>i\<close> on have nothing left to place.\<close>

definition settled :: "Double \<Rightarrow> GridLevel \<Rightarrow> bool" where
  "settled mid l \<longleftrightarrow> (d_less (toDouble (gl_price l)) mid \<longrightarrow> gl_buy_order_id l \<noteq> 0) \<and>
     (d_less mid (toDouble (gl_price l)) \<longrightarrow> gl_sell_order_id l \<noteq> 0)"

lemma plan_settled: "\<forall>l \<in> set ls. settled mid l \<Longrightarrow> plan mid ls i b s = []"
  by (induction mid ls i b s rule: plan.induct) (auto simp: settled_def)

lemma place_all_settles:
  assumes acc: "accepts_all ops"
  shows "drop i (gs_levels st) = ls \<Longrightarrow> place_all ops (plan mid ls i b s) st ctx = Inr (st', ctx') \<Longrightarrow>
    take i (gs_levels st') = take i (gs_levels st) \<and> (\<forall>l \<in> set (drop i (gs_levels st')). settled mid l) \<and>
    level_count st' = level_count st \<and> gs_cfg st' = gs_cfg st \<and> gs_initialized st' = gs_initialized st \<and>
    getMidPrice ops ctx' = getMidPrice ops ctx"
proof (induction ls arbitrary: i b s st ctx)
  case (Cons l ls)
  have i: "i < length (gs_levels st)"
    using Cons.prems(1) by (auto intro: ccontr)
  have ls: "drop (Suc i) (gs_levels st) = ls"
    using Cons.prems(1) by (simp add: drop_Suc flip: tl_drop)
  have skip_settled: ?case if l: "settled mid l" and "place_all ops (plan mid ls (Suc i) b s) st ctx = Inr (st', ctx')" for b s
  proof -
    note * = Cons.IH [OF ls that(2)]
    then have "i < length (gs_levels st')" using i by (simp add: level_count_def)
    moreover have "gs_levels st' ! i = l"
      using arg_cong [OF conjunct1 [OF *], of "\<lambda>xs. xs ! i"] i \<open>i < length (gs_levels st')\<close>
        nth_via_drop [OF Cons.prems(1)] by simp
    moreover have "take i (gs_levels st') = take i (gs_levels st)"
      using arg_cong [OF conjunct1 [OF *], of "take i"] by simp
    ultimately show ?thesis
      using * l by (simp add: Cons_nth_drop_Suc [symmetric])
  qed
  have placed: ?case
    if p: "toDecimal x = Inr p" "placeAt ops side i p st ctx = Inr (oid, st1, ctx1)"
      and rest: "place_all ops (plan mid ls (Suc i) b s) (count_tick oid st1) ctx1 = Inr (st', ctx')"
      and side: "if side = BUY then \<not> d_less mid (toDouble (gl_price l)) else \<not> d_less (toDouble (gl_price l)) mid"
    for x p side oid st1 ctx1 b s
  proof -
    note a = placeAt_accepted [OF acc p(2)]
    obtain l' where l': "drop i (gs_levels st1) = l' # ls" "take i (gs_levels st1) = take i (gs_levels st)"
      "gl_price l' = gl_price l" "side = BUY \<Longrightarrow> gl_buy_order_id l' = oid" "side = SELL \<Longrightarrow> gl_sell_order_id l' = oid"
      using set_id_levels [OF Cons.prems(1), of side oid] a by metis
    have ls1: "drop (Suc i) (gs_levels (count_tick oid st1)) = ls"
      using l'(1) by (simp add: drop_Suc flip: tl_drop)
    note * = Cons.IH [OF ls1 rest]
    have same: "gs_initialized (count_tick oid st1) = gs_initialized st" "gs_cfg st1 = gs_cfg st"
      "level_count st1 = level_count st" "getMidPrice ops ctx1 = getMidPrice ops ctx"
      using a by (simp_all add: count_tick_def)
    have n: "i < length (gs_levels st')" "i < length (gs_levels st1)"
      using * i same by (simp_all add: level_count_def)
    have "gs_levels st' ! i = l'"
      using arg_cong [OF conjunct1 [OF *], of "\<lambda>xs. xs ! i"] n nth_via_drop [OF l'(1)] by simp
    moreover have "take i (gs_levels st') = take i (gs_levels st)"
      using arg_cong [OF conjunct1 [OF *], of "take i"] l'(2) by simp
    moreover have "settled mid l'"
      using side l'(3,4,5) a by (cases side) (auto simp: settled_def)
    ultimately show ?thesis
      using * same n by (simp add: Cons_nth_drop_Suc [symmetric])
  qed
  consider (buy) "d_less (toDouble (gl_price l)) mid" "gl_buy_order_id l = 0"
    | (sell) "\<not> d_less (toDouble (gl_price l)) mid" "d_less mid (toDouble (gl_price l))" "gl_sell_order_id l = 0"
    | (skip) "settled mid l"
    using d_less_asym [of "toDouble (gl_price l)" mid] unfolding settled_def by blast
  then show ?case
  proof cases
    case buy
    with Cons.prems(2) obtain p oid st1 ctx1 where "toDecimal (buy_price mid b) = Inr p"
      "placeAt ops BUY i p st ctx = Inr (oid, st1, ctx1)"
      "place_all ops (plan mid ls (Suc i) (b + 1) s) (count_tick oid st1) ctx1 = Inr (st', ctx')"
      by (auto simp: bind_outcome_Inr_iff)
    then show ?thesis
      by (rule placed) (use buy in \<open>simp add: d_less_asym\<close>)
  next
    case sell
    with Cons.prems(2) obtain p oid st1 ctx1 where "toDecimal (sell_price mid s) = Inr p"
      "placeAt ops SELL i p st ctx = Inr (oid, st1, ctx1)"
      "place_all ops (plan mid ls (Suc i) b (s + 1)) (count_tick oid st1) ctx1 = Inr (st', ctx')"
      by (auto simp: bind_outcome_Inr_iff)
    then show ?thesis
      by (rule placed) (use sell in simp)
  next
    case skip
    then have "plan mid (l # ls) i b s = plan mid ls (Suc i) b s"
      using d_less_asym [of "toDouble (gl_price l)" mid] by (auto simp: settled_def)
    with Cons.prems(2) skip_settled [OF skip] show ?thesis by simp
  qed
qed simp

text \<open>
  Property C18: the grid does not pile up orders. If every order of a tick is accepted, the next tick, with the
  same mid price and no fill in between, places nothing and changes nothing: every level below the mid
  price has a buy out and every level above it a sell.
\<close>

theorem second_tick_places_nothing:
  assumes acc: "accepts_all ops" and first: "onTick ops tick st ctx = Inr (st1, ctx1)"
  shows "onTick ops tick' st1 ctx1 = Inr (st1, ctx1)"
proof (cases "if gs_initialized st then getMidPrice ops ctx (gc_symbol_id (gs_cfg st)) else None")
  case None
  with first show ?thesis by (auto simp: onTick_def split: if_splits)
next
  case (Some mid)
  then have "place_all ops (plan (toDouble mid) (gs_levels st) 0 0 0) st ctx = Inr (st1, ctx1)"
    using first tick_levels_plan [where ops = ops, of 0 st "gs_levels st"] by (simp add: onTick_def split: if_splits)
  from place_all_settles [OF acc _ this]
  have "\<forall>l \<in> set (gs_levels st1). settled (toDouble mid) l" and "gs_initialized st1 = gs_initialized st"
    and "getMidPrice ops ctx1 (gc_symbol_id (gs_cfg st1)) = getMidPrice ops ctx (gc_symbol_id (gs_cfg st))"
    by simp_all
  with Some show ?thesis
    using tick_levels_plan [where ops = ops and st = st1, of 0 "gs_levels st1" "toDouble mid" 0 0 ctx1]
    by (simp add: onTick_def plan_settled split: if_splits)
qed

section \<open>The round trip of a level\<close>


section \<open>Runs of callbacks\<close>

text \<open>
  What the engine can do with a strategy: any sequence of callbacks, in any order, with the context going
  on in between (other strategies submit orders, prices change). \<open>filled\<close> lists the order ids of the fills
  that were counted.
\<close>

inductive grid_run ::
  "'c context_ops \<Rightarrow> ('c \<Rightarrow> u64 set) \<Rightarrow> GridStrategy \<Rightarrow> 'c \<Rightarrow> GridStrategy \<Rightarrow> 'c \<Rightarrow> u64 list \<Rightarrow> bool"
  for ops used st0 ctx0 where
  run_start: "grid_run ops used st0 ctx0 st0 ctx0 []"
| run_load: "grid_run ops used st0 ctx0 st ctx filled \<Longrightarrow> grid_run ops used st0 ctx0 (onLoad st) ctx filled"
| run_unload: "grid_run ops used st0 ctx0 st ctx filled \<Longrightarrow> grid_run ops used st0 ctx0 (onUnload st) ctx filled"
| run_tick: "grid_run ops used st0 ctx0 st ctx filled \<Longrightarrow> onTick ops tick st ctx = Inr (st', ctx') \<Longrightarrow>
    grid_run ops used st0 ctx0 st' ctx' filled"
| run_timer: "grid_run ops used st0 ctx0 st ctx filled \<Longrightarrow> onTimer ops ts st ctx = (st', ctx') \<Longrightarrow>
    grid_run ops used st0 ctx0 st' ctx' filled"
| run_fill: "grid_run ops used st0 ctx0 st ctx filled \<Longrightarrow> onFill ops fill st ctx = Inr (st', ctx') \<Longrightarrow>
    grid_run ops used st0 ctx0 st' ctx'
      (if gs_fills_processed st' = gs_fills_processed st then filled else filled @ [fill_order_id fill])"
| run_context: "grid_run ops used st0 ctx0 st ctx filled \<Longrightarrow> used ctx \<subseteq> used ctx' \<Longrightarrow>
    grid_run ops used st0 ctx0 st ctx' filled"

text \<open>Ids that a callback leaves at a level are ids that were there before, or new ones, or \<open>0\<close>.\<close>

definition ids_from :: "u64 set \<Rightarrow> GridStrategy \<Rightarrow> GridStrategy \<Rightarrow> bool" where
  "ids_from old st st' \<longleftrightarrow> level_count st' = level_count st \<and> gs_fills_processed st' = gs_fills_processed st \<and>
     (\<forall>k < level_count st. \<forall>s. order_id st' k s = order_id st k s \<or> order_id st' k s = 0 \<or> order_id st' k s \<notin> old)"

lemma placeAt_ids_from:
  assumes fresh: "fresh_ids ops used" and place: "placeAt ops side i price st ctx = Inr (oid, st', ctx')"
  shows "ids_from (used ctx) st st' \<and> used ctx \<subseteq> used ctx'"
proof -
  obtain order where sub: "submitOrder ops ctx order = (oid, ctx')"
    and st': "oid = 0 \<Longrightarrow> st' = st" "oid \<noteq> 0 \<Longrightarrow> i < level_count st \<and> st' = set_id i side oid st"
    using place by (rule placeAt_InrE) blast
  have "used ctx \<subseteq> used ctx'" "oid \<noteq> 0 \<Longrightarrow> oid \<notin> used ctx"
    using fresh sub by (auto simp: fresh_ids_def)
  with st' show ?thesis by (cases "oid = 0") (auto simp: ids_from_def)
qed

lemma ids_from_trans:
  assumes "ids_from old st st1" and "ids_from old1 st1 st2" and "old \<subseteq> old1"
  shows "ids_from old st st2"
  using assms unfolding ids_from_def by (metis subsetD)

lemma place_all_ids_from:
  assumes fresh: "fresh_ids ops used"
  shows "place_all ops ps st ctx = Inr (st', ctx') \<Longrightarrow> ids_from (used ctx) st st' \<and> used ctx \<subseteq> used ctx'"
proof (induction ps arbitrary: st ctx)
  case (Cons p ps)
  obtain i side price where p: "p = (i, side, price)" by (cases p)
  obtain d oid st1 ctx1 where one: "placeAt ops side i d st ctx = Inr (oid, st1, ctx1)"
    and rest: "place_all ops ps (count_tick oid st1) ctx1 = Inr (st', ctx')"
    using Cons.prems by (auto simp: p bind_outcome_Inr_iff)
  note a = placeAt_ids_from [OF fresh one] and b = Cons.IH [OF rest]
  have "ids_from (used ctx) st (count_tick oid st1)"
    using a by (simp add: ids_from_def count_tick_def)
  with a b show ?case
    by (auto intro: ids_from_trans)
qed (simp add: ids_from_def)

lemma onTick_ids_from:
  assumes fresh: "fresh_ids ops used" and tick: "onTick ops tick st ctx = Inr (st', ctx')"
  shows "ids_from (used ctx) st st' \<and> used ctx \<subseteq> used ctx'"
proof (cases "if gs_initialized st then getMidPrice ops ctx (gc_symbol_id (gs_cfg st)) else None")
  case None
  with tick show ?thesis by (simp add: onTick_def ids_from_def split: if_splits)
next
  case (Some mid)
  then have "place_all ops (plan (toDouble mid) (gs_levels st) 0 0 0) st ctx = Inr (st', ctx')"
    using tick tick_levels_plan [where ops = ops, of 0 st "gs_levels st"] by (simp add: onTick_def split: if_splits)
  then show ?thesis by (rule place_all_ids_from [OF fresh])
qed

lemma onTimer_ids_from:
  assumes fresh: "fresh_ids ops used" and timer: "onTimer ops ts st ctx = (st', ctx')"
  shows "ids_from (used ctx) st st' \<and> used ctx \<subseteq> used ctx'"
proof (cases "if gs_initialized st then getMidPrice ops ctx (gc_symbol_id (gs_cfg st)) else None")
  case None
  with timer show ?thesis by (simp add: onTimer_result ids_from_def)
next
  case (Some mid)
  then have st': "st' = st\<lparr>gs_levels := map (drop_stale (toDouble mid)) (gs_levels st)\<rparr>"
    and "used ctx \<subseteq> used ctx'"
    using timer used_cancel_all [OF fresh, of ctx] by (auto simp: onTimer_result)
  moreover have "level_count st' = level_count st" "gs_fills_processed st' = gs_fills_processed st"
    by (simp_all add: st' level_count_def)
  moreover have "order_id st' k s = 0 \<or> order_id st' k s = order_id st k s" if "k < level_count st" for k s
    using order_id_drop_stale [of k "gs_levels st" st' "toDouble mid" s] that by (simp add: st' level_count_def)
  ultimately show ?thesis unfolding ids_from_def by blast
qed

definition run_ok :: "('c \<Rightarrow> u64 set) \<Rightarrow> u64 \<Rightarrow> GridStrategy \<Rightarrow> 'c \<Rightarrow> u64 list \<Rightarrow> bool" where
  "run_ok used start st ctx filled \<longleftrightarrow> ids_ok (used ctx) st \<and> distinct filled \<and> 0 \<notin> set filled \<and>
     set filled \<subseteq> used ctx \<and> (\<forall>k < level_count st. \<forall>s. order_id st k s \<notin> set filled) \<and>
     gs_fills_processed st = start + of_nat (length filled)"

lemma run_ok_from:
  assumes ok: "run_ok used start st ctx filled" and "ids_from (used ctx) st st'" and "used ctx \<subseteq> used ctx'"
    and "ids_ok (used ctx') st'"
  shows "run_ok used start st' ctx' filled"
proof -
  have "order_id st' k s \<notin> set filled" if "k < level_count st'" for k s
    using assms(1,2) that unfolding run_ok_def ids_from_def by (metis subsetD)
  with assms show ?thesis
    unfolding run_ok_def ids_from_def by auto
qed

lemma run_ok_fill:
  assumes fresh: "fresh_ids ops used" and ok: "run_ok used start st ctx filled"
    and fill: "onFill ops fill st ctx = Inr (st', ctx')"
  shows "run_ok used start st' ctx'
    (if gs_fills_processed st' = gs_fills_processed st then filled else filled @ [fill_order_id fill])"
proof (cases "\<exists>i < level_count st. \<exists>side. order_id st i side = fill_order_id fill \<and> fill_order_id fill \<noteq> 0")
  case False
  then have "onFill ops fill st ctx = Inr (st, ctx)"
    unfolding onFill_levels by (intro fill_levels_none) auto
  with fill ok show ?thesis by simp
next
  case True
  let ?o = "fill_order_id fill"
  obtain i side where i: "i < level_count st" "order_id st i side = ?o" "?o \<noteq> 0"
    using True by blast
  have ids: "ids_ok (used ctx) st" using ok by (simp add: run_ok_def)
  have at: "fill_at ops side (fill_mid ops st ctx) i st ctx = Inr (st', ctx')"
    using fill by (simp add: onFill_levels fill_levels_at [OF ids i])
  obtain oid where n: "level_count st' = level_count st" and u: "used ctx \<subseteq> used ctx'"
    and oid: "oid \<noteq> 0 \<longrightarrow> oid \<notin> used ctx"
    and new: "\<And>k s. order_id st' k s =
        (if neighbour side (level_count st) i = Some k \<and> s = other_side side \<and> oid \<noteq> 0 then oid
         else if k = i \<and> s = side then 0 else order_id st k s)"
    using fill_at_result [OF fresh i(1) at] by blast
  have old: "?o \<in> used ctx" "?o \<notin> set filled"
    using ids i ok unfolding ids_ok_def run_ok_def by metis+
  have gone: "order_id st' k s \<notin> set (filled @ [?o])" if k: "k < level_count st'" for k s
  proof -
    have "order_id st k s \<noteq> ?o" if "\<not> (k = i \<and> s = side)"
      using ids i k n that unfolding ids_ok_def by metis
    moreover have "order_id st k s \<notin> set filled" "0 \<notin> set filled" "set filled \<subseteq> used ctx"
      using ok k n by (auto simp: run_ok_def)
    ultimately show ?thesis
      using new [of k s] oid old i(3) by auto
  qed
  have "ids_ok (used ctx') st'" by (rule onFill_ids [OF fresh ids fill])
  moreover have "gs_fills_processed st' = gs_fills_processed st + 1" by (rule fill_at_counts [OF at])
  ultimately show ?thesis
    using ok old u i(3) gone by (auto simp: run_ok_def)
qed

lemma grid_run_ok:
  assumes fresh: "fresh_ids ops used" and start: "ids_ok (used ctx0) st0"
    and run: "grid_run ops used st0 ctx0 st ctx filled"
  shows "run_ok used (gs_fills_processed st0) st ctx filled"
  using run
proof induction
  case run_start
  with start show ?case by (simp add: run_ok_def)
next
  case (run_load st ctx filled)
  then show ?case by (simp add: run_ok_def ids_ok_def onLoad_def order_id_def level_count_def cong: OrderSide.case_cong)
next
  case (run_unload st ctx filled)
  then show ?case by (simp add: run_ok_def ids_ok_def onUnload_def order_id_def level_count_def cong: OrderSide.case_cong)
next
  case (run_tick st ctx filled tick st' ctx')
  moreover have "ids_ok (used ctx) st" using run_tick.IH by (simp add: run_ok_def)
  ultimately show ?case
    using onTick_ids_from [OF fresh run_tick.hyps(2)] onTick_ids [OF fresh _ run_tick.hyps(2)]
    by (auto intro: run_ok_from)
next
  case (run_timer st ctx filled ts st' ctx')
  moreover have "ids_ok (used ctx) st" using run_timer.IH by (simp add: run_ok_def)
  ultimately show ?case
    using onTimer_ids_from [OF fresh run_timer.hyps(2)] onTimer_ids [OF fresh _ run_timer.hyps(2)]
    by (auto intro: run_ok_from)
next
  case (run_fill st ctx filled fill st' ctx')
  then show ?case by (intro run_ok_fill [OF fresh])
next
  case (run_context st ctx filled ctx')
  then show ?case
    using ids_ok_mono [of "used ctx" st "used ctx'"] by (auto simp: run_ok_def)
qed

text \<open>
  Property C16: every order counts once. From the grid that the constructor builds, whatever callbacks come in
  whatever order, the order ids of the fills that are counted (and answered by a counter-order) are pairwise
  different, all handed out by the context and none \<open>0\<close>; their number is what \<^verbatim>\<open>fillCount()\<close> shows. Orders
  filled in parts, repeated fills and fills of other strategies' orders do not break this.
\<close>

theorem every_order_counts_once:
  assumes "fresh_ids ops used" and "GridStrategy_new cfg = Inr st0"
    and "grid_run ops used st0 ctx0 st ctx filled"
  shows "distinct filled \<and> set filled \<subseteq> used ctx - {0} \<and> fillCount st = of_nat (length filled) \<and>
    (\<forall>k < level_count st. \<forall>side. order_id st k side \<notin> set filled)"
proof -
  obtain ls spacing where ls: "push_levels (gc_grid_low cfg) spacing [0..gc_grid_levels cfg] = Inr ls"
    and st0: "gs_levels st0 = ls" "gs_fills_processed st0 = 0"
    using assms(2) by (auto simp: GridStrategy_new_def Let_def bind_outcome_Inr_iff split: if_splits)
  have "order_id st0 k side = 0" if k: "k < level_count st0" for k side
  proof -
    from ls k st0(1) obtain p where "ls ! k = \<lparr>gl_price = p, gl_buy_order_id = 0, gl_sell_order_id = 0\<rparr>"
      by (auto simp: push_levels_Inr level_count_def)
    then show ?thesis by (simp add: order_id_def st0 split: OrderSide.split)
  qed
  then have "ids_ok (used ctx0) st0" by (auto simp: ids_ok_def)
  from grid_run_ok [OF assms(1) this assms(3)] st0(2) show ?thesis
    by (auto simp: run_ok_def fillCount_def)
qed

section \<open>Concrete runs\<close>

lemma returns_pairD:
  "(case r of Inl f \<Rightarrow> False | Inr (a, b) \<Rightarrow> P a b) \<Longrightarrow> \<exists>a b. r = Inr (a, b) \<and> P a b"
  by (auto split: sum.splits)

definition counting_ops :: "Decimal option \<Rightarrow> nat context_ops" where
  "counting_ops mid =
     \<lparr>getMidPrice = (\<lambda>c s. mid), submitOrder = (\<lambda>c r. (1, Suc c)), cancelOrder = (\<lambda>c i. (False, c))\<rparr>"

theorem second_tick_places_nothing_witness:
  "\<exists>st. onTick (counting_ops (Some (price_raw 103))) Tick_init example_grid 0 = Inr (st, 2) \<and>
     onTick (counting_ops (Some (price_raw 103))) Tick_init st 2 = Inr (st, 2)"
proof -
  have "case onTick (counting_ops (Some (price_raw 103))) Tick_init example_grid 0 of
      Inr (st, n) \<Rightarrow> n = 2 | Inl f \<Rightarrow> False"
    by code_simp
  then obtain st where st: "onTick (counting_ops (Some (price_raw 103))) Tick_init example_grid 0 = Inr (st, 2)"
    by (auto split: sum.splits)
  have "accepts_all (counting_ops (Some (price_raw 103)))"
    by (auto simp: accepts_all_def counting_ops_def)
  from second_tick_places_nothing [OF this st] st show ?thesis by blast
qed

lemma after_two_fills:
  "\<exists>st1 st2. onFill (example_ops None) (example_fill 1) example_grid [2, 1] = Inr (st1, [3, 2, 1]) \<and>
     order_id st1 1 SELL = 3 \<and> onFill (example_ops None) (example_fill 3) st1 [3, 2, 1] = Inr (st2, [4, 3, 2, 1])"
proof -
  have "case onFill (example_ops None) (example_fill 1) example_grid [2, 1] of Inl f \<Rightarrow> False
      | Inr (st1, c1) \<Rightarrow> c1 = [3, 2, 1] \<and> order_id st1 1 SELL = 3 \<and>
          (case onFill (example_ops None) (example_fill 3) st1 c1 of Inl f \<Rightarrow> False | Inr (st2, c2) \<Rightarrow> c2 = [4, 3, 2, 1])"
    by code_simp
  then show ?thesis by (fastforce dest!: returns_pairD)
qed


definition built_grid :: GridStrategy where
  "built_grid =
     \<lparr>gs_cfg = example_config,
      gs_levels = map (\<lambda>p. \<lparr>gl_price = price_raw p, gl_buy_order_id = 0, gl_sell_order_id = 0\<rparr>) [95, 100, 105],
      gs_initialized = False, gs_ticks_processed = 0, gs_fills_processed = 0\<rparr>"

lemma built_grid_new: "GridStrategy_new example_config = Inr built_grid"
proof -
  have "push_levels (Fin 95) (d_div (d_sub (Fin 105) (Fin 95)) (d_of_int 2)) [0..2] = Inr (gs_levels built_grid)"
    by code_simp
  then show ?thesis
    by (simp add: GridStrategy_new_def example_config_def reserve_limit_def Let_def built_grid_def)
qed

theorem every_order_counts_once_witness:
  "\<exists>st ctx. grid_run (example_ops (Some (price_raw 101))) set built_grid [] st ctx [2] \<and> fillCount st = 1"
proof -
  let ?ops = "example_ops (Some (price_raw 101))"
  have "case onTick ?ops Tick_init (onLoad built_grid) [] of Inl f \<Rightarrow> False
      | Inr (st1, c1) \<Rightarrow> gs_fills_processed st1 = 0 \<and> (case onFill ?ops (example_fill 2) st1 c1 of Inl f \<Rightarrow> False
          | Inr (st2, c2) \<Rightarrow> gs_fills_processed st2 = 1)"
    by code_simp
  then obtain st1 c1 st2 c2 where runs: "onTick ?ops Tick_init (onLoad built_grid) [] = Inr (st1, c1)"
    "onFill ?ops (example_fill 2) st1 c1 = Inr (st2, c2)" "gs_fills_processed st1 = 0" "gs_fills_processed st2 = 1"
    by (fastforce dest!: returns_pairD)
  have "grid_run ?ops set built_grid [] st2 c2 [2]"
    using run_fill [OF run_tick [OF run_load [OF run_start] runs(1)] runs(2)] runs(3,4)
    by (simp add: example_fill_def Fill_init_def)
  from every_order_counts_once [OF example_ops_fresh built_grid_new this] this show ?thesis by auto
qed

end
