(* ===== verification/Grid_Prices.thy ===== *)
theory Grid_Prices
  imports Grid_Runs
begin

text \<open>
  The prices of the grid strategy's orders: the rounding to a tenth keeps order, and a run at a constant mid
  price never sells above a price at which it buys.
\<close>

section \<open>Rounding keeps order\<close>

lemma floor_half_mono: "p \<le> q \<Longrightarrow> \<lfloor>p + 1 / 2\<rfloor> \<le> \<lfloor>q + 1 / 2\<rfloor>" for p q :: rat
  by (intro floor_mono) simp

lemma round_half_away_mono:
  assumes "p \<le> q"
  shows "round_half_away p \<le> round_half_away q"
proof -
  have "0 \<le> \<lfloor>r + 1 / 2\<rfloor>" if "0 \<le> r" for r :: rat
    using that by simp
  from this [of q] this [of "- p"]
  have zero: "0 \<le> q \<Longrightarrow> 0 \<le> \<lfloor>q + 1 / 2\<rfloor>" "p \<le> 0 \<Longrightarrow> - \<lfloor>- p + 1 / 2\<rfloor> \<le> 0"
    by simp_all
  have mono: "\<lfloor>p + 1 / 2\<rfloor> \<le> \<lfloor>q + 1 / 2\<rfloor>" "- \<lfloor>- p + 1 / 2\<rfloor> \<le> - \<lfloor>- q + 1 / 2\<rfloor>"
    using assms floor_half_mono [of p q] floor_half_mono [of "- q" "- p"] by simp_all
  show ?thesis
  proof (cases "0 \<le> p")
    case True
    with assms mono(1) show ?thesis by (simp add: round_half_away_def)
  next
    case False
    with assms mono(2) order_trans [OF zero(2) zero(1)] show ?thesis by (simp add: round_half_away_def)
  qed
qed

lemma toDouble_mono:
  assumes "a \<le> b" and "toDouble a = Fin p" and "toDouble b = Fin q"
  shows "p \<le> q"
proof -
  have fin: "\<exists>r. rnd (of_int (sint (raw_value d))) = Fin r \<and> rnd (r / 2 ^ 32) = Fin s" if "toDouble d = Fin s" for d s
    using that by (cases "rnd (of_int (sint (raw_value d)))")
      (auto simp: toDouble_def d_of_int_def decimal_scale_def signed_inf_def)
  obtain r where r: "rnd (of_int (sint (raw_value a))) = Fin r" "rnd (r / 2 ^ 32) = Fin p"
    using fin [OF assms(2)] by blast
  obtain s where s: "rnd (of_int (sint (raw_value b))) = Fin s" "rnd (s / 2 ^ 32) = Fin q"
    using fin [OF assms(3)] by blast
  have "r \<le> s"
    by (rule rnd_mono [OF _ r(1) s(1)]) (use assms(1) in \<open>simp only: less_eq_Decimal_def of_int_le_iff\<close>)
  then show ?thesis
    by (intro rnd_mono [OF _ r(2) s(2)]) (simp add: divide_right_mono)
qed

lemma rnd_10: "rnd 10 = Fin 10"
  using rnd_of_int_pow2 [of 10 0] by simp

text \<open>The doubles that \<^verbatim>\<open>roundPrice\<close> goes through when it returns.\<close>

lemma roundPrice_InrD:
  assumes "roundPrice d 1 = Inr d'"
  obtains v w z where "toDouble d = Fin v" and "rnd (v * 10) = Fin w"
    and "rnd (of_int (round_half_away w) / 10) = Fin z" and "toDecimal (Fin z) = Inr d'"
proof -
  have r: "toDecimal (d_div (d_round (d_mul (toDouble d) (Fin 10))) (Fin 10)) = Inr d'"
    using assms by (simp add: roundPrice_def rnd_10 Let_def)
  then obtain z where z: "d_div (d_round (d_mul (toDouble d) (Fin 10))) (Fin 10) = Fin z"
    using toDecimal_finite by blast
  then obtain w where w: "d_mul (toDouble d) (Fin 10) = Fin w"
    by (cases "d_mul (toDouble d) (Fin 10)") auto
  then obtain v where "toDouble d = Fin v"
    by (cases "toDouble d") auto
  with r z w show thesis by (intro that) auto
qed

lemma roundPrice_mono:
  assumes "a \<le> b" and "roundPrice a 1 = Inr a'" and "roundPrice b 1 = Inr b'"
  shows "a' \<le> b'"
proof -
  obtain v w z where a: "toDouble a = Fin v" "rnd (v * 10) = Fin w" "rnd (of_int (round_half_away w) / 10) = Fin z"
    "toDecimal (Fin z) = Inr a'"
    using assms(2) by (rule roundPrice_InrD)
  obtain v' w' z' where b: "toDouble b = Fin v'" "rnd (v' * 10) = Fin w'" "rnd (of_int (round_half_away w') / 10) = Fin z'"
    "toDecimal (Fin z') = Inr b'"
    using assms(3) by (rule roundPrice_InrD)
  have "v \<le> v'" by (rule toDouble_mono [OF assms(1) a(1) b(1)])
  then have "w \<le> w'" by (intro rnd_mono [OF _ a(2) b(2)]) simp
  then have "z \<le> z'"
    by (intro rnd_mono [OF _ a(3) b(3)]) (simp add: round_half_away_mono divide_right_mono)
  then show ?thesis by (rule toDecimal_mono [OF _ a(4) b(4)])
qed

section \<open>Runs at a constant mid price\<close>

text \<open>
  Callbacks one after another, on a context that keeps a log of the orders submitted to it and whose
  mid price does not move.
\<close>

datatype callback = On_load | On_unload | On_tick Tick | On_fill Fill | On_timer u64

fun run_callback :: "'c context_ops \<Rightarrow> callback \<Rightarrow> GridStrategy \<times> 'c \<Rightarrow> (GridStrategy \<times> 'c) outcome" where
  "run_callback ops On_load (st, ctx) = Inr (onLoad st, ctx)"
| "run_callback ops On_unload (st, ctx) = Inr (onUnload st, ctx)"
| "run_callback ops (On_tick t) (st, ctx) = onTick ops t st ctx"
| "run_callback ops (On_fill f) (st, ctx) = onFill ops f st ctx"
| "run_callback ops (On_timer ts) (st, ctx) = Inr (onTimer ops ts st ctx)"

fun run_callbacks :: "'c context_ops \<Rightarrow> callback list \<Rightarrow> GridStrategy \<times> 'c \<Rightarrow> (GridStrategy \<times> 'c) outcome" where
  "run_callbacks ops [] s = Inr s"
| "run_callbacks ops (e # es) s = bind_outcome (run_callback ops e s) (run_callbacks ops es)"

definition watched :: "'c context_ops \<Rightarrow> ('c \<Rightarrow> OrderRequest list) \<Rightarrow> Decimal \<Rightarrow> bool" where
  "watched ops submitted mid \<longleftrightarrow>
     (\<forall>c s. getMidPrice ops c s = Some mid) \<and>
     (\<forall>c r oid c'. submitOrder ops c r = (oid, c') \<longrightarrow> submitted c' = submitted c @ [r]) \<and>
     (\<forall>c i. submitted (snd (cancelOrder ops c i)) = submitted c)"

text \<open>The request comes from a price on the side of the mid price \<open>m\<close> on which it does not profit.\<close>

definition no_bargain :: "rat \<Rightarrow> OrderRequest \<Rightarrow> bool" where
  "no_bargain m r \<longleftrightarrow> (\<exists>x p. toDecimal (Fin x) = Inr p \<and> roundPrice p 1 = Inr (req_price r) \<and>
     (case req_side r of BUY \<Rightarrow> m \<le> x | SELL \<Rightarrow> x \<le> m))"

lemma no_bargain_order:
  assumes "grid_order cfg side p = Inr r" and "toDecimal x = Inr p"
    and "\<And>q. x = Fin q \<Longrightarrow> (case side of BUY \<Rightarrow> m \<le> q | SELL \<Rightarrow> q \<le> m)"
  shows "no_bargain m r"
proof -
  obtain q where q: "x = Fin q" using toDecimal_finite [OF assms(2)] by blast
  have "roundPrice p 1 = Inr (req_price r)" "req_side r = side"
    using assms(1) by (auto simp: grid_order_def bind_outcome_Inr_iff)
  with q assms(2,3) show ?thesis
    unfolding no_bargain_def by blast
qed

lemma no_bargain_pair:
  assumes "no_bargain m b" and "no_bargain m s" and "req_side b = BUY" and "req_side s = SELL"
  shows "req_price s \<le> req_price b"
proof -
  obtain x p where b: "toDecimal (Fin x) = Inr p" "roundPrice p 1 = Inr (req_price b)" "m \<le> x"
    using assms(1,3) by (auto simp: no_bargain_def)
  obtain y q where s: "toDecimal (Fin y) = Inr q" "roundPrice q 1 = Inr (req_price s)" "y \<le> m"
    using assms(2,4) by (auto simp: no_bargain_def)
  have "q \<le> p"
    using s(3) b(3) by (intro toDecimal_mono [OF _ s(1) b(1)]) simp
  then show ?thesis by (rule roundPrice_mono [OF _ s(2) b(2)])
qed

definition all_no_bargain :: "('c \<Rightarrow> OrderRequest list) \<Rightarrow> rat \<Rightarrow> 'c \<Rightarrow> bool" where
  "all_no_bargain submitted m ctx \<longleftrightarrow> (\<forall>r \<in> set (submitted ctx). no_bargain m r)"

lemma placeAt_no_bargain:
  assumes "watched ops submitted mid" and "placeAt ops side i p st ctx = Inr (oid, st', ctx')" and "toDecimal x = Inr p"
    and "\<And>q. x = Fin q \<Longrightarrow> (case side of BUY \<Rightarrow> m \<le> q | SELL \<Rightarrow> q \<le> m)" and "all_no_bargain submitted m ctx"
  shows "all_no_bargain submitted m ctx'"
proof -
  obtain order where order: "grid_order (gs_cfg st) side p = Inr order" "submitOrder ops ctx order = (oid, ctx')"
    using assms(2) by (rule placeAt_InrE)
  then have "submitted ctx' = submitted ctx @ [order]"
    using assms(1) by (auto simp: watched_def)
  with no_bargain_order [OF order(1) assms(3,4)] assms(5) show ?thesis
    by (simp add: all_no_bargain_def)
qed

lemma place_all_no_bargain:
  assumes w: "watched ops submitted mid"
  shows "place_all ops ps st ctx = Inr (st', ctx') \<Longrightarrow> all_no_bargain submitted m ctx \<Longrightarrow>
    (\<And>i side q. (i, side, Fin q) \<in> set ps \<Longrightarrow> (case side of BUY \<Rightarrow> m \<le> q | SELL \<Rightarrow> q \<le> m)) \<Longrightarrow>
    all_no_bargain submitted m ctx'"
proof (induction ps arbitrary: st ctx)
  case (Cons e ps)
  obtain i side x where e: "e = (i, side, x)" by (cases e)
  obtain p oid st1 ctx1 where one: "toDecimal x = Inr p" "placeAt ops side i p st ctx = Inr (oid, st1, ctx1)"
    and rest: "place_all ops ps (count_tick oid st1) ctx1 = Inr (st', ctx')"
    using Cons.prems(1) by (auto simp: e bind_outcome_Inr_iff)
  have "all_no_bargain submitted m ctx1"
    by (rule placeAt_no_bargain [OF w one(2,1) _ Cons.prems(2)]) (use Cons.prems(3) e in auto)
  then show ?case
    by (rule Cons.IH [OF rest]) (use Cons.prems(3) in auto)
qed simp

lemma planned_no_bargain:
  assumes "(i, side, Fin q) \<in> set (plan (Fin m) ls 0 0 0)" and "rnd m = Fin m"
  shows "case side of BUY \<Rightarrow> m \<le> q | SELL \<Rightarrow> q \<le> m"
  using planned_orders_cross_mid [OF assms] by (cases side) simp_all

lemma counter_no_bargain:
  assumes "counter_price side (Fin m) price = Fin q" and "0 < m"
  shows "case other_side side of BUY \<Rightarrow> m \<le> q | SELL \<Rightarrow> q \<le> m"
  using assms by (cases side; cases price) (auto simp: counter_price_def other_side_def d_min_def d_max_def split: if_splits)

lemma fill_at_no_bargain:
  assumes w: "watched ops submitted mid" and fill: "fill_at ops side (Fin m) i st ctx = Inr (st', ctx')"
    and m: "0 < m" and ok: "all_no_bargain submitted m ctx"
  shows "all_no_bargain submitted m ctx'"
proof (cases "neighbour side (level_count st) i")
  case None
  with fill ok show ?thesis by (simp add: fill_at_def Let_def)
next
  case (Some j)
  let ?st1 = "(set_id i side 0 st)\<lparr>gs_fills_processed := gs_fills_processed st + 1\<rparr>"
  obtain p oid where p: "toDecimal (counter_price side (Fin m) (grid_price st j)) = Inr p"
    and place: "placeAt ops (other_side side) j p ?st1 ctx = Inr (oid, st', ctx')"
    using fill Some by (auto simp: fill_at_def Let_def bind_outcome_Inr_iff)
  show ?thesis
    by (rule placeAt_no_bargain [OF w place p counter_no_bargain [OF _ m] ok])
qed

lemma fill_levels_no_bargain:
  assumes "watched ops submitted mid" and "0 < m" and "all_no_bargain submitted m ctx"
  shows "fill_levels ops (Fin m) fill is st ctx = Inr (st', ctx') \<Longrightarrow> all_no_bargain submitted m ctx'"
proof (induction "is")
  case (Cons i "is")
  then show ?case
    using fill_at_no_bargain [OF assms(1) _ assms(2,3)] by (auto simp: fill_buy_at fill_sell_at split: if_splits)
qed (use assms in simp)

lemma cancel_all_submitted: "watched ops submitted mid \<Longrightarrow> submitted (cancel_all ops oids ctx) = submitted ctx"
  by (induction oids arbitrary: ctx) (simp_all add: cancel_all_def watched_def)

lemma run_callback_no_bargain:
  assumes w: "watched ops submitted mid" and m: "toDouble mid = Fin m" "0 < m" "rnd m = Fin m"
    and run: "run_callback ops e (st, ctx) = Inr (st', ctx')" and ok: "all_no_bargain submitted m ctx"
  shows "all_no_bargain submitted m ctx'"
proof (cases e)
  case (On_tick t)
  show ?thesis
  proof (cases "gs_initialized st")
    case True
    then have "place_all ops (plan (Fin m) (gs_levels st) 0 0 0) st ctx = Inr (st', ctx')"
      using run On_tick w m(1) tick_levels_plan [where ops = ops, of 0 st "gs_levels st"]
      by (simp add: onTick_def watched_def)
    then show ?thesis
      by (rule place_all_no_bargain [OF w _ ok planned_no_bargain [OF _ m(3)]])
  next
    case False
    with run On_tick ok show ?thesis by (simp add: onTick_def)
  qed
next
  case (On_fill f)
  then show ?thesis
    using run fill_levels_no_bargain [OF w m(2) ok] w m(1) by (simp add: onFill_levels fill_mid_def watched_def)
next
  case (On_timer ts)
  then have "submitted ctx' = submitted ctx"
    using run w cancel_all_submitted [OF w] by (auto simp: onTimer_result watched_def split: if_splits)
  with ok show ?thesis by (simp add: all_no_bargain_def)
qed (use run ok in auto)

lemma run_callbacks_no_bargain:
  assumes w: "watched ops submitted mid" and m: "toDouble mid = Fin m" "0 < m" "rnd m = Fin m"
  shows "run_callbacks ops es (st, ctx) = Inr (st', ctx') \<Longrightarrow> all_no_bargain submitted m ctx \<Longrightarrow>
    all_no_bargain submitted m ctx'"
proof (induction es arbitrary: st ctx)
  case (Cons e es)
  obtain st1 ctx1 where one: "run_callback ops e (st, ctx) = Inr (st1, ctx1)"
    and rest: "run_callbacks ops es (st1, ctx1) = Inr (st', ctx')"
    using Cons.prems(1) by (auto simp: bind_outcome_Inr_iff)
  show ?case
    by (rule Cons.IH [OF rest run_callback_no_bargain [OF w m one Cons.prems(2)]])
qed simp

text \<open>
  Property C4: no profit while the mid price stands still. Whatever callbacks a grid gets, as long as the mid
  price is the same positive number, no sell order it submits, as a first order or as a take-profit order,
  has a price above that of any buy order it submits, rounding to a tenth included. A round trip can
  only earn what the mid price moves in between.
\<close>

theorem constant_mid_never_profits:
  assumes "watched ops submitted mid" and "toDouble mid = Fin m" and "0 < m"
    and "run_callbacks ops es (st, ctx) = Inr (st', ctx')" and "submitted ctx = []"
    and "b \<in> set (submitted ctx')" and "req_side b = BUY" and "s \<in> set (submitted ctx')" and "req_side s = SELL"
  shows "req_price s \<le> req_price b"
proof -
  have "\<exists>q. rnd q = Fin m"
    using assms(2) by (cases "d_of_int (sint (raw_value mid))")
      (auto simp: toDouble_def decimal_scale_def signed_inf_def)
  then have "rnd m = Fin m" by (auto dest: rnd_idem)
  from run_callbacks_no_bargain [OF assms(1-3) this assms(4)] assms(5)
  have "all_no_bargain submitted m ctx'" by (simp add: all_no_bargain_def)
  then show ?thesis
    using assms(6-9) by (auto simp: all_no_bargain_def intro: no_bargain_pair)
qed

section \<open>A concrete run\<close>

definition recording_ops :: "Decimal \<Rightarrow> (OrderRequest list) context_ops" where
  "recording_ops mid =
     \<lparr>getMidPrice = (\<lambda>c s. Some mid), submitOrder = (\<lambda>c r. (of_nat (Suc (length c)), c @ [r])),
      cancelOrder = (\<lambda>c i. (True, c))\<rparr>"

lemma recording_watched: "watched (recording_ops mid) (\<lambda>c. c) mid"
  by (auto simp: watched_def recording_ops_def)

text \<open>The buy at 95 fills and is answered by a sell, which fills and is answered by a buy; the mid price is 103.\<close>

theorem constant_mid_never_profits_witness:
  "\<exists>st rs. run_callbacks (recording_ops (price_raw 103)) [On_fill (example_fill 1), On_fill (example_fill 1)] (example_grid, []) =
      Inr (st, rs) \<and> map req_side rs = [SELL, BUY] \<and> req_price (rs ! 0) \<le> req_price (rs ! 1)"
proof -
  let ?run = "run_callbacks (recording_ops (price_raw 103)) [On_fill (example_fill 1), On_fill (example_fill 1)] (example_grid, [])"
  have "case ?run of Inl f \<Rightarrow> False | Inr (st, rs) \<Rightarrow> map req_side rs = [SELL, BUY]"
    by code_simp
  then obtain st rs where run: "?run = Inr (st, rs)" and sides: "map req_side rs = [SELL, BUY]"
    by (auto dest!: returns_pairD)
  have "length rs = 2" "req_side (rs ! 1) = BUY" "req_side (rs ! 0) = SELL"
    using arg_cong [OF sides, of length] arg_cong [OF sides, of "\<lambda>xs. xs ! 1"] arg_cong [OF sides, of "\<lambda>xs. xs ! 0"]
    by simp_all
  moreover have "toDouble (price_raw 103) = Fin (of_int 103)" by code_simp
  ultimately have "req_price (rs ! 0) \<le> req_price (rs ! 1)"
    using constant_mid_never_profits [OF recording_watched _ _ run, of "of_int 103" "rs ! 1" "rs ! 0"] by simp
  with run sides show ?thesis by (intro exI conjI)
qed

end
