(* ===== verification/App_Config.thy ===== *)
theory App_Config
  imports Grid_Strategy Config_Records
begin

text \<open>
  The application's configuration, \<^verbatim>\<open>src/app_config.hpp\<close>: the \<^verbatim>\<open>AppConfig\<close> record with its defaults, the
  command line (\<^verbatim>\<open>parseArgs\<close>) and the configuration file (\<^verbatim>\<open>loadConfig\<close>). Three things are parameters: the
  values that gflags has parsed, the YAML library as a record of the operations the code calls, and the
  process environment as a function. An exception of the YAML library that \<^verbatim>\<open>loadConfig\<close> does not catch is
  the fault \<^const>\<open>Yaml_error\<close>. What is printed is not modelled.
\<close>

section \<open>The configuration\<close>

record StrategyCfg =
  sc_type :: string
  sc_grid_low :: Double
  sc_grid_high :: Double
  sc_grid_levels :: int
  sc_quantity :: Double
  sc_symbol_id :: u32

definition StrategyCfg_init :: StrategyCfg where
  "StrategyCfg_init =
     \<lparr>sc_type = [], sc_grid_low = Fin 95, sc_grid_high = Fin 105, sc_grid_levels = 5, sc_quantity = d_tenth,
      sc_symbol_id = 1\<rparr>"

record AppConfig =
  ac_config_path :: string
  ac_log_dir :: string
  ac_date :: string
  ac_live_mode :: bool
  ac_force_simulate :: bool
  ac_strategies :: "StrategyCfg list"
  ac_exchange_name :: string
  ac_exchange_url :: string
  ac_rest_url :: string
  ac_user_stream_url :: string
  ac_exchange_api_key :: string
  ac_exchange_api_secret :: string
  ac_proxy_host :: string
  ac_proxy_port :: int
  ac_exchange_symbols :: "string list"
  ac_risk_params :: RiskParameters
  ac_initial_capital :: Double
  ac_log_output_dir :: string
  ac_zmq_endpoint :: string
  ac_zmq_hwm :: int
  ac_zmq_linger :: int

definition AppConfig_init :: AppConfig where
  "AppConfig_init =
     \<lparr>ac_config_path = [], ac_log_dir = [], ac_date = [], ac_live_mode = False, ac_force_simulate = False,
      ac_strategies = [], ac_exchange_name = ''binance'', ac_exchange_url = [], ac_rest_url = [],
      ac_user_stream_url = [], ac_exchange_api_key = [], ac_exchange_api_secret = [], ac_proxy_host = [],
      ac_proxy_port = 0, ac_exchange_symbols = [], ac_risk_params = RiskParameters_init,
      ac_initial_capital = Fin 100000, ac_log_output_dir = ''./logs'', ac_zmq_endpoint = ''tcp://*:5555'',
      ac_zmq_hwm = 10000, ac_zmq_linger = 1000\<rparr>"

section \<open>The command line\<close>

text \<open>The flags with their defaults; gflags sets them and leaves the other arguments in \<^verbatim>\<open>argv\<close>.\<close>

record Flags =
  FLAGS_replay :: string
  FLAGS_date :: string
  FLAGS_live :: bool
  FLAGS_simulate :: bool
  FLAGS_exchange :: string
  FLAGS_config :: string

definition Flags_default :: Flags where
  "Flags_default =
     \<lparr>FLAGS_replay = [], FLAGS_date = [], FLAGS_live = False, FLAGS_simulate = False,
      FLAGS_exchange = ''binance'', FLAGS_config = []\<rparr>"

definition parseArgs :: "Flags \<Rightarrow> string list \<Rightarrow> AppConfig \<Rightarrow> bool \<times> AppConfig" where
  "parseArgs flags argv cfg =
     (let cfg1 = cfg\<lparr>ac_log_dir := FLAGS_replay flags, ac_date := FLAGS_date flags,
            ac_live_mode := FLAGS_live flags, ac_force_simulate := FLAGS_simulate flags,
            ac_exchange_name := FLAGS_exchange flags\<rparr>;
          cfg2 = (if FLAGS_config flags \<noteq> [] then cfg1\<lparr>ac_config_path := FLAGS_config flags\<rparr>
            else if length argv > 1 then cfg1\<lparr>ac_config_path := argv ! 1\<rparr>
            else cfg1)
      in (ac_config_path cfg2 \<noteq> [], cfg2))"

section \<open>The configuration file\<close>

text \<open>
  The YAML library: loading a file (\<^const>\<open>None\<close> when it throws), a member or an element of a node (which
  may throw), and conversions, which answer \<^const>\<open>None\<close> when the node is undefined or is no such value.
\<close>

record 'n yaml =
  y_load :: "string \<Rightarrow> 'n option"
  y_get :: "'n \<Rightarrow> string \<Rightarrow> 'n outcome"
  y_index :: "'n \<Rightarrow> nat \<Rightarrow> 'n outcome"
  y_defined :: "'n \<Rightarrow> bool"
  y_is_seq :: "'n \<Rightarrow> bool"
  y_elems :: "'n \<Rightarrow> 'n list"
  y_bool :: "'n \<Rightarrow> bool option"
  y_int :: "'n \<Rightarrow> int option"
  y_u32 :: "'n \<Rightarrow> u32 option"
  y_double :: "'n \<Rightarrow> Double option"
  y_string :: "'n \<Rightarrow> string option"

definition or_default :: "'a option \<Rightarrow> 'a \<Rightarrow> 'a" where
  "or_default v d = (case v of None \<Rightarrow> d | Some x \<Rightarrow> x)"

text \<open>\<^verbatim>\<open>node[key].as<T>(d)\<close>\<close>

definition field :: "'n yaml \<Rightarrow> 'n \<Rightarrow> string \<Rightarrow> ('n \<Rightarrow> 'a option) \<Rightarrow> 'a \<Rightarrow> 'a outcome" where
  "field y node key conv d = bind_outcome (y_get y node key) (\<lambda>v. Inr (or_default (conv v) d))"

text \<open>\<^verbatim>\<open>if (root[key])\<close> with what it guards\<close>

definition when_defined :: "'n yaml \<Rightarrow> 'n \<Rightarrow> string \<Rightarrow> ('n \<Rightarrow> 'a \<Rightarrow> 'a outcome) \<Rightarrow> 'a \<Rightarrow> 'a outcome" where
  "when_defined y doc key f cfg =
     bind_outcome (y_get y doc key) (\<lambda>v. if y_defined y v then f v cfg else Inr cfg)"

definition load_engine :: "'n yaml \<Rightarrow> 'n \<Rightarrow> AppConfig \<Rightarrow> AppConfig outcome" where
  "load_engine y eng cfg =
     bind_outcome (field y eng ''initial_capital'' (y_double y) (Fin 100000)) (\<lambda>c.
       Inr (cfg\<lparr>ac_initial_capital := c\<rparr>))"

definition load_parameters :: "'n yaml \<Rightarrow> 'n \<Rightarrow> StrategyCfg \<Rightarrow> StrategyCfg outcome" where
  "load_parameters y p sc =
     bind_outcome (field y p ''grid_low'' (y_double y) (Fin 95)) (\<lambda>low.
     bind_outcome (field y p ''grid_high'' (y_double y) (Fin 105)) (\<lambda>high.
     bind_outcome (field y p ''grid_levels'' (y_int y) 5) (\<lambda>n.
     bind_outcome (field y p ''quantity'' (y_double y) d_tenth) (\<lambda>q.
     bind_outcome (y_get y p ''symbol_ids'') (\<lambda>ids.
     bind_outcome (y_index y ids 0) (\<lambda>sid.
       Inr (sc\<lparr>sc_grid_low := low, sc_grid_high := high, sc_grid_levels := n, sc_quantity := q,
         sc_symbol_id := or_default (y_u32 y sid) 1\<rparr>)))))))"

definition load_strategy :: "'n yaml \<Rightarrow> 'n \<Rightarrow> StrategyCfg outcome" where
  "load_strategy y s =
     bind_outcome (field y s ''name'' (y_string y) ''GridStrategy'') (\<lambda>name.
       when_defined y s ''parameters'' (load_parameters y) (StrategyCfg_init\<lparr>sc_type := name\<rparr>))"

fun load_strategies :: "'n yaml \<Rightarrow> 'n list \<Rightarrow> AppConfig \<Rightarrow> AppConfig outcome" where
  "load_strategies y [] cfg = Inr cfg"
| "load_strategies y (s # ss) cfg =
     bind_outcome (field y s ''enabled'' (y_bool y) True) (\<lambda>enabled.
       if \<not> enabled then load_strategies y ss cfg
       else bind_outcome (load_strategy y s) (\<lambda>sc.
         load_strategies y ss (cfg\<lparr>ac_strategies := ac_strategies cfg @ [sc]\<rparr>)))"

definition load_strategies_section :: "'n yaml \<Rightarrow> 'n \<Rightarrow> AppConfig \<Rightarrow> AppConfig outcome" where
  "load_strategies_section y v cfg = (if y_is_seq y v then load_strategies y (y_elems y v) cfg else Inr cfg)"

text \<open>\<^verbatim>\<open>std::getenv\<close> reads its argument up to the first zero byte.\<close>

definition resolveEnv :: "(string \<Rightarrow> string option) \<Rightarrow> string \<Rightarrow> string" where
  "resolveEnv getenv s =
     (if length s > 3 \<and> s ! 0 = CHR ''$'' \<and> s ! 1 = CHR ''{'' \<and> last s = CHR ''}''
      then or_default (getenv (takeWhile (\<lambda>c. c \<noteq> CHR 0x00) (take (length s - 3) (drop 2 s)))) []
      else s)"

definition env_fallback :: "(string \<Rightarrow> string option) \<Rightarrow> string \<Rightarrow> string \<Rightarrow> string" where
  "env_fallback getenv var v = (if v = [] then or_default (getenv var) v else v)"

fun load_symbols :: "'n yaml \<Rightarrow> 'n list \<Rightarrow> AppConfig \<Rightarrow> AppConfig outcome" where
  "load_symbols y [] cfg = Inr cfg"
| "load_symbols y (v # vs) cfg =
     (case y_string y v of
        None \<Rightarrow> Inl Yaml_error
      | Some s \<Rightarrow> load_symbols y vs (cfg\<lparr>ac_exchange_symbols := ac_exchange_symbols cfg @ [s]\<rparr>))"

definition load_exchange :: "'n yaml \<Rightarrow> (string \<Rightarrow> string option) \<Rightarrow> 'n \<Rightarrow> AppConfig \<Rightarrow> AppConfig outcome" where
  "load_exchange y getenv ex cfg =
     bind_outcome (field y ex ''name'' (y_string y) ''binance'') (\<lambda>name.
     bind_outcome (field y ex ''websocket_url'' (y_string y) []) (\<lambda>ws.
     bind_outcome (field y ex ''rest_url'' (y_string y) []) (\<lambda>rest.
     bind_outcome (field y ex ''user_stream_url'' (y_string y) []) (\<lambda>us.
     bind_outcome (field y ex ''proxy_host'' (y_string y) []) (\<lambda>host.
     bind_outcome (field y ex ''proxy_port'' (y_int y) 0) (\<lambda>port.
     bind_outcome (field y ex ''api_key'' (y_string y) []) (\<lambda>key.
     bind_outcome (field y ex ''api_secret'' (y_string y) []) (\<lambda>secret.
       when_defined y ex ''symbols''
         (\<lambda>v cfg. if y_is_seq y v then load_symbols y (y_elems y v) cfg else Inr cfg)
         (cfg\<lparr>ac_exchange_name := name, ac_exchange_url := ws, ac_rest_url := rest, ac_user_stream_url := us,
            ac_proxy_host := host, ac_proxy_port := port,
            ac_exchange_api_key := env_fallback getenv ''BINANCE_API_KEY'' (resolveEnv getenv key),
            ac_exchange_api_secret := env_fallback getenv ''BINANCE_API_SECRET'' (resolveEnv getenv secret)\<rparr>)))))))))"

definition load_exchanges_section ::
  "'n yaml \<Rightarrow> (string \<Rightarrow> string option) \<Rightarrow> 'n \<Rightarrow> AppConfig \<Rightarrow> AppConfig outcome" where
  "load_exchanges_section y getenv v cfg =
     (if y_is_seq y v \<and> y_elems y v \<noteq> []
      then bind_outcome (y_index y v 0) (\<lambda>ex. load_exchange y getenv ex cfg) else Inr cfg)"

text \<open>\<^verbatim>\<open>max_orders_per_second\<close> is read as an \<^verbatim>\<open>int\<close> and stored into a \<^verbatim>\<open>uint32_t\<close>.\<close>

definition load_risk :: "'n yaml \<Rightarrow> 'n \<Rightarrow> AppConfig \<Rightarrow> AppConfig outcome" where
  "load_risk y r cfg =
     bind_outcome (field y r ''max_order_value'' (y_double y) (Fin 100000)) (\<lambda>order.
     bind_outcome (field y r ''max_position_value'' (y_double y) (Fin 500000)) (\<lambda>pos.
     bind_outcome (field y r ''max_orders_per_second'' (y_int y) 100) (\<lambda>rate.
     bind_outcome (field y r ''max_total_position_value'' (y_double y) (Fin 1000000)) (\<lambda>total.
     bind_outcome (field y r ''min_available_capital'' (y_double y) (Fin 10000)) (\<lambda>capital.
     bind_outcome (field y r ''max_drawdown_percent'' (y_double y) (Fin 20)) (\<lambda>drawdown.
       Inr (cfg\<lparr>ac_risk_params := RiskParameters_init\<lparr>rp_max_order_value := order, rp_max_position_value := pos,
         rp_max_orders_per_second := word_of_int rate, rp_max_total_position_value := total,
         rp_min_available_capital := capital, rp_max_drawdown_percent := drawdown\<rparr>\<rparr>)))))))"

definition load_log :: "'n yaml \<Rightarrow> 'n \<Rightarrow> AppConfig \<Rightarrow> AppConfig outcome" where
  "load_log y l cfg =
     bind_outcome (field y l ''output_dir'' (y_string y) ''./logs'') (\<lambda>dir.
       Inr (cfg\<lparr>ac_log_output_dir := dir\<rparr>))"

definition load_zmq :: "'n yaml \<Rightarrow> 'n \<Rightarrow> AppConfig \<Rightarrow> AppConfig outcome" where
  "load_zmq y z cfg =
     bind_outcome (field y z ''publish_endpoint'' (y_string y) ''tcp://*:5555'') (\<lambda>endpoint.
     bind_outcome (field y z ''high_water_mark'' (y_int y) 10000) (\<lambda>hwm.
     bind_outcome (field y z ''linger_ms'' (y_int y) 1000) (\<lambda>linger.
       Inr (cfg\<lparr>ac_zmq_endpoint := endpoint, ac_zmq_hwm := hwm, ac_zmq_linger := linger\<rparr>))))"

definition load_root :: "'n yaml \<Rightarrow> (string \<Rightarrow> string option) \<Rightarrow> 'n \<Rightarrow> AppConfig \<Rightarrow> AppConfig outcome" where
  "load_root y getenv doc cfg =
     bind_outcome (when_defined y doc ''engine'' (load_engine y) cfg) (\<lambda>cfg.
     bind_outcome (when_defined y doc ''strategies'' (load_strategies_section y) cfg) (\<lambda>cfg.
     bind_outcome (when_defined y doc ''exchanges'' (load_exchanges_section y getenv) cfg) (\<lambda>cfg.
     bind_outcome (when_defined y doc ''risk'' (load_risk y) cfg) (\<lambda>cfg.
     bind_outcome (when_defined y doc ''log'' (load_log y) cfg) (\<lambda>cfg.
       when_defined y doc ''zmq'' (load_zmq y) cfg)))))"

definition loadConfig ::
  "'n yaml \<Rightarrow> (string \<Rightarrow> string option) \<Rightarrow> string \<Rightarrow> AppConfig \<Rightarrow> (bool \<times> AppConfig) outcome" where
  "loadConfig y getenv path cfg =
     (case y_load y path of
        None \<Rightarrow> Inr (False, cfg)
      | Some doc \<Rightarrow> bind_outcome (load_root y getenv doc cfg) (\<lambda>cfg. Inr (True, cfg)))"


section \<open>Lemmas\<close>

lemma fieldE:
  assumes "bind_outcome (field y node key conv d) f = Inr r"
  obtains v where "y_get y node key = Inr v" and "f (or_default (conv v) d) = Inr r"
  using assms by (auto simp: field_def bind_outcome_Inr_iff)

lemma when_definedE:
  assumes "when_defined y node key f cfg = Inr cfg'"
  obtains v where "y_get y node key = Inr v" and "y_defined y v" and "f v cfg = Inr cfg'"
  | v where "y_get y node key = Inr v" and "\<not> y_defined y v" and "cfg' = cfg"
  using assms by (auto simp: when_defined_def bind_outcome_Inr_iff split: if_splits)

text \<open>A section leaves alone what the code it guards leaves alone.\<close>

lemma when_defined_frame:
  assumes "when_defined y node key f cfg = Inr cfg'" and "\<And>v. f v cfg = Inr cfg' \<Longrightarrow> g cfg' = g cfg"
  shows "g cfg' = g cfg"
  using assms(1) by (rule when_definedE) (auto intro: assms(2))

text \<open>What each section writes.\<close>

definition strategies_part :: "AppConfig \<Rightarrow> StrategyCfg list" where
  "strategies_part cfg = ac_strategies cfg"

definition exchange_part :: "AppConfig \<Rightarrow> string \<times> string \<times> string \<times> string list" where
  "exchange_part cfg = (ac_exchange_name cfg, ac_exchange_api_key cfg, ac_exchange_api_secret cfg, ac_exchange_symbols cfg)"

lemmas part_defs = strategies_part_def exchange_part_def

lemma load_engine_parts:
  assumes "load_engine y v cfg = Inr cfg'"
  shows "strategies_part cfg' = strategies_part cfg" and "exchange_part cfg' = exchange_part cfg"
    and "ac_risk_params cfg' = ac_risk_params cfg"
  using assms by (auto simp: load_engine_def part_defs elim!: fieldE)

lemma load_risk_parts:
  assumes "load_risk y v cfg = Inr cfg'"
  shows "strategies_part cfg' = strategies_part cfg" and "exchange_part cfg' = exchange_part cfg"
  using assms by (auto simp: load_risk_def part_defs elim!: fieldE)

lemma load_log_parts:
  assumes "load_log y v cfg = Inr cfg'"
  shows "strategies_part cfg' = strategies_part cfg" and "exchange_part cfg' = exchange_part cfg"
    and "ac_risk_params cfg' = ac_risk_params cfg"
  using assms by (auto simp: load_log_def part_defs elim!: fieldE)

lemma load_zmq_parts:
  assumes "load_zmq y v cfg = Inr cfg'"
  shows "strategies_part cfg' = strategies_part cfg" and "exchange_part cfg' = exchange_part cfg"
    and "ac_risk_params cfg' = ac_risk_params cfg"
  using assms by (auto simp: load_zmq_def part_defs elim!: fieldE)

lemma load_symbols_parts:
  assumes "load_symbols y vs cfg = Inr cfg'"
  shows "\<exists>names. list_all2 (\<lambda>v s. y_string y v = Some s) vs names \<and>
    cfg' = cfg\<lparr>ac_exchange_symbols := ac_exchange_symbols cfg @ names\<rparr>"
  using assms
proof (induction vs arbitrary: cfg)
  case (Cons v vs)
  then obtain s where s: "y_string y v = Some s"
    and "load_symbols y vs (cfg\<lparr>ac_exchange_symbols := ac_exchange_symbols cfg @ [s]\<rparr>) = Inr cfg'"
    by (auto split: option.splits)
  from Cons.IH [OF this(2)] obtain names where "list_all2 (\<lambda>v s. y_string y v = Some s) vs names"
    and "cfg' = cfg\<lparr>ac_exchange_symbols := ac_exchange_symbols cfg @ s # names\<rparr>"
    by auto
  with s show ?case by (intro exI [of _ "s # names"]) auto
qed simp

definition enabled :: "'n yaml \<Rightarrow> 'n \<Rightarrow> bool" where
  "enabled y s \<longleftrightarrow> (case y_get y s ''enabled'' of Inr v \<Rightarrow> y_bool y v \<noteq> Some False | Inl f \<Rightarrow> False)"

lemma load_strategies_list:
  assumes "load_strategies y ss cfg = Inr cfg'"
  shows "\<exists>scs. list_all2 (\<lambda>s sc. load_strategy y s = Inr sc) (filter (enabled y) ss) scs \<and>
    cfg' = cfg\<lparr>ac_strategies := ac_strategies cfg @ scs\<rparr>"
  using assms
proof (induction ss arbitrary: cfg)
  case (Cons s ss)
  from Cons.prems obtain v where v: "y_get y s ''enabled'' = Inr v"
    and rest: "(if \<not> or_default (y_bool y v) True then load_strategies y ss cfg
       else bind_outcome (load_strategy y s) (\<lambda>sc.
         load_strategies y ss (cfg\<lparr>ac_strategies := ac_strategies cfg @ [sc]\<rparr>))) = Inr cfg'"
    by (auto elim: fieldE)
  show ?case
  proof (cases "or_default (y_bool y v) True")
    case False
    then have "\<not> enabled y s"
      using v by (auto simp: enabled_def or_default_def split: option.splits)
    with Cons.IH [of cfg] rest False show ?thesis by simp
  next
    case True
    then have en: "enabled y s"
      using v by (auto simp: enabled_def or_default_def split: option.splits)
    from rest True obtain sc where sc: "load_strategy y s = Inr sc"
      and "load_strategies y ss (cfg\<lparr>ac_strategies := ac_strategies cfg @ [sc]\<rparr>) = Inr cfg'"
      by (auto simp: bind_outcome_Inr_iff)
    from Cons.IH [OF this(2)] obtain scs
      where "list_all2 (\<lambda>s sc. load_strategy y s = Inr sc) (filter (enabled y) ss) scs"
        and "cfg' = cfg\<lparr>ac_strategies := ac_strategies cfg @ sc # scs\<rparr>"
      by auto
    with en sc show ?thesis by (intro exI [of _ "sc # scs"]) auto
  qed
qed simp


text \<open>How the sections follow each other, when none throws.\<close>

lemma load_rootE:
  assumes "load_root y getenv doc cfg = Inr cfg'"
  obtains c1 c2 c3 c4 c5 where "when_defined y doc ''engine'' (load_engine y) cfg = Inr c1"
    and "when_defined y doc ''strategies'' (load_strategies_section y) c1 = Inr c2"
    and "when_defined y doc ''exchanges'' (load_exchanges_section y getenv) c2 = Inr c3"
    and "when_defined y doc ''risk'' (load_risk y) c3 = Inr c4"
    and "when_defined y doc ''log'' (load_log y) c4 = Inr c5"
    and "when_defined y doc ''zmq'' (load_zmq y) c5 = Inr cfg'"
  using assms unfolding load_root_def by (elim bind_outcome_InrE)

lemma loadConfigE:
  assumes "loadConfig y getenv path cfg = Inr (True, cfg')"
  obtains doc where "y_load y path = Some doc" and "load_root y getenv doc cfg = Inr cfg'"
  using assms by (auto simp: loadConfig_def bind_outcome_Inr_iff split: option.splits)

lemma load_exchangeE:
  assumes "load_exchange y getenv ex cfg = Inr cfg'"
  obtains name key secret where "y_get y ex ''name'' = Inr name" and "y_get y ex ''api_key'' = Inr key"
    and "y_get y ex ''api_secret'' = Inr secret"
    and "ac_exchange_name cfg' = or_default (y_string y name) ''binance''"
    and "ac_exchange_api_key cfg' =
      env_fallback getenv ''BINANCE_API_KEY'' (resolveEnv getenv (or_default (y_string y key) []))"
    and "ac_exchange_api_secret cfg' =
      env_fallback getenv ''BINANCE_API_SECRET'' (resolveEnv getenv (or_default (y_string y secret) []))"
    and "strategies_part cfg' = strategies_part cfg" and "ac_risk_params cfg' = ac_risk_params cfg"
  using assms unfolding load_exchange_def
  by (elim fieldE when_definedE)
    (auto simp: part_defs dest!: load_symbols_parts split: if_splits intro: that)

lemma load_exchanges_section_parts:
  assumes "load_exchanges_section y getenv v cfg = Inr cfg'"
  shows "strategies_part cfg' = strategies_part cfg" and "ac_risk_params cfg' = ac_risk_params cfg"
  using assms
  by (auto simp: load_exchanges_section_def bind_outcome_Inr_iff elim!: load_exchangeE split: if_splits)

lemma load_strategies_section_parts:
  assumes "load_strategies_section y v cfg = Inr cfg'"
  shows "exchange_part cfg' = exchange_part cfg" and "ac_risk_params cfg' = ac_risk_params cfg"
  using assms by (auto simp: load_strategies_section_def part_defs split: if_splits dest!: load_strategies_list)


section \<open>Properties\<close>

definition yaml_throws :: "'n yaml \<Rightarrow> bool" where
  "yaml_throws y \<longleftrightarrow> (\<forall>n k f. y_get y n k = Inl f \<longrightarrow> f = Yaml_error) \<and> (\<forall>n i f. y_index y n i = Inl f \<longrightarrow> f = Yaml_error)"

definition only_yaml :: "'a outcome \<Rightarrow> bool" where
  "only_yaml r \<longleftrightarrow> (\<forall>f. r = Inl f \<longrightarrow> f = Yaml_error)"

lemma only_yaml_simps [simp]: "only_yaml (Inr x)" "only_yaml (Inl Yaml_error)"
  by (simp_all add: only_yaml_def)

lemma only_yaml_bind [intro]: "only_yaml r \<Longrightarrow> (\<And>x. only_yaml (f x)) \<Longrightarrow> only_yaml (bind_outcome r f)"
  by (cases r) (auto simp: only_yaml_def)

lemma only_yaml_library:
  assumes "yaml_throws y"
  shows "only_yaml (y_get y n k)" and "only_yaml (y_index y n i)" and "only_yaml (field y n k conv d)"
  using assms by (auto simp: yaml_throws_def only_yaml_def field_def bind_outcome_def split: sum.splits)

lemma only_yaml_when_defined:
  assumes "yaml_throws y" and "\<And>v c. only_yaml (f v c)"
  shows "only_yaml (when_defined y n k f cfg)"
  unfolding when_defined_def using assms by (auto simp: only_yaml_library)

lemma only_yaml_symbols: "only_yaml (load_symbols y vs cfg)"
  by (induction vs arbitrary: cfg) (auto split: option.splits)

lemma only_yaml_strategies:
  assumes "yaml_throws y"
  shows "only_yaml (load_strategies y ss cfg)"
proof (induction ss arbitrary: cfg)
  case (Cons s ss)
  have "only_yaml (load_parameters y p sc)" for p sc
    unfolding load_parameters_def by (intro only_yaml_bind only_yaml_library [OF assms]) simp
  then have "only_yaml (load_strategy y s)"
    unfolding load_strategy_def
    by (intro only_yaml_bind only_yaml_library [OF assms] only_yaml_when_defined [OF assms])
  with Cons.IH show ?case
    by (auto intro!: only_yaml_bind only_yaml_library [OF assms])
qed simp

lemma only_yaml_root:
  assumes "yaml_throws y"
  shows "only_yaml (load_root y getenv doc cfg)"
proof -
  note lib = only_yaml_bind only_yaml_library [OF assms] only_yaml_when_defined [OF assms]
  have "only_yaml (load_engine y v c)" "only_yaml (load_risk y v c)" "only_yaml (load_log y v c)"
    "only_yaml (load_zmq y v c)" for v c
    unfolding load_engine_def load_risk_def load_log_def load_zmq_def by (intro lib; simp)+
  moreover have "only_yaml (load_strategies_section y v c)" for v c
    by (simp add: load_strategies_section_def only_yaml_strategies [OF assms])
  moreover have "only_yaml (load_exchange y getenv ex c)" for ex c
    unfolding load_exchange_def by (intro lib) (simp add: only_yaml_symbols)
  then have "only_yaml (load_exchanges_section y getenv v c)" for v c
    by (auto simp: load_exchanges_section_def only_yaml_library [OF assms])
  ultimately show ?thesis
    unfolding load_root_def by (intro lib)
qed

text \<open>
  Property C32: how \<^verbatim>\<open>loadConfig\<close> can end. It returns false exactly when the file cannot be loaded, and then
  the configuration is untouched; when it does not return, the file was loaded and what leaves it is an
  exception of the YAML library, which \<^verbatim>\<open>main\<close> does not catch either.
\<close>

theorem loadConfig_outcomes:
  assumes "yaml_throws y"
  shows "(loadConfig y getenv path cfg = Inr (False, cfg') \<longleftrightarrow> y_load y path = None \<and> cfg' = cfg) \<and>
    (loadConfig y getenv path cfg = Inl f \<longrightarrow> y_load y path \<noteq> None \<and> f = Yaml_error)"
  using only_yaml_root [OF assms]
  by (auto simp: loadConfig_def bind_outcome_def only_yaml_def split: option.splits sum.splits)

text \<open>The sections of a load that succeeds, with what the others leave alone.\<close>

lemma loadConfig_sectionsE:
  assumes "loadConfig y getenv path cfg = Inr (True, cfg')" and "y_load y path = Some doc"
  obtains c1 c2 c3 c4 where "when_defined y doc ''strategies'' (load_strategies_section y) c1 = Inr c2"
    and "when_defined y doc ''exchanges'' (load_exchanges_section y getenv) c2 = Inr c3"
    and "when_defined y doc ''risk'' (load_risk y) c3 = Inr c4"
    and "strategies_part c1 = strategies_part cfg" and "strategies_part cfg' = strategies_part c2"
    and "exchange_part cfg' = exchange_part c3" and "ac_risk_params cfg' = ac_risk_params c4"
proof -
  have "load_root y getenv doc cfg = Inr cfg'"
    using assms by (auto elim: loadConfigE)
  then obtain c1 c2 c3 c4 c5 where c: "when_defined y doc ''engine'' (load_engine y) cfg = Inr c1"
    "when_defined y doc ''strategies'' (load_strategies_section y) c1 = Inr c2"
    "when_defined y doc ''exchanges'' (load_exchanges_section y getenv) c2 = Inr c3"
    "when_defined y doc ''risk'' (load_risk y) c3 = Inr c4" "when_defined y doc ''log'' (load_log y) c4 = Inr c5"
    "when_defined y doc ''zmq'' (load_zmq y) c5 = Inr cfg'"
    by (rule load_rootE)
  have 1: "strategies_part c1 = strategies_part cfg"
    by (rule when_defined_frame [OF c(1)]) (rule load_engine_parts)
  have 3: "strategies_part c3 = strategies_part c2"
    by (rule when_defined_frame [OF c(3)]) (rule load_exchanges_section_parts)
  have 4: "strategies_part c4 = strategies_part c3" "exchange_part c4 = exchange_part c3"
    by (rule when_defined_frame [OF c(4)], erule load_risk_parts)+
  have 5: "strategies_part c5 = strategies_part c4" "exchange_part c5 = exchange_part c4"
    "ac_risk_params c5 = ac_risk_params c4"
    by (rule when_defined_frame [OF c(5)], erule load_log_parts)+
  have 6: "strategies_part cfg' = strategies_part c5" "exchange_part cfg' = exchange_part c5"
    "ac_risk_params cfg' = ac_risk_params c5"
    by (rule when_defined_frame [OF c(6)], erule load_zmq_parts)+
  show thesis
    by (rule that [OF c(2-4) 1]) (simp_all add: 3 4 5 6)
qed

lemma loadConfig_appends:
  assumes "loadConfig y getenv path cfg = Inr (True, cfg')" and "y_load y path = Some doc"
    and "y_get y doc ''strategies'' = Inr v" and "y_defined y v" and "y_is_seq y v"
  shows "\<exists>scs. list_all2 (\<lambda>s sc. load_strategy y s = Inr sc) (filter (enabled y) (y_elems y v)) scs \<and>
    ac_strategies cfg' = ac_strategies cfg @ scs"
proof -
  obtain c1 c2 where "when_defined y doc ''strategies'' (load_strategies_section y) c1 = Inr c2"
    and same: "strategies_part c1 = strategies_part cfg" "strategies_part cfg' = strategies_part c2"
    using assms(1,2) by (rule loadConfig_sectionsE)
  then have "load_strategies y (y_elems y v) c1 = Inr c2"
    using assms(3-5) by (auto simp: load_strategies_section_def elim: when_definedE)
  from load_strategies_list [OF this] same show ?thesis
    by (auto simp: strategies_part_def)
qed

text \<open>
  Property C14: the strategies section. When \<^verbatim>\<open>loadConfig\<close> succeeds, it has appended one record for each
  entry of the list that is not switched off, in the order of the file, each read on its own.
\<close>

theorem loadConfig_strategies:
  assumes "loadConfig y getenv path cfg = Inr (True, cfg')" and "y_load y path = Some doc"
    and "y_get y doc ''strategies'' = Inr v" and "y_defined y v" and "y_is_seq y v"
  shows "\<exists>scs. list_all2 (\<lambda>s sc. load_strategy y s = Inr sc) (filter (enabled y) (y_elems y v)) scs \<and>
    ac_strategies cfg' = ac_strategies cfg @ scs"
  by (rule loadConfig_appends [OF assms])


text \<open>Until the exchanges section, the exchange's name is carried along; that section overwrites it.\<close>

abbreviation renamed :: "string \<Rightarrow> AppConfig \<Rightarrow> AppConfig" where
  "renamed n cfg \<equiv> cfg\<lparr>ac_exchange_name := n\<rparr>"

lemma renamed_swap:
  "ac_initial_capital_update f (renamed n cfg) = renamed n (ac_initial_capital_update f cfg)"
  "ac_strategies_update g (renamed n cfg) = renamed n (ac_strategies_update g cfg)"
  by simp_all

lemma when_defined_renamed:
  assumes "\<And>v cfg. f v (renamed n cfg) = bind_outcome (f v cfg) (\<lambda>c. Inr (renamed n c))"
  shows "when_defined y node key f (renamed n cfg) = bind_outcome (when_defined y node key f cfg) (\<lambda>c. Inr (renamed n c))"
  by (simp add: when_defined_def bind_outcome_assoc assms if_distrib [where f = "\<lambda>r. bind_outcome r g" for g] cong: if_cong)

lemma load_engine_renamed:
  "load_engine y v (renamed n cfg) = bind_outcome (load_engine y v cfg) (\<lambda>c. Inr (renamed n c))"
  by (simp add: load_engine_def bind_outcome_assoc renamed_swap)

lemma load_strategies_renamed:
  "load_strategies y ss (renamed n cfg) = bind_outcome (load_strategies y ss cfg) (\<lambda>c. Inr (renamed n c))"
proof (induction ss arbitrary: cfg)
  case (Cons s ss)
  show ?case
    using Cons.IH [of cfg] Cons.IH [of "cfg\<lparr>ac_strategies := ac_strategies cfg @ [sc]\<rparr>" for sc]
    by (auto simp: bind_outcome_assoc renamed_swap intro!: bind_outcome_cong)
qed simp

lemma load_exchanges_section_renamed:
  assumes "y_is_seq y v" and "y_elems y v \<noteq> []"
  shows "load_exchanges_section y getenv v (renamed n cfg) = load_exchanges_section y getenv v cfg"
  using assms by (simp add: load_exchanges_section_def load_exchange_def)

text \<open>
  The \<^verbatim>\<open>--exchange\<close> flag has no effect. When the file has a list of exchanges that is not
  empty, the configuration after \<^verbatim>\<open>parseArgs\<close> and \<^verbatim>\<open>loadConfig\<close> is the same whatever the flag says: the
  section overwrites the name, with \<^verbatim>\<open>binance\<close> when the entry has none.
\<close>

theorem exchange_flag_ignored:
  assumes "y_load y path = Some doc" and "y_get y doc ''exchanges'' = Inr v" and "y_defined y v"
    and "y_is_seq y v" and "y_elems y v \<noteq> []"
  shows "loadConfig y getenv path (snd (parseArgs (flags\<lparr>FLAGS_exchange := e\<rparr>) argv cfg)) =
    loadConfig y getenv path (snd (parseArgs flags argv cfg))"
proof -
  let ?c = "snd (parseArgs flags argv cfg)"
  have "snd (parseArgs (flags\<lparr>FLAGS_exchange := e\<rparr>) argv cfg) = renamed e ?c"
    by (simp add: parseArgs_def Let_def)
  moreover have "load_root y getenv doc (renamed e ?c) = load_root y getenv doc ?c"
  proof -
    have *: "when_defined y doc ''strategies'' (load_strategies_section y) (renamed e c) =
        bind_outcome (when_defined y doc ''strategies'' (load_strategies_section y) c) (\<lambda>c. Inr (renamed e c))" for c
      by (rule when_defined_renamed) (simp add: load_strategies_section_def load_strategies_renamed)
    show ?thesis
      using assms(2-5)
      by (simp add: load_root_def when_defined_renamed [where f = "load_engine y", OF load_engine_renamed] bind_outcome_assoc *
          when_defined_def [of y doc "''exchanges''"] load_exchanges_section_renamed)
  qed
  ultimately show ?thesis
    using assms(1) by (simp add: loadConfig_def)
qed

definition first_nonempty :: "string \<Rightarrow> string \<Rightarrow> string" where
  "first_nonempty a b = (if a = [] then b else a)"

definition env_value :: "(string \<Rightarrow> string option) \<Rightarrow> string \<Rightarrow> string" where
  "env_value getenv var = or_default (getenv var) []"

lemma resolveEnv_reference:
  assumes "v \<noteq> []" and "CHR 0x00 \<notin> set v"
  shows "resolveEnv getenv (''${'' @ v @ ''}'') = env_value getenv v"
proof -
  have "takeWhile (\<lambda>c. c \<noteq> CHR 0x00) v = v"
    using assms(2) unfolding takeWhile_eq_all_conv by metis
  moreover have "take (length (''${'' @ v @ ''}'') - 3) (drop 2 (''${'' @ v @ ''}'')) = v"
    by simp
  ultimately show ?thesis
    using assms(1) by (simp add: resolveEnv_def env_value_def del: takeWhile_eq_all_conv)
qed

lemma resolveEnv_literal:
  assumes "\<nexists>v. v \<noteq> [] \<and> s = ''${'' @ v @ ''}''"
  shows "resolveEnv getenv s = s"
proof (rule ccontr)
  assume "resolveEnv getenv s \<noteq> s"
  then have s: "length s > 3" "s ! 0 = CHR ''$''" "s ! 1 = CHR ''{''" "last s = CHR ''}''"
    by (auto simp: resolveEnv_def split: if_splits)
  then obtain t where t: "s = ''${'' @ t" and "t \<noteq> []"
    by (cases s; cases "tl s") fastforce+
  then have "s = ''${'' @ butlast t @ ''}''" and "butlast t \<noteq> []"
    using s by (cases t rule: rev_cases; auto)+
  with assms show False by blast
qed

text \<open>
  Where the API key comes from. A value \<^verbatim>\<open>${VAR}\<close> in the file stands for the environment
  variable it names, every other value (\<^verbatim>\<open>${}\<close> included) for itself; when the result is empty,
  \<^verbatim>\<open>BINANCE_API_KEY\<close> is used, for every exchange.
\<close>

theorem loadConfig_api_key:
  assumes "loadConfig y getenv path cfg = Inr (True, cfg')" and "y_load y path = Some doc"
    and "y_get y doc ''exchanges'' = Inr v" and "y_defined y v" and "y_is_seq y v" and "y_elems y v \<noteq> []"
    and "y_index y v 0 = Inr ex" and "y_get y ex ''api_key'' = Inr k" and "y_string y k = Some s"
  shows "(\<forall>var. var \<noteq> [] \<longrightarrow> CHR 0x00 \<notin> set var \<longrightarrow> s = ''${'' @ var @ ''}'' \<longrightarrow>
      ac_exchange_api_key cfg' = first_nonempty (env_value getenv var) (env_value getenv ''BINANCE_API_KEY'')) \<and>
    ((\<nexists>var. var \<noteq> [] \<and> s = ''${'' @ var @ ''}'') \<longrightarrow>
      ac_exchange_api_key cfg' = first_nonempty s (env_value getenv ''BINANCE_API_KEY''))"
proof -
  obtain c2 c3 where "when_defined y doc ''exchanges'' (load_exchanges_section y getenv) c2 = Inr c3"
    and same: "exchange_part cfg' = exchange_part c3"
    using assms(1,2) by (rule loadConfig_sectionsE)
  then have "load_exchange y getenv ex c2 = Inr c3"
    using assms(3-7) by (auto simp: load_exchanges_section_def elim: when_definedE)
  then have "ac_exchange_api_key c3 = env_fallback getenv ''BINANCE_API_KEY'' (resolveEnv getenv s)"
    using assms(8,9) by (auto simp: or_default_def elim: load_exchangeE)
  then have "ac_exchange_api_key cfg' = first_nonempty (resolveEnv getenv s) (env_value getenv ''BINANCE_API_KEY'')"
    using same by (simp add: exchange_part_def env_fallback_def first_nonempty_def env_value_def)
  then show ?thesis
    using resolveEnv_reference [of _ getenv] resolveEnv_literal [of s getenv] by auto
qed

text \<open>
  The rate limit of the file is read as a signed number and stored as an unsigned one. A
  negative limit becomes one of more than two thousand million orders per second.
\<close>

theorem negative_rate_limit_wraps:
  assumes "loadConfig y getenv path cfg = Inr (True, cfg')" and "y_load y path = Some doc"
    and "y_get y doc ''risk'' = Inr r" and "y_defined y r"
    and "y_get y r ''max_orders_per_second'' = Inr v" and "y_int y v = Some n" and "- (2 ^ 31) \<le> n" and "n < 0"
  shows "int (unat (rp_max_orders_per_second (ac_risk_params cfg'))) = 2 ^ 32 + n"
proof -
  obtain c3 c4 where "when_defined y doc ''risk'' (load_risk y) c3 = Inr c4"
    and same: "ac_risk_params cfg' = ac_risk_params c4"
    using assms(1,2) by (rule loadConfig_sectionsE)
  then have "load_risk y r c3 = Inr c4"
    using assms(3,4) by (auto elim: when_definedE)
  then have "rp_max_orders_per_second (ac_risk_params c4) = word_of_int n"
    using assms(5,6) by (auto simp: load_risk_def or_default_def elim!: fieldE)
  moreover have "n mod 2 ^ 32 = (n + 2 ^ 32) mod 2 ^ 32"
    by simp
  moreover have "(n + 2 ^ 32) mod 2 ^ 32 = n + 2 ^ 32"
    using assms(7,8) by (intro mod_pos_pos_trivial) auto
  ultimately show ?thesis
    using same assms(7,8) by (simp add: unat_eq_nat_uint uint_word_of_int)
qed


section \<open>A concrete file\<close>

text \<open>A YAML document as a tree, with the library's documented behaviour on it.\<close>

datatype ynode = Undefined | Scalar string | Sequence "ynode list" | Dict "(string \<times> ynode) list"

fun node_get :: "ynode \<Rightarrow> string \<Rightarrow> ynode outcome" where
  "node_get (Dict kvs) k = Inr (or_default (map_of kvs k) Undefined)"
| "node_get (Scalar s) k = Inl Yaml_error"
| "node_get _ k = Inr Undefined"

fun node_index :: "ynode \<Rightarrow> nat \<Rightarrow> ynode outcome" where
  "node_index (Sequence ns) i = Inr (if i < length ns then ns ! i else Undefined)"
| "node_index (Scalar s) i = Inl Yaml_error"
| "node_index _ i = Inr Undefined"

fun node_elems :: "ynode \<Rightarrow> ynode list" where
  "node_elems (Sequence ns) = ns"
| "node_elems _ = []"

fun node_string :: "ynode \<Rightarrow> string option" where
  "node_string (Scalar s) = Some s"
| "node_string _ = None"

fun node_bool :: "ynode \<Rightarrow> bool option" where
  "node_bool (Scalar s) = (if s = ''true'' then Some True else if s = ''false'' then Some False else None)"
| "node_bool _ = None"

fun example_int :: "string \<Rightarrow> int option" where
  "example_int s = (if s = ''10'' then Some 10 else if s = ''-1'' then Some (- 1) else None)"

fun node_int :: "ynode \<Rightarrow> int option" where
  "node_int (Scalar s) = example_int s"
| "node_int _ = None"

definition example_doc :: ynode where
  "example_doc = Dict
     [(''strategies'', Sequence
         [Dict [(''name'', Scalar ''grid''), (''enabled'', Scalar ''false'')],
          Dict [(''name'', Scalar ''grid''), (''parameters'', Dict [(''grid_levels'', Scalar ''10'')])]]),
      (''exchanges'', Sequence [Dict [(''name'', Scalar ''okx''), (''api_key'', Scalar ''${OKX_KEY}'')]]),
      (''risk'', Dict [(''max_orders_per_second'', Scalar ''-1'')])]"

definition example_yaml :: "ynode yaml" where
  "example_yaml =
     \<lparr>y_load = (\<lambda>path. if path = ''app.yaml'' then Some example_doc else None),
      y_get = node_get, y_index = node_index, y_defined = (\<lambda>n. n \<noteq> Undefined),
      y_is_seq = (\<lambda>n. case n of Sequence _ \<Rightarrow> True | _ \<Rightarrow> False), y_elems = node_elems,
      y_bool = node_bool, y_int = node_int, y_u32 = (\<lambda>n. map_option word_of_int (node_int n)),
      y_double = (\<lambda>n. map_option (\<lambda>i. Fin (of_int i)) (node_int n)), y_string = node_string\<rparr>"

definition example_getenv :: "string \<Rightarrow> string option" where
  "example_getenv v = (if v = ''BINANCE_API_KEY'' then Some ''binance-key'' else None)"

lemma example_throws: "yaml_throws example_yaml"
proof -
  have "f = Yaml_error" if "node_get n k = Inl f" for n k f
    using that by (cases n) auto
  moreover have "f = Yaml_error" if "node_index n i = Inl f" for n i f
    using that by (cases n) auto
  ultimately show ?thesis by (auto simp: yaml_throws_def example_yaml_def)
qed

definition example_loaded :: "(bool \<times> AppConfig) outcome" where
  "example_loaded = loadConfig example_yaml example_getenv ''app.yaml'' AppConfig_init"

lemma example_loaded_succeeds: "\<exists>cfg. example_loaded = Inr (True, cfg)"
proof -
  have "case example_loaded of Inr (b, cfg) \<Rightarrow> b | Inl f \<Rightarrow> False"
    by code_simp
  then show ?thesis by (auto split: sum.splits)
qed

lemma example_nodes:
  "y_load example_yaml ''app.yaml'' = Some example_doc"
  "y_get example_yaml example_doc ''exchanges'' =
     Inr (Sequence [Dict [(''name'', Scalar ''okx''), (''api_key'', Scalar ''${OKX_KEY}'')]])"
  "y_get example_yaml example_doc ''risk'' = Inr (Dict [(''max_orders_per_second'', Scalar ''-1'')])"
  "y_get example_yaml example_doc ''strategies'' = Inr (Sequence
         [Dict [(''name'', Scalar ''grid''), (''enabled'', Scalar ''false'')],
          Dict [(''name'', Scalar ''grid''), (''parameters'', Dict [(''grid_levels'', Scalar ''10'')])]])"
  by (simp_all add: example_yaml_def example_doc_def or_default_def)

theorem loadConfig_outcomes_witness:
  "loadConfig example_yaml example_getenv ''missing.yaml'' AppConfig_init = Inr (False, AppConfig_init)"
  using loadConfig_outcomes [OF example_throws, of example_getenv "''missing.yaml''" AppConfig_init AppConfig_init]
  by (simp add: example_yaml_def)

theorem loadConfig_strategies_witness:
  "\<exists>cfg. example_loaded = Inr (True, cfg) \<and> length (ac_strategies cfg) = 1"
proof -
  obtain cfg where cfg: "example_loaded = Inr (True, cfg)"
    using example_loaded_succeeds ..
  have "\<exists>scs. list_all2 (\<lambda>s sc. load_strategy example_yaml s = Inr sc)
      (filter (enabled example_yaml)
        [Dict [(''name'', Scalar ''grid''), (''enabled'', Scalar ''false'')],
         Dict [(''name'', Scalar ''grid''), (''parameters'', Dict [(''grid_levels'', Scalar ''10'')])]]) scs \<and>
      ac_strategies cfg = ac_strategies AppConfig_init @ scs"
    using loadConfig_strategies [OF cfg [unfolded example_loaded_def] example_nodes(1,4)]
    by (simp add: example_yaml_def)
  moreover have "filter (enabled example_yaml)
        [Dict [(''name'', Scalar ''grid''), (''enabled'', Scalar ''false'')],
         Dict [(''name'', Scalar ''grid''), (''parameters'', Dict [(''grid_levels'', Scalar ''10'')])]] =
       [Dict [(''name'', Scalar ''grid''), (''parameters'', Dict [(''grid_levels'', Scalar ''10'')])]]"
    by (simp add: enabled_def example_yaml_def or_default_def)
  ultimately have "length (ac_strategies cfg) = 1"
    by (auto simp: AppConfig_init_def dest: list_all2_lengthD)
  with cfg show ?thesis by blast
qed

theorem exchange_flag_ignored_witness:
  "loadConfig example_yaml example_getenv ''app.yaml'' (snd (parseArgs (Flags_default\<lparr>FLAGS_exchange := ''okx''\<rparr>) [] AppConfig_init)) =
   loadConfig example_yaml example_getenv ''app.yaml'' (snd (parseArgs Flags_default [] AppConfig_init))"
  by (rule exchange_flag_ignored [OF example_nodes(1,2)]) (simp_all add: example_yaml_def)

theorem loadConfig_api_key_witness:
  "\<exists>cfg. example_loaded = Inr (True, cfg) \<and> ac_exchange_api_key cfg = ''binance-key''"
proof -
  obtain cfg where cfg: "example_loaded = Inr (True, cfg)"
    using example_loaded_succeeds ..
  have ex: "y_index example_yaml (Sequence [Dict [(''name'', Scalar ''okx''), (''api_key'', Scalar ''${OKX_KEY}'')]]) 0 =
      Inr (Dict [(''name'', Scalar ''okx''), (''api_key'', Scalar ''${OKX_KEY}'')])"
    by (simp add: example_yaml_def)
  have "y_get example_yaml (Dict [(''name'', Scalar ''okx''), (''api_key'', Scalar ''${OKX_KEY}'')]) ''api_key'' =
      Inr (Scalar ''${OKX_KEY}'')" "y_string example_yaml (Scalar ''${OKX_KEY}'') = Some ''${OKX_KEY}''"
    by (simp_all add: example_yaml_def or_default_def)
  from loadConfig_api_key [OF cfg [unfolded example_loaded_def] example_nodes(1,2) _ _ _ ex this]
  have "ac_exchange_api_key cfg =
      first_nonempty (env_value example_getenv ''OKX_KEY'') (env_value example_getenv ''BINANCE_API_KEY'')"
    by (simp add: example_yaml_def)
  then have "ac_exchange_api_key cfg = ''binance-key''"
    by (simp add: first_nonempty_def env_value_def example_getenv_def or_default_def)
  with cfg show ?thesis by blast
qed

theorem negative_rate_limit_wraps_witness:
  "\<exists>cfg. example_loaded = Inr (True, cfg) \<and> int (unat (rp_max_orders_per_second (ac_risk_params cfg))) = 4294967295"
proof -
  obtain cfg where cfg: "example_loaded = Inr (True, cfg)"
    using example_loaded_succeeds ..
  have "y_get example_yaml (Dict [(''max_orders_per_second'', Scalar ''-1'')]) ''max_orders_per_second'' = Inr (Scalar ''-1'')"
    "y_int example_yaml (Scalar ''-1'') = Some (- 1)"
    by (simp_all add: example_yaml_def or_default_def)
  from negative_rate_limit_wraps [OF cfg [unfolded example_loaded_def] example_nodes(1,3) _ this]
  have "int (unat (rp_max_orders_per_second (ac_risk_params cfg))) = 4294967295"
    by (simp add: example_yaml_def)
  with cfg show ?thesis by blast
qed

end
