(* ===== verification/Position_Manager.thy ===== *)
theory Position_Manager
  imports Core_Types
begin

text \<open>
  The position manager of \<^verbatim>\<open>trading/position_manager.hpp\<close>: its positions and the cached total, which the risk
  checks read without the lock. The updates are in the library.
\<close>

record PositionManager =
  pm_positions :: "u32 \<rightharpoonup> Position"
  pm_total_value_raw :: i64

definition PositionManager_init :: PositionManager where
  "PositionManager_init = \<lparr>pm_positions = Map.empty, pm_total_value_raw = 0\<rparr>"

definition getTotalValueCached :: "PositionManager \<Rightarrow> Decimal" where
  "getTotalValueCached pm = from_raw_value (pm_total_value_raw pm)"

text \<open>The cached total of a manager without positions is zero.\<close>

lemma getTotalValueCached_init: "getTotalValueCached PositionManager_init = decimal_zero"
  by (simp add: getTotalValueCached_def PositionManager_init_def decimal_zero_def)

end
