(* ===== verification/Strategy_Engine.thy ===== *)
theory Strategy_Engine
  imports Mpmc_Queue Config_Records Grid_Strategy Order_Id Risk_Params Position_Manager
begin

text \<open>
  The strategy engine of \<^verbatim>\<open>trading/strategy_engine.hpp\<close> and the order gateway of
  \<^verbatim>\<open>execution/order_gateway.hpp\<close>, as far as their code is in the headers: the queues between the threads with
  the calls that push and pop, the switches and accessors, the records, and the defaults of the \<^verbatim>\<open>Strategy\<close>
  interface. The dispatch loop, the order processing and the constructors' bodies are in the library.
\<close>

section \<open>The engine\<close>

record EngineStats =
  es_ticks_processed :: u64
  es_fills_processed :: u64
  es_orders_submitted :: u64
  es_orders_risk_rejected :: u64
  es_orders_queue_dropped :: u64

definition EngineStats_init :: EngineStats where
  "EngineStats_init =
     \<lparr>es_ticks_processed = 0, es_fills_processed = 0, es_orders_submitted = 0, es_orders_risk_rejected = 0,
      es_orders_queue_dropped = 0\<rparr>"

definition engine_queue_size :: nat where
  "engine_queue_size = 1024"

record StrategyEngine =
  se_position_manager :: PositionManager
  se_order_id_gen :: OrderIDGenerator
  se_risk_engine :: RiskEngine
  se_tick_queue :: "Tick MPMCQueue"
  se_order_queue :: "OrderRequest MPMCQueue"
  se_fill_queue :: "Fill MPMCQueue"
  se_running :: bool
  se_cpu_affinity :: int
  se_stats :: EngineStats

text \<open>The members' own constructors and initialisers.\<close>

definition StrategyEngine_init :: StrategyEngine where
  "StrategyEngine_init =
     \<lparr>se_position_manager = PositionManager_init, se_order_id_gen = OrderIDGenerator_new, se_risk_engine = RiskEngine_init,
      se_tick_queue = MPMCQueue_new engine_queue_size Tick_init,
      se_order_queue = MPMCQueue_new engine_queue_size OrderRequest_init,
      se_fill_queue = MPMCQueue_new engine_queue_size Fill_init,
      se_running = False, se_cpu_affinity = - 1, se_stats = EngineStats_init\<rparr>"

definition setCpuAffinity :: "int \<Rightarrow> StrategyEngine \<Rightarrow> StrategyEngine" where
  "setCpuAffinity cpu e = e\<lparr>se_cpu_affinity := cpu\<rparr>"

definition cpuAffinity :: "StrategyEngine \<Rightarrow> int" where
  "cpuAffinity e = se_cpu_affinity e"

definition engine_isRunning :: "StrategyEngine \<Rightarrow> bool" where
  "engine_isRunning e = se_running e"

text \<open>A call on one of the queues, with the queue put back into the engine.\<close>

definition on_queue :: "('q \<Rightarrow> 'e \<Rightarrow> 'e) \<Rightarrow> ('r \<times> 'q) outcome option \<Rightarrow> 'e \<Rightarrow> ('r \<times> 'e) outcome option" where
  "on_queue upd r e = map_option (map_sum id (map_prod id (\<lambda>q. upd q e))) r"

definition pushTick :: "StrategyEngine \<Rightarrow> Tick \<Rightarrow> (bool \<times> StrategyEngine) outcome option" where
  "pushTick e tick = on_queue (\<lambda>q. se_tick_queue_update (\<lambda>_. q)) (try_push (se_tick_queue e) tick) e"

definition pushFill :: "StrategyEngine \<Rightarrow> Fill \<Rightarrow> (bool \<times> StrategyEngine) outcome option" where
  "pushFill e fill = on_queue (\<lambda>q. se_fill_queue_update (\<lambda>_. q)) (try_push (se_fill_queue e) fill) e"

definition popOrder :: "StrategyEngine \<Rightarrow> (OrderRequest option \<times> StrategyEngine) outcome option" where
  "popOrder e = on_queue (\<lambda>q. se_order_queue_update (\<lambda>_. q)) (try_pop (se_order_queue e)) e"

definition getOrderQueue :: "StrategyEngine \<Rightarrow> OrderRequest MPMCQueue" where
  "getOrderQueue e = se_order_queue e"

definition positionManager :: "StrategyEngine \<Rightarrow> PositionManager" where
  "positionManager e = se_position_manager e"

text \<open>The calls that are handed on to the risk engine, whose bodies, in the library, are a parameter.\<close>

record risk_library =
  rl_getParameters :: "RiskEngine \<Rightarrow> RiskParameters"
  rl_updateParameters :: "RiskParameters \<Rightarrow> RiskEngine \<Rightarrow> RiskEngine"
  rl_setAvailableCapital :: "Decimal \<Rightarrow> RiskEngine \<Rightarrow> RiskEngine"

definition getRiskParameters :: "risk_library \<Rightarrow> StrategyEngine \<Rightarrow> RiskParameters" where
  "getRiskParameters lib e = rl_getParameters lib (se_risk_engine e)"

definition updateRiskParameters :: "risk_library \<Rightarrow> RiskParameters \<Rightarrow> StrategyEngine \<Rightarrow> StrategyEngine" where
  "updateRiskParameters lib p e = e\<lparr>se_risk_engine := rl_updateParameters lib p (se_risk_engine e)\<rparr>"

definition setAvailableCapital :: "risk_library \<Rightarrow> Decimal \<Rightarrow> StrategyEngine \<Rightarrow> StrategyEngine" where
  "setAvailableCapital lib capital e = e\<lparr>se_risk_engine := rl_setAvailableCapital lib capital (se_risk_engine e)\<rparr>"

section \<open>The strategy interface\<close>

text \<open>
  What the engine keeps per strategy of type \<open>'s\<close>, and what a context gives a strategy access to; the
  context's pointers are present or not.
\<close>

record 's StrategyEntry =
  sy_id :: u32
  sy_strategy :: 's
  sy_symbols :: "u32 set"
  sy_is_wildcard :: bool

record StrategyContext =
  sx_order_books :: bool
  sx_risk_engine :: bool
  sx_position_manager :: bool
  sx_order_id_gen :: bool
  sx_order_output :: bool
  sx_orders_submitted :: bool
  sx_orders_risk_rejected :: bool
  sx_orders_queue_dropped :: bool
  sx_timestamp_us :: u64
  sx_current_strategy_id :: u32

definition StrategyContext_init :: StrategyContext where
  "StrategyContext_init =
     \<lparr>sx_order_books = False, sx_risk_engine = False, sx_position_manager = False, sx_order_id_gen = False,
      sx_order_output = False, sx_orders_submitted = False, sx_orders_risk_rejected = False,
      sx_orders_queue_dropped = False, sx_timestamp_us = 0, sx_current_strategy_id = 0\<rparr>"

definition currentTimestampUs :: "StrategyContext \<Rightarrow> u64" where
  "currentTimestampUs c = sx_timestamp_us c"

text \<open>The callbacks of a strategy over contexts \<open>'c\<close> and strategies \<open>'s\<close>.\<close>

record ('s, 'c) Strategy =
  st_name :: string
  st_symbols :: "'s \<Rightarrow> u32 list"
  st_onLoad :: "'s \<Rightarrow> 'c \<Rightarrow> ('s \<times> 'c) outcome"
  st_onUnload :: "'s \<Rightarrow> 'c \<Rightarrow> ('s \<times> 'c) outcome"
  st_onTick :: "Tick \<Rightarrow> 's \<Rightarrow> 'c \<Rightarrow> ('s \<times> 'c) outcome"
  st_onFill :: "Fill \<Rightarrow> 's \<Rightarrow> 'c \<Rightarrow> ('s \<times> 'c) outcome"
  st_onTimer :: "u64 \<Rightarrow> 's \<Rightarrow> 'c \<Rightarrow> ('s \<times> 'c) outcome"

text \<open>The base class gives every callback but \<^verbatim>\<open>onTick\<close> an empty body and subscribes to nothing.\<close>

definition Strategy_base :: "string \<Rightarrow> (Tick \<Rightarrow> 's \<Rightarrow> 'c \<Rightarrow> ('s \<times> 'c) outcome) \<Rightarrow> ('s, 'c) Strategy" where
  "Strategy_base nm tick =
     \<lparr>st_name = nm, st_symbols = (\<lambda>s. []), st_onLoad = (\<lambda>s c. Inr (s, c)), st_onUnload = (\<lambda>s c. Inr (s, c)),
      st_onTick = tick, st_onFill = (\<lambda>f s c. Inr (s, c)), st_onTimer = (\<lambda>ts s c. Inr (s, c))\<rparr>"

text \<open>\<^verbatim>\<open>GridStrategy\<close> overrides all of them.\<close>

definition grid_strategy :: "'c context_ops \<Rightarrow> (GridStrategy, 'c) Strategy" where
  "grid_strategy ops = (Strategy_base strategy_name (onTick ops))
     \<lparr>st_symbols := strategy_symbols, st_onLoad := (\<lambda>s c. Inr (onLoad s, c)),
      st_onUnload := (\<lambda>s c. Inr (onUnload s, c)), st_onFill := onFill ops,
      st_onTimer := (\<lambda>ts s c. Inr (onTimer ops ts s c))\<rparr>"

section \<open>The order gateway\<close>

record PendingOrder =
  po_order_id :: u64
  po_client_order_id :: u64
  po_submit_timestamp_us :: u64
  po_symbol_id :: u32
  po_exchange_id :: u32
  po_strategy_id :: u32
  po_side :: OrderSide
  po_type :: OrderType
  po_status :: OrderStatus
  po_original_price :: Decimal
  po_original_quantity :: Decimal
  po_filled_quantity :: Decimal
  po_last_update_us :: u64

definition PendingOrder_init :: PendingOrder where
  "PendingOrder_init =
     \<lparr>po_order_id = 0, po_client_order_id = 0, po_submit_timestamp_us = 0, po_symbol_id = 0, po_exchange_id = 0,
      po_strategy_id = 0, po_side = BUY, po_type = LIMIT, po_status = PENDING, po_original_price = decimal_zero,
      po_original_quantity = decimal_zero, po_filled_quantity = decimal_zero, po_last_update_us = 0\<rparr>"

record OrderGatewayStats =
  gw_orders_received :: u64
  gw_orders_sent :: u64
  gw_orders_rejected :: u64
  gw_orders_cancelled :: u64
  gw_orders_modified :: u64
  gw_fills_received :: u64
  gw_fill_errors :: u64
  gw_exchange_id_mismatch :: u64
  gw_queue_empty_polls :: u64
  gw_pending_order_count :: u64
  gw_avg_send_latency_us :: u64

definition OrderGatewayStats_init :: OrderGatewayStats where
  "OrderGatewayStats_init =
     \<lparr>gw_orders_received = 0, gw_orders_sent = 0, gw_orders_rejected = 0, gw_orders_cancelled = 0,
      gw_orders_modified = 0, gw_fills_received = 0, gw_fill_errors = 0, gw_exchange_id_mismatch = 0,
      gw_queue_empty_polls = 0, gw_pending_order_count = 0, gw_avg_send_latency_us = 0\<rparr>"

text \<open>
  The members, but for the threads and locks, and for the order queue and the fill callback, which are the
  engine's; pointers to the clients are present or not.
\<close>

record OrderGateway =
  og_running :: bool
  og_cpu_affinity :: int
  og_config :: ExchangeConfig
  og_exchange_id :: u32
  og_exchange_name :: string
  og_simulate_fills :: bool
  og_http_client :: bool
  og_user_stream :: bool
  og_pending :: "u64 \<rightharpoonup> PendingOrder"
  og_exchange_to_local :: "u64 \<rightharpoonup> u64"
  og_client_id_to_local :: "string \<rightharpoonup> u64"
  og_stats :: OrderGatewayStats
  og_avg_send_latency_us :: u64

definition OrderGateway_members :: OrderGateway where
  "OrderGateway_members =
     \<lparr>og_running = False, og_cpu_affinity = - 1, og_config = ExchangeConfig_init, og_exchange_id = 0,
      og_exchange_name = [], og_simulate_fills = True, og_http_client = False, og_user_stream = False,
      og_pending = Map.empty, og_exchange_to_local = Map.empty, og_client_id_to_local = Map.empty,
      og_stats = OrderGatewayStats_init, og_avg_send_latency_us = 0\<rparr>"

definition gateway_setCpuAffinity :: "int \<Rightarrow> OrderGateway \<Rightarrow> OrderGateway" where
  "gateway_setCpuAffinity cpu g = g\<lparr>og_cpu_affinity := cpu\<rparr>"

definition gateway_cpuAffinity :: "OrderGateway \<Rightarrow> int" where
  "gateway_cpuAffinity g = og_cpu_affinity g"

definition setHttpClient :: "bool \<Rightarrow> OrderGateway \<Rightarrow> OrderGateway" where
  "setHttpClient client g = g\<lparr>og_http_client := client\<rparr>"

definition setUserStream :: "bool \<Rightarrow> OrderGateway \<Rightarrow> OrderGateway" where
  "setUserStream stream g = g\<lparr>og_user_stream := stream\<rparr>"

definition exchangeId :: "OrderGateway \<Rightarrow> u32" where
  "exchangeId g = og_exchange_id g"

definition exchangeName :: "OrderGateway \<Rightarrow> string" where
  "exchangeName g = og_exchange_name g"

definition gateway_isRunning :: "OrderGateway \<Rightarrow> bool" where
  "gateway_isRunning g = og_running g"

section \<open>Lemmas\<close>

lemma engine_queue_good: "good_capacity engine_queue_size"
  unfolding good_capacity_def engine_queue_size_def by (rule exI [of _ 10]) simp

text \<open>A push of a tick is a push on the tick queue and touches nothing else of the engine.\<close>

definition same_but_ticks :: "StrategyEngine \<Rightarrow> StrategyEngine \<Rightarrow> bool" where
  "same_but_ticks e e' \<longleftrightarrow> e' = e\<lparr>se_tick_queue := se_tick_queue e'\<rparr>"

lemma pushTick_accepts:
  assumes "queue_ok (se_tick_queue e)" and "length (queue_content (se_tick_queue e)) < capacity (se_tick_queue e)"
    and "0 < queue_room (se_tick_queue e)"
  shows "\<exists>e'. pushTick e t = Some (Inr (True, e')) \<and> same_but_ticks e e' \<and> queue_ok (se_tick_queue e') \<and>
    queue_content (se_tick_queue e') = queue_content (se_tick_queue e) @ [t] \<and>
    capacity (se_tick_queue e') = capacity (se_tick_queue e) \<and>
    queue_room (se_tick_queue e') = queue_room (se_tick_queue e) - 1"
proof -
  obtain q where "try_push (se_tick_queue e) t = Some (Inr (True, q))" and "queue_ok q"
    and "queue_content q = queue_content (se_tick_queue e) @ [t]" and "capacity q = capacity (se_tick_queue e)"
    and "queue_room q = queue_room (se_tick_queue e) - 1"
    using mpmc.push_accepts [OF assms] by blast
  then show ?thesis
    by (simp add: pushTick_def on_queue_def same_but_ticks_def)
qed

lemma pushTick_full:
  assumes "queue_ok (se_tick_queue e)" and "length (queue_content (se_tick_queue e)) = capacity (se_tick_queue e)"
  shows "pushTick e t = Some (Inr (False, e))"
  using mpmc.push_full [OF assms] by (simp add: pushTick_def on_queue_def)

end
