(* ===== verification/File_Replay.thy ===== *)
theory File_Replay
  imports Strategy_Engine
begin

text \<open>
  The replay loop of \<^verbatim>\<open>runFileReplay\<close> in \<^verbatim>\<open>src/main.cpp\<close> with the tick callback it installs, and the part of
  \<^verbatim>\<open>backtest/time_replayer.hpp\<close> that is in the header. Parameters are what the library's
  \<^verbatim>\<open>advanceToNextEvent\<close> delivers, what each load of \<^verbatim>\<open>g_running\<close> finds, whether the log writer runs, and
  what the engine's own thread has done to the engine between two iterations.
\<close>

section \<open>The replayer\<close>

datatype replay_event = Tick_event Tick | Order_event OrderRequest | Fill_event Fill

text \<open>The streams and the heap, of type \<open>'h\<close>, are the library's business.\<close>

record 'h TimeReplayer =
  tr_streams :: 'h
  tr_current_time :: u64
  tr_events_processed :: u64
  tr_total_events :: u64
  tr_acceleration :: Double
  tr_paused :: bool

definition TimeReplayer_init :: "'h \<Rightarrow> 'h TimeReplayer" where
  "TimeReplayer_init h =
     \<lparr>tr_streams = h, tr_current_time = 0, tr_events_processed = 0, tr_total_events = 0, tr_acceleration = Fin 0,
      tr_paused = False\<rparr>"

definition totalEvents :: "'h TimeReplayer \<Rightarrow> u64" where
  "totalEvents r = tr_total_events r"

definition eventsProcessed :: "'h TimeReplayer \<Rightarrow> u64" where
  "eventsProcessed r = tr_events_processed r"

definition isExhausted :: "'h TimeReplayer \<Rightarrow> bool" where
  "isExhausted r \<longleftrightarrow> tr_total_events r \<le> tr_events_processed r"

definition getCurrentTime :: "'h TimeReplayer \<Rightarrow> u64" where
  "getCurrentTime r = tr_current_time r"

definition setAcceleration :: "Double \<Rightarrow> 'h TimeReplayer \<Rightarrow> 'h TimeReplayer" where
  "setAcceleration factor r = r\<lparr>tr_acceleration := factor\<rparr>"

definition acceleration :: "'h TimeReplayer \<Rightarrow> Double" where
  "acceleration r = tr_acceleration r"

definition pause :: "'h TimeReplayer \<Rightarrow> 'h TimeReplayer" where
  "pause r = r\<lparr>tr_paused := True\<rparr>"

definition resume :: "'h TimeReplayer \<Rightarrow> 'h TimeReplayer" where
  "resume r = r\<lparr>tr_paused := False\<rparr>"

definition isPaused :: "'h TimeReplayer \<Rightarrow> bool" where
  "isPaused r = tr_paused r"

text \<open>The replayer with its callbacks, \<^const>\<open>None\<close> for an empty \<^verbatim>\<open>std::function\<close>.\<close>

record ('h, 't, 'o, 'f) CallbackReplayer = "'h TimeReplayer" +
  tr_tick_cb :: "'t option"
  tr_order_cb :: "'o option"
  tr_fill_cb :: "'f option"

definition setTickCallback :: "'t option \<Rightarrow> ('h, 't, 'o, 'f) CallbackReplayer \<Rightarrow> ('h, 't, 'o, 'f) CallbackReplayer" where
  "setTickCallback cb r = r\<lparr>tr_tick_cb := cb\<rparr>"

definition setOrderCallback :: "'o option \<Rightarrow> ('h, 't, 'o, 'f) CallbackReplayer \<Rightarrow> ('h, 't, 'o, 'f) CallbackReplayer" where
  "setOrderCallback cb r = r\<lparr>tr_order_cb := cb\<rparr>"

definition setFillCallback :: "'f option \<Rightarrow> ('h, 't, 'o, 'f) CallbackReplayer \<Rightarrow> ('h, 't, 'o, 'f) CallbackReplayer" where
  "setFillCallback cb r = r\<lparr>tr_fill_cb := cb\<rparr>"

text \<open>A position in a stream, given by the number of its log reader.\<close>

record StreamPos =
  sp_reader :: nat
  sp_pos :: u64

text \<open>An entry of the replayer's heap, with the order the heap is kept in.\<close>

record HeapEntry =
  he_timestamp :: u64
  he_stream_idx :: u64

definition heap_greater :: "HeapEntry \<Rightarrow> HeapEntry \<Rightarrow> bool" where
  "heap_greater a b \<longleftrightarrow> he_timestamp b < he_timestamp a"

section \<open>The loop of the replay\<close>

record 'h replay_env =
  rv_running :: "nat \<Rightarrow> bool"   \<comment> \<open>the value the \<open>n\<close>-th load of \<^verbatim>\<open>g_running\<close> finds\<close>
  rv_log_running :: "nat \<Rightarrow> bool"
  rv_advance :: "'h TimeReplayer \<Rightarrow> (replay_event \<times> 'h TimeReplayer) option"
  rv_engine_thread :: "nat \<Rightarrow> StrategyEngine \<Rightarrow> StrategyEngine"

record Replay =
  rs_engine :: StrategyEngine
  rs_tick_count :: u64
  rs_published :: "Tick list"
  rs_logged :: "Tick list"
  rs_loads :: nat

definition Replay_init :: "StrategyEngine \<Rightarrow> Replay" where
  "Replay_init e = \<lparr>rs_engine = e, rs_tick_count = 0, rs_published = [], rs_logged = [], rs_loads = 0\<rparr>"

definition count_load :: "Replay \<Rightarrow> Replay" where
  "count_load s = s\<lparr>rs_loads := rs_loads s + 1\<rparr>"

text \<open>The lambda given to \<^verbatim>\<open>setTickCallback\<close>; the result of \<^verbatim>\<open>pushTick\<close> is not looked at.\<close>

definition tick_callback :: "'h replay_env \<Rightarrow> Tick \<Rightarrow> Replay \<Rightarrow> Replay outcome option" where
  "tick_callback env tick s =
     (if \<not> rv_running env (rs_loads s) then Some (Inr (count_load s))
      else case pushTick (rs_engine s) tick of
        None \<Rightarrow> None
      | Some (Inl f) \<Rightarrow> Some (Inl f)
      | Some (Inr (pushed, e)) \<Rightarrow> Some (Inr ((count_load s)
          \<lparr>rs_engine := e, rs_tick_count := rs_tick_count s + 1, rs_published := rs_published s @ [tick],
           rs_logged := (if rv_log_running env (rs_loads s) then rs_logged s @ [tick] else rs_logged s)\<rparr>)))"

fun deliver :: "'h replay_env \<Rightarrow> replay_event \<Rightarrow> Replay \<Rightarrow> Replay outcome option" where
  "deliver env (Tick_event tick) s = tick_callback env tick s"
| "deliver env (Order_event order) s = Some (Inr s)"
| "deliver env (Fill_event fill) s = Some (Inr s)"

definition engine_runs :: "'h replay_env \<Rightarrow> Replay \<Rightarrow> Replay" where
  "engine_runs env s = s\<lparr>rs_engine := rv_engine_thread env (rs_loads s) (rs_engine s)\<rparr>"

partial_function (option) replay_loop :: "'h replay_env \<Rightarrow> 'h TimeReplayer \<Rightarrow> Replay \<Rightarrow> Replay outcome option" where
  "replay_loop env r s =
     (if \<not> rv_running env (rs_loads s) then Some (Inr (count_load s))
      else if isExhausted r then Some (Inr (count_load s))
      else case rv_advance env r of
        None \<Rightarrow> Some (Inr (count_load s))
      | Some (ev, r') \<Rightarrow>
          (case deliver env ev (count_load s) of
             None \<Rightarrow> None
           | Some (Inl f) \<Rightarrow> Some (Inl f)
           | Some (Inr s') \<Rightarrow> replay_loop env r' (engine_runs env s')))"

section \<open>Lemmas\<close>

text \<open>The events a replayer delivers, when it delivers finitely many.\<close>

fun replays :: "'h replay_env \<Rightarrow> 'h TimeReplayer \<Rightarrow> replay_event list \<Rightarrow> bool" where
  "replays env r [] \<longleftrightarrow> isExhausted r \<or> rv_advance env r = None"
| "replays env r (ev # evs) \<longleftrightarrow> \<not> isExhausted r \<and>
     (case rv_advance env r of None \<Rightarrow> False | Some (ev', r') \<Rightarrow> ev' = ev \<and> replays env r' evs)"

fun ticks_of :: "replay_event list \<Rightarrow> Tick list" where
  "ticks_of [] = []"
| "ticks_of (Tick_event t # evs) = t # ticks_of evs"
| "ticks_of (_ # evs) = ticks_of evs"

text \<open>A thread that does nothing to the tick queue but pop.\<close>

definition only_pops :: "(StrategyEngine \<Rightarrow> StrategyEngine) \<Rightarrow> bool" where
  "only_pops f \<longleftrightarrow> (\<forall>e. queue_ok (se_tick_queue e) \<longrightarrow>
     queue_ok (se_tick_queue (f e)) \<and> capacity (se_tick_queue (f e)) = capacity (se_tick_queue e) \<and>
     queue_room (se_tick_queue (f e)) = queue_room (se_tick_queue e) \<and>
     (\<exists>k. queue_content (se_tick_queue (f e)) = drop k (queue_content (se_tick_queue e))))"

text \<open>A push on a good queue: it returns, it costs at most one unit of room, and it appends if there is space.\<close>

lemma pushTick_cases:
  assumes "queue_ok (se_tick_queue e)" and "0 < queue_room (se_tick_queue e)"
  obtains b e' where "pushTick e t = Some (Inr (b, e'))" and "queue_ok (se_tick_queue e')"
    and "queue_room (se_tick_queue e) \<le> Suc (queue_room (se_tick_queue e'))"
    and "capacity (se_tick_queue e') = capacity (se_tick_queue e)"
    and "queue_content (se_tick_queue e') = queue_content (se_tick_queue e) @
      (if length (queue_content (se_tick_queue e)) < capacity (se_tick_queue e) then [t] else [])"
proof (cases "length (queue_content (se_tick_queue e)) < capacity (se_tick_queue e)")
  case True
  show thesis
    using pushTick_accepts [OF assms(1) True assms(2), of t] True that by auto
next
  case False
  then have "length (queue_content (se_tick_queue e)) = capacity (se_tick_queue e)"
    using mpmc.within_cap [OF assms(1)] by simp
  from that [OF pushTick_full [OF assms(1) this] assms(1)] show thesis
    using False by simp
qed

definition replay_ready :: "nat \<Rightarrow> Replay \<Rightarrow> bool" where
  "replay_ready n s \<longleftrightarrow> queue_ok (se_tick_queue (rs_engine s)) \<and> n \<le> queue_room (se_tick_queue (rs_engine s))"

lemma replay_ready_simps [simp]: "replay_ready n (count_load s) = replay_ready n s"
  by (simp add: replay_ready_def count_load_def)

lemma count_load_simps [simp]:
  "rs_engine (count_load s) = rs_engine s" "rs_published (count_load s) = rs_published s"
  "rs_tick_count (count_load s) = rs_tick_count s" "rs_logged (count_load s) = rs_logged s"
  by (simp_all add: count_load_def)

lemma engine_runs_simps [simp]:
  "rs_published (engine_runs env s) = rs_published s" "rs_tick_count (engine_runs env s) = rs_tick_count s"
  "rs_logged (engine_runs env s) = rs_logged s" "rs_loads (engine_runs env s) = rs_loads s"
  by (simp_all add: engine_runs_def)

lemma engine_runs_ready:
  "only_pops (rv_engine_thread env (rs_loads s)) \<Longrightarrow> replay_ready n s \<Longrightarrow> replay_ready n (engine_runs env s)"
  by (auto simp: only_pops_def replay_ready_def engine_runs_def)

text \<open>What one event does: nothing but a tick changes anything, and that only while the program runs.\<close>

lemma deliver_step:
  assumes "replay_ready (Suc n) s"
  obtains s' ts where "deliver env ev s = Some (Inr s')" and "replay_ready n s'"
    and "ts = ticks_of [ev] \<or> ts = [] \<and> \<not> rv_running env (rs_loads s)" and "rs_loads s \<le> rs_loads s'"
    and "rs_published s' = rs_published s @ ts" and "rs_tick_count s' = rs_tick_count s + of_nat (length ts)"
    and "capacity (se_tick_queue (rs_engine s')) = capacity (se_tick_queue (rs_engine s))"
    and "queue_content (se_tick_queue (rs_engine s')) = queue_content (se_tick_queue (rs_engine s)) @
      take (capacity (se_tick_queue (rs_engine s)) - length (queue_content (se_tick_queue (rs_engine s)))) ts"
proof (cases "\<exists>t. ev = Tick_event t \<and> rv_running env (rs_loads s)")
  case True
  then obtain t where t: "ev = Tick_event t" and run: "rv_running env (rs_loads s)" by blast
  have q: "queue_ok (se_tick_queue (rs_engine s))" "0 < queue_room (se_tick_queue (rs_engine s))"
    using assms by (auto simp: replay_ready_def)
  from q obtain b e' where e': "pushTick (rs_engine s) t = Some (Inr (b, e'))" "queue_ok (se_tick_queue e')"
    "queue_room (se_tick_queue (rs_engine s)) \<le> Suc (queue_room (se_tick_queue e'))"
    "capacity (se_tick_queue e') = capacity (se_tick_queue (rs_engine s))"
    "queue_content (se_tick_queue e') = queue_content (se_tick_queue (rs_engine s)) @
      (if length (queue_content (se_tick_queue (rs_engine s))) < capacity (se_tick_queue (rs_engine s)) then [t] else [])"
    by (rule pushTick_cases)
  define s' where "s' = (count_load s)\<lparr>rs_engine := e', rs_tick_count := rs_tick_count s + 1,
      rs_published := rs_published s @ [t],
      rs_logged := (if rv_log_running env (rs_loads s) then rs_logged s @ [t] else rs_logged s)\<rparr>"
  have "deliver env ev s = Some (Inr s')"
    using t run e'(1) by (simp add: tick_callback_def s'_def)
  then show thesis
    by (rule that [where ts = "[t]"]) (use t e' assms in \<open>simp_all add: s'_def replay_ready_def count_load_def\<close>)
next
  case False
  show thesis
  proof (rule that [where ts = "[]"])
    show "deliver env ev s = Some (Inr (case ev of Tick_event t \<Rightarrow> count_load s | _ \<Rightarrow> s))"
      using False by (cases ev) (auto simp: tick_callback_def)
    show "[] = ticks_of [ev] \<or> [] = [] \<and> \<not> rv_running env (rs_loads s)"
      using False by (cases ev) auto
  qed (use assms in \<open>auto simp: replay_ready_def count_load_def split: replay_event.splits\<close>)
qed


definition stays_down :: "(nat \<Rightarrow> bool) \<Rightarrow> bool" where
  "stays_down run \<longleftrightarrow> (\<forall>m n. m \<le> n \<longrightarrow> run n \<longrightarrow> run m)"

lemma take_room:
  "xs @ take (n - length xs) ts @ take (n - (length xs + min (length ts) (n - length xs))) us =
   xs @ take (n - length xs) (ts @ us)"
  by (cases "length ts \<le> n - length xs") simp_all

lemma replay_loop_stopped: "\<not> rv_running env (rs_loads s) \<Longrightarrow> replay_loop env r s = Some (Inr (count_load s))"
  by (simp add: replay_loop.simps)

definition replay_result :: "'h replay_env \<Rightarrow> replay_event list \<Rightarrow> Replay \<Rightarrow> Replay \<Rightarrow> Tick list \<Rightarrow> bool" where
  "replay_result env evs s s' ts \<longleftrightarrow>
     (\<exists>m. ts = take m (ticks_of evs)) \<and> ((\<forall>n. rv_running env n) \<longrightarrow> ts = ticks_of evs) \<and>
     rs_published s' = rs_published s @ ts \<and> rs_tick_count s' = rs_tick_count s + of_nat (length ts) \<and>
     ((\<forall>n e. rv_engine_thread env n e = e) \<longrightarrow>
       queue_content (se_tick_queue (rs_engine s')) = queue_content (se_tick_queue (rs_engine s)) @
         take (capacity (se_tick_queue (rs_engine s)) - length (queue_content (se_tick_queue (rs_engine s)))) ts)"

lemma replay_result_none:
  assumes "\<not> rv_running env k \<or> ticks_of evs = []"
  shows "replay_result env evs s (count_load s) []"
  using assms by (auto simp: replay_result_def intro: exI [of _ 0])

lemma replay_loop_returns:
  assumes "replays env r evs" and "replay_ready (length evs) s"
    and pops: "\<And>n. only_pops (rv_engine_thread env n)" and down: "stays_down (rv_running env)"
  shows "\<exists>s' ts. replay_loop env r s = Some (Inr s') \<and> replay_result env evs s s' ts"
  using assms(1,2)
proof (induction evs arbitrary: r s)
  case Nil
  then have "replay_loop env r s = Some (Inr (count_load s))"
    by (auto simp: replay_loop.simps)
  then show ?case
    using replay_result_none by force
next
  case (Cons ev evs)
  from Cons.prems(1) obtain r' where r': "\<not> isExhausted r" "rv_advance env r = Some (ev, r')" "replays env r' evs"
    by (auto split: option.splits)
  show ?case
  proof (cases "rv_running env (rs_loads s)")
    case False
    then show ?thesis
      using replay_loop_stopped replay_result_none by blast
  next
    case True
    from Cons.prems(2) have "replay_ready (Suc (length evs)) (count_load s)" by simp
    then obtain s1 ts where s1: "deliver env ev (count_load s) = Some (Inr s1)" "replay_ready (length evs) s1"
      and ts: "ts = ticks_of [ev] \<or> ts = [] \<and> \<not> rv_running env (rs_loads (count_load s))"
      and loads: "rs_loads (count_load s) \<le> rs_loads s1"
      and out: "rs_published s1 = rs_published s @ ts" "rs_tick_count s1 = rs_tick_count s + of_nat (length ts)"
      and cap: "capacity (se_tick_queue (rs_engine s1)) = capacity (se_tick_queue (rs_engine s))"
      and content: "queue_content (se_tick_queue (rs_engine s1)) = queue_content (se_tick_queue (rs_engine s)) @
        take (capacity (se_tick_queue (rs_engine s)) - length (queue_content (se_tick_queue (rs_engine s)))) ts"
      by (rule deliver_step [where ev = ev]) simp
    let ?s2 = "engine_runs env s1"
    have loop: "replay_loop env r s = replay_loop env r' ?s2"
      using True r' s1(1) by (subst replay_loop.simps) simp
    have "replay_ready (length evs) ?s2"
      using pops s1(2) by (rule engine_runs_ready)
    from Cons.IH [OF r'(3) this] obtain s' us where s': "replay_loop env r' ?s2 = Some (Inr s')"
      "replay_result env evs ?s2 s' us"
      by blast
    have idle: "rs_engine ?s2 = rs_engine s1" if "\<forall>n e. rv_engine_thread env n e = e"
      using that by (simp add: engine_runs_def)
    have us: "us = []" if "\<not> rv_running env (rs_loads (count_load s))"
    proof -
      have "\<not> rv_running env (rs_loads ?s2)"
        using that loads down by (auto simp: stays_down_def)
      from replay_loop_stopped [OF this, of r'] have "s' = count_load ?s2"
        using s'(1) by simp
      then show ?thesis
        using s'(2) by (simp add: replay_result_def)
    qed
    have ticks: "ticks_of (ev # evs) = ticks_of [ev] @ ticks_of evs"
      by (cases ev) auto
    have "replay_result env (ev # evs) s s' (ts @ us)"
      unfolding replay_result_def
    proof (intro conjI impI)
      obtain m where m: "us = take m (ticks_of evs)"
        using s'(2) by (auto simp: replay_result_def)
      show "\<exists>m. ts @ us = take m (ticks_of (ev # evs))"
      proof (cases "ts = ticks_of [ev]")
        case True
        then show ?thesis
          unfolding ticks m by (intro exI [of _ "length ts + m"]) simp
      next
        case False
        then show ?thesis
          using ts us by (intro exI [of _ 0]) auto
      qed
      show "ts @ us = ticks_of (ev # evs)" if "\<forall>n. rv_running env n"
        using that ts s'(2) unfolding ticks by (auto simp: replay_result_def)
      show "rs_published s' = rs_published s @ ts @ us"
        "rs_tick_count s' = rs_tick_count s + of_nat (length (ts @ us))"
        using s'(2) out by (simp_all add: replay_result_def)
      show "queue_content (se_tick_queue (rs_engine s')) = queue_content (se_tick_queue (rs_engine s)) @
         take (capacity (se_tick_queue (rs_engine s)) - length (queue_content (se_tick_queue (rs_engine s)))) (ts @ us)"
        if "\<forall>n e. rv_engine_thread env n e = e"
        using s'(2) that idle [OF that] content cap by (simp add: replay_result_def take_room min.commute)
    qed
    with loop s'(1) show ?thesis by auto
  qed
qed


section \<open>Properties\<close>

lemma fresh_engine:
  "queue_ok (se_tick_queue StrategyEngine_init)" "queue_content (se_tick_queue StrategyEngine_init) = []"
  "capacity (se_tick_queue StrategyEngine_init) = 1024"
  using queue_ok_new [OF engine_queue_good, of Tick_init]
  by (simp_all add: StrategyEngine_init_def engine_queue_size_def)

lemma fresh_replay_ready: "n \<le> 2 ^ 62 \<Longrightarrow> replay_ready n (Replay_init StrategyEngine_init)"
  using fresh_engine(1) new_room [OF engine_queue_good, of Tick_init]
  by (auto simp: replay_ready_def Replay_init_def StrategyEngine_init_def)

text \<open>
  Property C25: a replay ends. For any finite stream, whatever the engine's thread pops meanwhile and
  whenever the stop signal comes, the loop returns without a fault, it has published a prefix of the
  stream's ticks in order, and the counter it reports is their number; without a signal it is all of them.
\<close>

theorem replay_publishes_prefix:
  assumes "replays env r evs" and "length evs \<le> 2 ^ 62" and "\<And>n. only_pops (rv_engine_thread env n)"
    and "stays_down (rv_running env)"
  shows "\<exists>s' m. replay_loop env r (Replay_init StrategyEngine_init) = Some (Inr s') \<and>
    rs_published s' = take m (ticks_of evs) \<and> rs_tick_count s' = of_nat (length (rs_published s')) \<and>
    ((\<forall>n. rv_running env n) \<longrightarrow> rs_published s' = ticks_of evs)"
proof -
  obtain s' ts where s': "replay_loop env r (Replay_init StrategyEngine_init) = Some (Inr s')"
    "replay_result env evs (Replay_init StrategyEngine_init) s' ts"
    using replay_loop_returns [OF assms(1) fresh_replay_ready [OF assms(2)] assms(3,4)] by blast
  then have "rs_published s' = ts" "rs_tick_count s' = of_nat (length ts)"
    "\<exists>m. ts = take m (ticks_of evs)" "(\<forall>n. rv_running env n) \<longrightarrow> ts = ticks_of evs"
    by (simp_all add: replay_result_def Replay_init_def)
  with s'(1) show ?thesis by auto
qed

text \<open>The engine's thread does nothing before the replay has ended.\<close>

lemma replay_loop_idle:
  assumes "replays env r evs" and "length evs \<le> 2 ^ 62" and idle: "\<And>n e. rv_engine_thread env n e = e"
    and run: "\<And>n. rv_running env n"
  shows "\<exists>s'. replay_loop env r (Replay_init StrategyEngine_init) = Some (Inr s') \<and>
    rs_published s' = ticks_of evs \<and> rs_tick_count s' = of_nat (length (ticks_of evs)) \<and>
    queue_content (se_tick_queue (rs_engine s')) = take 1024 (ticks_of evs)"
proof -
  have "only_pops (rv_engine_thread env n)" for n
    by (auto simp: only_pops_def idle intro: exI [of _ 0])
  moreover have "stays_down (rv_running env)"
    by (simp add: stays_down_def run)
  ultimately obtain s' ts where s': "replay_loop env r (Replay_init StrategyEngine_init) = Some (Inr s')"
    "replay_result env evs (Replay_init StrategyEngine_init) s' ts"
    using replay_loop_returns [OF assms(1) fresh_replay_ready [OF assms(2)]] by blast
  from s'(2) have "rs_published s' = ticks_of evs" "rs_tick_count s' = of_nat (length (ticks_of evs))"
    "queue_content (se_tick_queue (rs_engine s')) = take 1024 (ticks_of evs)"
    using idle run by (simp_all add: replay_result_def Replay_init_def fresh_engine)
  with s'(1) show ?thesis by blast
qed

text \<open>
  Property C35: the replay reports ticks that the engine never sees. The callback ignores the result of
  \<^verbatim>\<open>pushTick\<close>. When the engine's thread makes no progress during the replay, all ticks are counted and
  published, but the engine's queue holds only the first 1024 of them, and the others are lost.
\<close>

theorem replay_drops_ticks:
  assumes "replays env r evs" and "length evs \<le> 2 ^ 62" and idle: "\<And>n e. rv_engine_thread env n e = e"
    and run: "\<And>n. rv_running env n"
  shows "\<exists>s'. replay_loop env r (Replay_init StrategyEngine_init) = Some (Inr s') \<and>
    rs_published s' = ticks_of evs \<and> rs_tick_count s' = of_nat (length (ticks_of evs)) \<and>
    queue_content (se_tick_queue (rs_engine s')) = take 1024 (ticks_of evs)"
  using assms by (rule replay_loop_idle)

section \<open>A concrete stream\<close>

definition list_env :: "(nat \<Rightarrow> bool) \<Rightarrow> replay_event list replay_env" where
  "list_env run =
     \<lparr>rv_running = run, rv_log_running = (\<lambda>n. True),
      rv_advance = (\<lambda>r. case tr_streams r of
          [] \<Rightarrow> None
        | ev # evs \<Rightarrow> Some (ev, r\<lparr>tr_streams := evs, tr_events_processed := tr_events_processed r + 1\<rparr>)),
      rv_engine_thread = (\<lambda>n e. e)\<rparr>"

definition three_events :: "replay_event list TimeReplayer" where
  "three_events = (TimeReplayer_init
     [Tick_event (Tick_init\<lparr>tick_symbol_id := 1\<rparr>), Order_event OrderRequest_init,
      Tick_event (Tick_init\<lparr>tick_symbol_id := 2\<rparr>)])\<lparr>tr_total_events := 3\<rparr>"

lemma three_events_replays:
  "replays (list_env run) three_events [Tick_event (Tick_init\<lparr>tick_symbol_id := 1\<rparr>), Order_event OrderRequest_init,
     Tick_event (Tick_init\<lparr>tick_symbol_id := 2\<rparr>)]"
  by (simp add: list_env_def three_events_def TimeReplayer_init_def isExhausted_def word_le_nat_alt)

lemma list_env_pops: "only_pops (rv_engine_thread (list_env run) n)"
  by (auto simp: only_pops_def list_env_def intro: exI [of _ 0])

theorem replay_publishes_prefix_witness:
  "\<exists>s' m. replay_loop (list_env (\<lambda>n. n < 3)) three_events (Replay_init StrategyEngine_init) = Some (Inr s') \<and>
    rs_published s' = take m [Tick_init\<lparr>tick_symbol_id := 1\<rparr>, Tick_init\<lparr>tick_symbol_id := 2\<rparr>]"
  using replay_publishes_prefix [OF three_events_replays [of "\<lambda>n. n < 3"] _ list_env_pops]
  by (fastforce simp: stays_down_def list_env_def)

theorem replay_drops_ticks_witness:
  "\<exists>s'. replay_loop (list_env (\<lambda>n. True)) three_events (Replay_init StrategyEngine_init) = Some (Inr s') \<and>
    rs_tick_count s' = 2 \<and> length (queue_content (se_tick_queue (rs_engine s'))) = 2"
  using replay_drops_ticks [OF three_events_replays [of "\<lambda>n. True"]]
  by (fastforce simp: list_env_def)

end
