(* ===== verification/Log_Bridge.thy ===== *)
theory Log_Bridge
  imports Mpmc_Queue Config_Records
begin

text \<open>
  Logging and publishing, as far as their code is in the headers: the record buffers of
  \<^verbatim>\<open>logging/log_writer.hpp\<close> with \<^verbatim>\<open>appendToBuffer\<close>, the file header and accessors of
  \<^verbatim>\<open>logging/log_reader.hpp\<close>, and the configuration, the queue's events and the counters of
  \<^verbatim>\<open>logging/zmq_bridge.hpp\<close>. File access, the background threads and the sockets are in the library.
\<close>

section \<open>The buffers of the log writer\<close>

text \<open>The mutex makes an append one step.\<close>

record LogBuffer =
  lb_data :: "u8 list"
  lb_write_pos :: u64

definition LogBuffer_init :: LogBuffer where
  "LogBuffer_init = \<lparr>lb_data = [], lb_write_pos = 0\<rparr>"

text \<open>\<open>bytes\<close> are the record's object representation; the sum in the guard wraps at \<open>2^64\<close>.\<close>

definition appendToBuffer :: "LogBuffer \<Rightarrow> u8 list \<Rightarrow> bool \<times> LogBuffer" where
  "appendToBuffer buf bytes =
     (if of_nat (length (lb_data buf)) < lb_write_pos buf + of_nat (length bytes) then (False, buf)
      else (True, buf
        \<lparr>lb_data := take (unat (lb_write_pos buf)) (lb_data buf) @ bytes @
            drop (unat (lb_write_pos buf) + length bytes) (lb_data buf),
         lb_write_pos := lb_write_pos buf + of_nat (length bytes)\<rparr>))"

record LogWriter =
  lw_log_dir :: string
  lw_config :: LogConfig
  lw_tick_buf :: LogBuffer
  lw_order_buf :: LogBuffer
  lw_fill_buf :: LogBuffer
  lw_running :: bool
  lw_current_date :: string
  lw_tick_file :: bool      \<comment> \<open>open or not, as the next two\<close>
  lw_order_file :: bool
  lw_fill_file :: bool
  lw_ticks_written :: u64
  lw_orders_written :: u64
  lw_fills_written :: u64

definition LogWriter_init :: LogWriter where
  "LogWriter_init =
     \<lparr>lw_log_dir = [], lw_config = LogConfig_init, lw_tick_buf = LogBuffer_init, lw_order_buf = LogBuffer_init,
      lw_fill_buf = LogBuffer_init, lw_running = False, lw_current_date = [], lw_tick_file = False,
      lw_order_file = False, lw_fill_file = False, lw_ticks_written = 0, lw_orders_written = 0, lw_fills_written = 0\<rparr>"

definition writer_isRunning :: "LogWriter \<Rightarrow> bool" where
  "writer_isRunning w = lw_running w"

definition ticksWritten :: "LogWriter \<Rightarrow> u64" where
  "ticksWritten w = lw_ticks_written w"

definition ordersWritten :: "LogWriter \<Rightarrow> u64" where
  "ordersWritten w = lw_orders_written w"

definition fillsWritten :: "LogWriter \<Rightarrow> u64" where
  "fillsWritten w = lw_fills_written w"

section \<open>The log reader\<close>

record LogFileHeader =
  lh_magic :: u64
  lh_version :: u32
  lh_log_type :: u32
  lh_created_timestamp_us :: u64

definition LogFileHeader_members :: "member list" where
  "LogFileHeader_members =
     [(''magic'', 8, 8), (''version'', 4, 4), (''log_type'', 4, 4), (''created_timestamp_us'', 8, 8)]"

text \<open>The mapping is present or not.\<close>

record LogReader =
  lr_fd :: int
  lr_mapped_data :: "u8 list option"
  lr_file_size :: u64
  lr_record_size :: u64
  lr_record_count :: u64
  lr_timestamp_offset :: u64
  lr_header :: LogFileHeader
  lr_filename :: string

definition LogReader_init :: LogReader where
  "LogReader_init =
     \<lparr>lr_fd = - 1, lr_mapped_data = None, lr_file_size = 0, lr_record_size = 0, lr_record_count = 0,
      lr_timestamp_offset = 0,
      lr_header = \<lparr>lh_magic = 0, lh_version = 0, lh_log_type = 0, lh_created_timestamp_us = 0\<rparr>, lr_filename = []\<rparr>"

definition isOpen :: "LogReader \<Rightarrow> bool" where
  "isOpen r \<longleftrightarrow> lr_mapped_data r \<noteq> None"

definition log_header :: "LogReader \<Rightarrow> LogFileHeader" where
  "log_header r = lr_header r"

definition logType :: "LogReader \<Rightarrow> u32" where
  "logType r = lh_log_type (lr_header r)"

definition createdTimestamp :: "LogReader \<Rightarrow> u64" where
  "createdTimestamp r = lh_created_timestamp_us (lr_header r)"

definition log_filename :: "LogReader \<Rightarrow> string" where
  "log_filename r = lr_filename r"

definition recordCount :: "LogReader \<Rightarrow> u64" where
  "recordCount r = lr_record_count r"

definition recordSize :: "LogReader \<Rightarrow> u64" where
  "recordSize r = lr_record_size r"

record LogFileSet =
  lf_tick :: LogReader
  lf_order :: LogReader
  lf_fill :: LogReader

section \<open>The publisher\<close>

record BridgeConfig =
  bc_bind_address :: string
  bc_send_hwm :: int
  bc_linger_ms :: int
  bc_queue_capacity :: u64

definition BridgeConfig_init :: BridgeConfig where
  "BridgeConfig_init =
     \<lparr>bc_bind_address = ''tcp://*:5555'', bc_send_hwm = 10000, bc_linger_ms = 0, bc_queue_capacity = 65536\<rparr>"

datatype EventTag = Tag_TICK | Tag_ORDER | Tag_FILL

fun EventTag_value :: "EventTag \<Rightarrow> u8" where
  "EventTag_value Tag_TICK = 0"
| "EventTag_value Tag_ORDER = 1"
| "EventTag_value Tag_FILL = 2"

definition EVENT_DATA_SIZE :: nat where
  "EVENT_DATA_SIZE = 128"

record BridgeEvent =
  be_tag :: EventTag
  be_data :: "u8 list"

definition BridgeEvent_members :: "member list" where
  "BridgeEvent_members = [(''tag'', 1, 1), (''data'', EVENT_DATA_SIZE, 64)]"

record ZMQBridge =
  zb_config :: BridgeConfig
  zb_queue :: "BridgeEvent MPMCQueue option"
  zb_running :: bool
  zb_ticks_pub :: u64
  zb_orders_pub :: u64
  zb_fills_pub :: u64
  zb_dropped :: u64

definition ZMQBridge_init :: ZMQBridge where
  "ZMQBridge_init =
     \<lparr>zb_config = BridgeConfig_init, zb_queue = None, zb_running = False, zb_ticks_pub = 0, zb_orders_pub = 0,
      zb_fills_pub = 0, zb_dropped = 0\<rparr>"

definition bridge_isRunning :: "ZMQBridge \<Rightarrow> bool" where
  "bridge_isRunning z = zb_running z"

definition ticksPublished :: "ZMQBridge \<Rightarrow> u64" where
  "ticksPublished z = zb_ticks_pub z"

definition ordersPublished :: "ZMQBridge \<Rightarrow> u64" where
  "ordersPublished z = zb_orders_pub z"

definition fillsPublished :: "ZMQBridge \<Rightarrow> u64" where
  "fillsPublished z = zb_fills_pub z"

definition droppedCount :: "ZMQBridge \<Rightarrow> u64" where
  "droppedCount z = zb_dropped z"

section \<open>Appending\<close>

definition buffer_ok :: "LogBuffer \<Rightarrow> bool" where
  "buffer_ok b \<longleftrightarrow> unat (lb_write_pos b) \<le> length (lb_data b) \<and> length (lb_data b) < 2 ^ 63"

definition buffer_content :: "LogBuffer \<Rightarrow> u8 list" where
  "buffer_content b = take (unat (lb_write_pos b)) (lb_data b)"

lemma append_position:
  assumes "buffer_ok b" and "length bytes < 2 ^ 63"
  shows "unat (lb_write_pos b + of_nat (length bytes)) = unat (lb_write_pos b) + length bytes"
    and "of_nat (length (lb_data b)) < lb_write_pos b + of_nat (length bytes) \<longleftrightarrow>
      length (lb_data b) < unat (lb_write_pos b) + length bytes"
proof -
  have u: "unat (of_nat n :: u64) = n" if "n < 2 ^ 63" for n
    using that by (simp add: unsigned_of_nat take_bit_nat_eq_self)
  have "unat (lb_write_pos b) + length bytes < 2 ^ 63 + 2 ^ 63"
    using assms unfolding buffer_ok_def by linarith
  then show sum: "unat (lb_write_pos b + of_nat (length bytes)) = unat (lb_write_pos b) + length bytes"
    using u [OF assms(2)] by (subst unat_word_ariths) simp
  show "of_nat (length (lb_data b)) < lb_write_pos b + of_nat (length bytes) \<longleftrightarrow>
      length (lb_data b) < unat (lb_write_pos b) + length bytes"
    using assms(1) by (simp only: word_less_nat_alt sum u buffer_ok_def)
qed

lemma appendToBuffer_cases:
  assumes "buffer_ok b" and "length bytes < 2 ^ 63"
  obtains "length (lb_data b) < length (buffer_content b) + length bytes" and "appendToBuffer b bytes = (False, b)"
  | b' where "length (buffer_content b) + length bytes \<le> length (lb_data b)"
    and "appendToBuffer b bytes = (True, b')" and "buffer_ok b'" and "length (lb_data b') = length (lb_data b)"
    and "buffer_content b' = buffer_content b @ bytes"
proof -
  let ?p = "unat (lb_write_pos b)"
  have p: "length (buffer_content b) = ?p" "?p \<le> length (lb_data b)" "length (lb_data b) < 2 ^ 63"
    using assms(1) by (simp_all add: buffer_ok_def buffer_content_def)
  show thesis
  proof (cases "length (lb_data b) < ?p + length bytes")
    case True
    then show thesis
      using that(1) p append_position(2) [OF assms] by (simp add: appendToBuffer_def)
  next
    case False
    let ?b = "snd (appendToBuffer b bytes)"
    have "appendToBuffer b bytes = (True, ?b)" and data: "lb_data ?b = take ?p (lb_data b) @ bytes @ drop (?p + length bytes) (lb_data b)"
      and pos: "unat (lb_write_pos ?b) = ?p + length bytes"
      using False append_position [OF assms] by (simp_all add: appendToBuffer_def)
    then show thesis
      using False p by (intro that(2) [of ?b]) (simp_all add: buffer_ok_def buffer_content_def)
  qed
qed

text \<open>Records appended one after another; a refused one is dropped by the caller.\<close>

fun append_records :: "LogBuffer \<Rightarrow> u8 list list \<Rightarrow> bool list \<times> LogBuffer" where
  "append_records b [] = ([], b)"
| "append_records b (r # rs) =
     (let (ok, b') = appendToBuffer b r; (oks, b'') = append_records b' rs in (ok # oks, b''))"

lemma append_records_content:
  assumes "buffer_ok b" and "0 < k" and "k < 2 ^ 63" and "\<forall>r \<in> set rs. length r = k"
    and "length (buffer_content b) = n * k" and "cap = length (lb_data b) div k" and "n \<le> cap"
  shows "buffer_content (snd (append_records b rs)) = buffer_content b @ concat (take (cap - n) rs) \<and>
    fst (append_records b rs) = map (\<lambda>i. n + i < cap) [0..<length rs]"
  using assms
proof (induction rs arbitrary: b n)
  case (Cons r rs)
  have k: "length r = k" using Cons.prems(4) by simp
  have upt: "map (\<lambda>i. n + i < cap) [0..<length (r # rs)] = (n < cap) # map (\<lambda>i. Suc n + i < cap) [0..<length rs]"
    by (simp add: upt_conv_Cons map_Suc_upt [symmetric] comp_def del: upt_Suc)
  have fits: "n * k + k \<le> length (lb_data b) \<longleftrightarrow> n < cap"
  proof -
    have "n * k + k = Suc n * k" by simp
    then have "n * k + k \<le> length (lb_data b) \<longleftrightarrow> Suc n \<le> length (lb_data b) div k"
      using Cons.prems(2) by (simp only: less_eq_div_iff_mult_less_eq)
    then show ?thesis using Cons.prems(6) by (simp add: Suc_le_eq)
  qed
  have "length r < 2 ^ 63" using k Cons.prems(3) by simp
  with Cons.prems(1) show ?case
  proof (rule appendToBuffer_cases)
    assume full: "length (lb_data b) < length (buffer_content b) + length r" and same: "appendToBuffer b r = (False, b)"
    then have "n = cap" using fits k Cons.prems(5,7) by simp
    then show ?thesis
      using Cons.IH [of b n] Cons.prems same unfolding upt by (auto simp: Let_def split: prod.splits simp del: upt_Suc)
  next
    fix b'
    assume room: "length (buffer_content b) + length r \<le> length (lb_data b)"
      and b': "appendToBuffer b r = (True, b')" "buffer_ok b'" "length (lb_data b') = length (lb_data b)"
        "buffer_content b' = buffer_content b @ r"
    have n: "n < cap" using room fits k Cons.prems(5) by simp
    then obtain d where d: "cap - n = Suc d" "cap - Suc n = d"
      by (metis Suc_diff_Suc)
    have "buffer_content (snd (append_records b' rs)) = buffer_content b' @ concat (take (cap - Suc n) rs) \<and>
        fst (append_records b' rs) = map (\<lambda>i. Suc n + i < cap) [0..<length rs]"
      using Cons.prems n k b' by (intro Cons.IH) simp_all
    then show ?thesis
      using b'(1,4) d n unfolding upt by (auto simp: Let_def split: prod.splits simp del: upt_Suc)
  qed
qed simp

section \<open>Properties\<close>

text \<open>
  Property C28: a log buffer holds whole records only. Of the records of a fixed size appended to an empty
  buffer, exactly the first ones that fit are accepted, and the buffer then is their concatenation: no
  record is split, and the accepted record \<open>i\<close> starts at byte \<open>i * k\<close>, which is what lets the reader
  seek to a record without an index.
\<close>

theorem log_buffer_whole_records:
  assumes "buffer_ok b" and "lb_write_pos b = 0" and "0 < k" and "k < 2 ^ 63" and "\<forall>r \<in> set rs. length r = k"
  shows "fst (append_records b rs) = map (\<lambda>i. i < length (lb_data b) div k) [0..<length rs] \<and>
    buffer_content (snd (append_records b rs)) = concat (take (length (lb_data b) div k) rs)"
  using append_records_content [OF assms(1,3,4,5), of 0] assms(2) by (simp add: buffer_content_def)

theorem log_buffer_whole_records_witness:
  "fst (append_records \<lparr>lb_data = replicate 5 0, lb_write_pos = 0\<rparr> [[1, 2], [3, 4], [5, 6]]) = [True, True, False] \<and>
   buffer_content (snd (append_records \<lparr>lb_data = replicate 5 0, lb_write_pos = 0\<rparr> [[1, 2], [3, 4], [5, 6]])) = [1, 2, 3, 4]"
proof -
  let ?b = "\<lparr>lb_data = replicate 5 0, lb_write_pos = 0\<rparr>"
  have "map (\<lambda>i::nat. i < 2) [0..<length [[1, 2], [3, 4], [5, 6 :: u8]]] = [True, True, False]"
    by (simp add: upt_rec)
  moreover have "length (lb_data ?b) div 2 = 2" "buffer_ok ?b" "lb_write_pos ?b = 0"
    "\<forall>r \<in> set [[1, 2], [3, 4], [5, 6 :: u8]]. length r = 2"
    by (simp_all add: buffer_ok_def)
  moreover have "concat (take 2 [[1, 2], [3, 4], [5, 6 :: u8]]) = [1, 2, 3, 4]"
    by simp
  ultimately show ?thesis
    using log_buffer_whole_records [of ?b 2 "[[1, 2], [3, 4], [5, 6]]"] by (simp only:) simp
qed

text \<open>
  What the publisher's queue costs. An event is 192 bytes, because its data is aligned to a
  cache line, so that a slot of the queue with its sequence number is 256 bytes and the queue 16 MiB; the
  header's comment says about 136 bytes and 9 MB. The header of a log file is the 24 bytes the comment says.
\<close>

theorem bridge_queue_layout:
  "sizeof_struct 64 BridgeEvent_members = 192 \<and> offsetof BridgeEvent_members ''data'' = Some 64 \<and>
   sizeof_struct 64 [(''data'', sizeof_struct 64 BridgeEvent_members, 64), (''seq'', 8, 8)] * 65536 = 16 * 1024 * 1024 \<and>
   sizeof_struct 8 LogFileHeader_members = 24"
  by (simp add: BridgeEvent_members_def LogFileHeader_members_def EVENT_DATA_SIZE_def sizeof_struct_def offsetof_def
      align_up_def)

end
