(* ===== verification/Pipeline.thy ===== *)
theory Pipeline
  imports App_Config File_Replay Log_Bridge
begin

text \<open>
  The program's entry point, \<^verbatim>\<open>src/main.cpp\<close>: the registration of the strategies, the construction of the
  order gateway, the two modes and \<^verbatim>\<open>main\<close>. What the code asks of the library (and of the operating
  system) is a trace of effects in program order; what the library answers is a record of parameters.
  Of the printing, only the statistics are modelled. The running phase of the live mode is the subject of \<^verbatim>\<open>Live_Threads\<close>.
\<close>

section \<open>Effects and answers\<close>

datatype effect =
    Install_handlers
  | Create_directories string
  | Log_initialize string LogConfig
  | Bridge_initialize BridgeConfig
  | Update_risk_parameters RiskParameters
  | Set_available_capital Decimal
  | Register_strategy GridStrategy
  | Create_gateway ExchangeConfig u32 bool
  | Set_http_client
  | Set_user_stream bool
  | Create_md_gateway string ExchangeConfig
  | Subscribe string
  | Start_engine
  | Start_gateway
  | Start_user_stream ExchangeConfig
  | Start_md
  | Replay_ticks "Tick list"
  | Run_until_signal
  | Stop_md
  | Stop_user_stream
  | Stop_gateway
  | Stop_engine
  | Stop_bridge
  | Flush_log
  | Stop_log

text \<open>
  \<open>pe_library\<close> is what an effect does to the engine, \<open>pe_live_ends\<close> whether the running phase of the live
  mode comes to its end, and \<open>pe_has_live\<close> the macro \<^verbatim>\<open>CHRONOS_HAS_LIVE_MODE\<close>.
\<close>

record 'h process_env =
  pe_mkdir :: "string \<Rightarrow> bool"
  pe_open_logs :: "string \<Rightarrow> string \<Rightarrow> LogFileSet"
  pe_streams :: 'h
  pe_add_stream :: "LogReader \<Rightarrow> 'h TimeReplayer \<Rightarrow> 'h TimeReplayer"
  pe_replay :: "'h replay_env"
  pe_library :: "effect \<Rightarrow> StrategyEngine \<Rightarrow> StrategyEngine"
  pe_has_live :: bool
  pe_md_created :: "string \<Rightarrow> ExchangeConfig \<Rightarrow> bool"
  pe_user_stream_started :: bool
  pe_user_stream_running :: bool
  pe_live_ends :: bool

type_synonym run = "int \<times> effect list"

section \<open>The parts of the set-up\<close>

fun registerStrategies :: "StrategyCfg list \<Rightarrow> effect list outcome" where
  "registerStrategies [] = Inr []"
| "registerStrategies (sc # scs) =
     (if sc_type sc = ''grid'' \<or> sc_type sc = ''GridStrategy'' then
        bind_outcome (GridStrategy_new
            \<lparr>gc_grid_low = sc_grid_low sc, gc_grid_high = sc_grid_high sc, gc_grid_levels = sc_grid_levels sc,
             gc_quantity = sc_quantity sc, gc_symbol_id = sc_symbol_id sc\<rparr>) (\<lambda>strategy.
          bind_outcome (registerStrategies scs) (\<lambda>tr. Inr (Register_strategy strategy # tr)))
      else registerStrategies scs)"

text \<open>The fill callback of the order gateway: into the engine, then to the publisher.\<close>

definition fill_callback :: "Fill \<Rightarrow> StrategyEngine \<times> Fill list \<Rightarrow> (StrategyEngine \<times> Fill list) outcome option" where
  "fill_callback fill s =
     (case pushFill (fst s) fill of
        None \<Rightarrow> None
      | Some (Inl f) \<Rightarrow> Some (Inl f)
      | Some (Inr (pushed, e)) \<Rightarrow> Some (Inr (e, snd s @ [fill])))"

definition createOrderGateway :: "ExchangeConfig \<Rightarrow> bool \<Rightarrow> bool \<Rightarrow> effect list" where
  "createOrderGateway exCfg httpClient simulateFills =
     Create_gateway exCfg 0 simulateFills # (if httpClient \<and> \<not> simulateFills then [Set_http_client] else [])"

definition setup_logging :: "'h process_env \<Rightarrow> AppConfig \<Rightarrow> effect list outcome" where
  "setup_logging env cfg =
     (let dir = ac_log_output_dir cfg in
      if dir = [] then Inr []
      else if \<not> pe_mkdir env dir then Inl Filesystem_error
      else Inr [Create_directories dir, Log_initialize dir (LogConfig_init\<lparr>lc_log_dir := dir\<rparr>)])"

definition setup_bridge :: "AppConfig \<Rightarrow> effect list" where
  "setup_bridge cfg =
     [Bridge_initialize (BridgeConfig_init\<lparr>bc_bind_address := ac_zmq_endpoint cfg, bc_send_hwm := ac_zmq_hwm cfg,
        bc_linger_ms := ac_zmq_linger cfg\<rparr>)]"

definition setup_engine :: "AppConfig \<Rightarrow> effect list outcome" where
  "setup_engine cfg =
     bind_outcome (toDecimal (ac_initial_capital cfg)) (\<lambda>capital.
     bind_outcome (registerStrategies (ac_strategies cfg)) (\<lambda>tr.
       Inr (Update_risk_parameters (ac_risk_params cfg) # Set_available_capital capital # tr)))"

definition shutdown :: "effect list" where
  "shutdown = [Stop_gateway, Stop_engine, Stop_bridge, Flush_log, Stop_log]"

section \<open>File replay\<close>

definition replay_setup :: "'h process_env \<Rightarrow> AppConfig \<Rightarrow> effect list outcome" where
  "replay_setup env cfg =
     bind_outcome (setup_logging env cfg) (\<lambda>t1.
     bind_outcome (setup_engine cfg) (\<lambda>t2.
       Inr (t1 @ setup_bridge cfg @ t2 @
         createOrderGateway (ExchangeConfig_init\<lparr>exc_name := ''simulated''\<rparr>) False True @
         [Start_engine, Start_gateway])))"

definition engine_after :: "'h process_env \<Rightarrow> effect list \<Rightarrow> StrategyEngine" where
  "engine_after env tr = fold (pe_library env) tr StrategyEngine_init"

definition runFileReplay :: "'h process_env \<Rightarrow> AppConfig \<Rightarrow> (run \<times> Replay option) outcome option" where
  "runFileReplay env cfg =
     (let logSet = pe_open_logs env (ac_log_dir cfg) (ac_date cfg) in
      if \<not> isOpen (lf_tick logSet) then Some (Inr ((1, []), None))
      else case replay_setup env cfg of
        Inl f \<Rightarrow> Some (Inl f)
      | Inr setup \<Rightarrow>
          (case replay_loop (pe_replay env) (pe_add_stream env (lf_tick logSet) (TimeReplayer_init (pe_streams env)))
             (Replay_init (engine_after env setup)) of
             None \<Rightarrow> None
           | Some (Inl f) \<Rightarrow> Some (Inl f)
           | Some (Inr s) \<Rightarrow> Some (Inr ((0, setup @ Replay_ticks (rs_published s) # shutdown), Some s))))"

section \<open>Live mode\<close>

definition live_exchange :: "AppConfig \<Rightarrow> ExchangeConfig" where
  "live_exchange cfg = ExchangeConfig_init
     \<lparr>exc_name := ac_exchange_name cfg, exc_websocket_url := ac_exchange_url cfg, exc_rest_url := ac_rest_url cfg,
      exc_user_stream_url := ac_user_stream_url cfg, exc_proxy_host := ac_proxy_host cfg,
      exc_proxy_port := word_of_int (ac_proxy_port cfg), exc_api_key := ac_exchange_api_key cfg,
      exc_api_secret := ac_exchange_api_secret cfg, exc_symbols := ac_exchange_symbols cfg\<rparr>"

definition useRealExecution :: "AppConfig \<Rightarrow> bool" where
  "useRealExecution cfg \<longleftrightarrow> \<not> ac_force_simulate cfg \<and> ac_exchange_api_key cfg \<noteq> [] \<and> ac_exchange_api_secret cfg \<noteq> []"

definition subscriptions :: "AppConfig \<Rightarrow> effect list" where
  "subscriptions cfg = map Subscribe (ac_exchange_symbols cfg) @
     (if ac_exchange_symbols cfg = [] then [Subscribe ''btcusdt''] else [])"

text \<open>The order gateway is created before there is an HTTP client, and is given the client afterwards.\<close>

definition live_gateway :: "AppConfig \<Rightarrow> effect list" where
  "live_gateway cfg =
     createOrderGateway (live_exchange cfg) False (\<not> useRealExecution cfg) @
     (if useRealExecution cfg then [Set_http_client] else [])"

definition live_start :: "'h process_env \<Rightarrow> AppConfig \<Rightarrow> effect list" where
  "live_start env cfg =
     [Start_engine, Start_gateway] @
     (if useRealExecution cfg
      then [Start_user_stream (live_exchange cfg), Set_user_stream (pe_user_stream_started env)] else []) @
     [Start_md]"

definition live_stop :: "'h process_env \<Rightarrow> AppConfig \<Rightarrow> effect list" where
  "live_stop env cfg =
     Stop_md # (if useRealExecution cfg \<and> pe_user_stream_running env then [Stop_user_stream] else []) @ shutdown"

text \<open>The program built without the IO layer has this function in place of \<^verbatim>\<open>runLive\<close>.\<close>

definition runLive_unavailable :: "AppConfig \<Rightarrow> run outcome option" where
  "runLive_unavailable cfg = Some (Inr (1, []))"

declare runLive_unavailable_def [simp]

definition runLive :: "'h process_env \<Rightarrow> AppConfig \<Rightarrow> run outcome option" where
  "runLive env cfg =
     (if \<not> pe_has_live env then runLive_unavailable cfg
      else case bind_outcome (setup_logging env cfg) (\<lambda>t1.
          bind_outcome (setup_engine cfg) (\<lambda>t2. Inr (t1 @ setup_bridge cfg @ t2))) of
        Inl f \<Rightarrow> Some (Inl f)
      | Inr setup \<Rightarrow>
          if exc_websocket_url (live_exchange cfg) = [] then Some (Inr (1, setup))
          else let created = setup @ live_gateway cfg @ [Create_md_gateway (ac_exchange_name cfg) (live_exchange cfg)] in
          if \<not> pe_md_created env (ac_exchange_name cfg) (live_exchange cfg) then Some (Inr (1, created))
          else if \<not> pe_live_ends env then None
          else Some (Inr (0, created @ subscriptions cfg @ live_start env cfg @ Run_until_signal # live_stop env cfg)))"

section \<open>The statistics on the screen\<close>

text \<open>
  The numbers of the line that is rewritten every two seconds, and the lines of the summary; the rules drawn
  between them are left out.
\<close>

definition printStatsPeriodic :: "EngineStats \<Rightarrow> OrderGatewayStats \<Rightarrow> (string \<times> u64) list" where
  "printStatsPeriodic es gs =
     [(''ticks'', es_ticks_processed es), (''orders'', es_orders_submitted es), (''fills'', es_fills_processed es),
      (''GW sent'', gw_orders_sent gs), (''GW fill'', gw_fills_received gs), (''rej'', es_orders_risk_rejected es),
      (''drop'', es_orders_queue_dropped es)]"

definition printSummary :: "EngineStats \<Rightarrow> OrderGatewayStats \<Rightarrow> ZMQBridge \<Rightarrow> LogWriter \<Rightarrow> (string \<times> u64) list" where
  "printSummary es gs zmq lw =
     [(''Ticks processed:'', es_ticks_processed es), (''Orders submitted:'', es_orders_submitted es),
      (''Orders risk-rejected:'', es_orders_risk_rejected es), (''Orders queue-dropped:'', es_orders_queue_dropped es),
      (''Fills processed:'', es_fills_processed es), (''GW orders received:'', gw_orders_received gs),
      (''GW orders sent:'', gw_orders_sent gs), (''GW orders cancelled:'', gw_orders_cancelled gs),
      (''GW orders modified:'', gw_orders_modified gs), (''GW fills received:'', gw_fills_received gs),
      (''GW exchange mismatch:'', gw_exchange_id_mismatch gs), (''GW avg send latency:'', gw_avg_send_latency_us gs),
      (''ZMQ ticks published:'', ticksPublished zmq), (''ZMQ fills published:'', fillsPublished zmq),
      (''ZMQ dropped:'', droppedCount zmq), (''Log ticks written:'', ticksWritten lw)]"

section \<open>The entry point\<close>

definition main_loaded :: "'h process_env \<Rightarrow> AppConfig \<Rightarrow> run outcome option" where
  "main_loaded env cfg =
     map_option (map_sum id (\<lambda>(code, tr). (code, Install_handlers # tr)))
       (if ac_live_mode cfg then runLive env cfg
        else if ac_log_dir cfg = [] then Some (Inr (1, []))
        else map_option (map_sum id fst) (runFileReplay env cfg))"

definition main ::
  "'h process_env \<Rightarrow> 'n yaml \<Rightarrow> (string \<Rightarrow> string option) \<Rightarrow> Flags \<Rightarrow> string list \<Rightarrow> run outcome option" where
  "main env y getenv flags argv =
     (let (ok, cfg) = parseArgs flags argv AppConfig_init in
      if \<not> ok then Some (Inr (1, []))
      else case loadConfig y getenv (ac_config_path cfg) cfg of
        Inl f \<Rightarrow> Some (Inl f)
      | Inr (loaded, cfg') \<Rightarrow> if \<not> loaded then Some (Inr (1, [])) else main_loaded env cfg')"


section \<open>Lemmas\<close>

definition is_grid :: "StrategyCfg \<Rightarrow> bool" where
  "is_grid sc \<longleftrightarrow> sc_type sc = ''grid'' \<or> sc_type sc = ''GridStrategy''"

definition grid_config :: "StrategyCfg \<Rightarrow> GridConfig" where
  "grid_config sc =
     \<lparr>gc_grid_low = sc_grid_low sc, gc_grid_high = sc_grid_high sc, gc_grid_levels = sc_grid_levels sc,
      gc_quantity = sc_quantity sc, gc_symbol_id = sc_symbol_id sc\<rparr>"

fun is_register :: "effect \<Rightarrow> bool" where
  "is_register (Register_strategy g) \<longleftrightarrow> True"
| "is_register _ \<longleftrightarrow> False"

lemma registerStrategies_list:
  assumes "registerStrategies scs = Inr tr"
  shows "\<exists>gs. tr = map Register_strategy gs \<and>
    map Inr gs = map (\<lambda>sc. GridStrategy_new (grid_config sc)) (filter is_grid scs)"
  using assms
proof (induction scs arbitrary: tr)
  case (Cons sc scs)
  show ?case
  proof (cases "is_grid sc")
    case True
    then obtain g tr' where g: "GridStrategy_new (grid_config sc) = Inr g" "registerStrategies scs = Inr tr'"
      "tr = Register_strategy g # tr'"
      using Cons.prems by (auto simp: is_grid_def grid_config_def bind_outcome_Inr_iff)
    from Cons.IH [OF g(2)] obtain gs where "tr' = map Register_strategy gs"
      "map Inr gs = map (\<lambda>sc. GridStrategy_new (grid_config sc)) (filter is_grid scs)"
      by blast
    with g True show ?thesis by (intro exI [of _ "g # gs"]) auto
  next
    case False
    then show ?thesis
      using Cons.prems Cons.IH [of tr] by (auto simp: is_grid_def)
  qed
qed simp

text \<open>What the set-up of either mode can contain.\<close>

fun is_setup :: "effect \<Rightarrow> bool" where
  "is_setup (Create_directories d) \<longleftrightarrow> True"
| "is_setup (Log_initialize d c) \<longleftrightarrow> True"
| "is_setup (Bridge_initialize c) \<longleftrightarrow> True"
| "is_setup (Update_risk_parameters p) \<longleftrightarrow> True"
| "is_setup (Set_available_capital c) \<longleftrightarrow> True"
| "is_setup (Register_strategy g) \<longleftrightarrow> True"
| "is_setup _ \<longleftrightarrow> False"

lemma setup_logging_parts:
  "setup_logging env cfg = Inr tr \<Longrightarrow> (\<forall>x \<in> set tr. is_setup x) \<and> filter is_register tr = []"
  by (auto simp: setup_logging_def Let_def split: if_splits)

lemma setup_bridge_parts: "(\<forall>x \<in> set (setup_bridge cfg). is_setup x) \<and> filter is_register (setup_bridge cfg) = []"
  by (simp add: setup_bridge_def)

definition registered :: "AppConfig \<Rightarrow> effect list \<Rightarrow> bool" where
  "registered cfg tr \<longleftrightarrow> (\<exists>gs. filter is_register tr = map Register_strategy gs \<and>
     map Inr gs = map (\<lambda>sc. GridStrategy_new (grid_config sc)) (filter is_grid (ac_strategies cfg)))"

lemma setup_engine_parts:
  assumes "setup_engine cfg = Inr tr"
  shows "(\<forall>x \<in> set tr. is_setup x) \<and> registered cfg tr"
proof -
  obtain c t where t: "registerStrategies (ac_strategies cfg) = Inr t"
    "tr = Update_risk_parameters (ac_risk_params cfg) # Set_available_capital c # t"
    using assms by (auto simp: setup_engine_def bind_outcome_Inr_iff)
  from registerStrategies_list [OF t(1)] obtain gs where gs: "t = map Register_strategy gs"
    "map Inr gs = map (\<lambda>sc. GridStrategy_new (grid_config sc)) (filter is_grid (ac_strategies cfg))"
    by blast
  have "filter is_register (map Register_strategy gs) = map Register_strategy gs"
    by (simp add: filter_id_conv)
  with t gs show ?thesis
    by (auto simp: registered_def)
qed

text \<open>The common beginning of both modes.\<close>

definition prepared :: "AppConfig \<Rightarrow> effect list \<Rightarrow> bool" where
  "prepared cfg tr \<longleftrightarrow> (\<forall>x \<in> set tr. is_setup x) \<and> registered cfg tr"

lemma prepared_setup:
  assumes "bind_outcome (setup_logging env cfg) (\<lambda>t1. bind_outcome (setup_engine cfg) (\<lambda>t2. Inr (t1 @ setup_bridge cfg @ t2))) = Inr tr"
  shows "prepared cfg tr"
  using assms setup_bridge_parts [of cfg]
  by (auto simp: prepared_def registered_def bind_outcome_Inr_iff dest!: setup_logging_parts setup_engine_parts)

lemma replay_setup_prepared:
  assumes "replay_setup env cfg = Inr tr"
  obtains pre where "prepared cfg pre" and "tr = pre @
      [Create_gateway (ExchangeConfig_init\<lparr>exc_name := ''simulated''\<rparr>) 0 True, Start_engine, Start_gateway]"
proof -
  obtain t1 t2 where "setup_logging env cfg = Inr t1" "setup_engine cfg = Inr t2"
    and tr: "tr = (t1 @ setup_bridge cfg @ t2) @
      [Create_gateway (ExchangeConfig_init\<lparr>exc_name := ''simulated''\<rparr>) 0 True, Start_engine, Start_gateway]"
    using assms by (auto simp: replay_setup_def createOrderGateway_def bind_outcome_Inr_iff)
  then have "prepared cfg (t1 @ setup_bridge cfg @ t2)"
    by (intro prepared_setup [of env]) simp
  with tr show thesis by (rule that [rotated])
qed

lemma runFileReplayE:
  assumes "runFileReplay env cfg = Some (Inr ((code, tr), st))"
  obtains "code = 1" and "tr = []" and "st = None"
  | pre s where "code = 0" and "prepared cfg pre" and "st = Some s"
    and "tr = pre @ [Create_gateway (ExchangeConfig_init\<lparr>exc_name := ''simulated''\<rparr>) 0 True, Start_engine,
       Start_gateway, Replay_ticks (rs_published s)] @ shutdown"
proof (cases "isOpen (lf_tick (pe_open_logs env (ac_log_dir cfg) (ac_date cfg)))")
  case False
  then show thesis using assms that(1) by (simp add: runFileReplay_def)
next
  case True
  then obtain su s where su: "replay_setup env cfg = Inr su"
    and tr: "code = 0" "tr = su @ Replay_ticks (rs_published s) # shutdown" "st = Some s"
    using assms by (auto simp: runFileReplay_def Let_def split: sum.splits option.splits)
  from su obtain pre where "prepared cfg pre" "su = pre @
      [Create_gateway (ExchangeConfig_init\<lparr>exc_name := ''simulated''\<rparr>) 0 True, Start_engine, Start_gateway]"
    by (rule replay_setup_prepared)
  with tr show thesis by (intro that(2)) auto
qed

lemma runLiveE:
  assumes "runLive env cfg = Some (Inr (code, tr))"
  obtains "code = 1" and "tr = []"
  | pre where "code = 1" and "prepared cfg pre" and "tr = pre"
  | pre where "code = 1" and "prepared cfg pre"
    and "tr = pre @ live_gateway cfg @ [Create_md_gateway (ac_exchange_name cfg) (live_exchange cfg)]"
  | pre where "code = 0" and "prepared cfg pre" and "pe_live_ends env"
    and "tr = (pre @ live_gateway cfg @ [Create_md_gateway (ac_exchange_name cfg) (live_exchange cfg)]) @
      subscriptions cfg @ live_start env cfg @ Run_until_signal # live_stop env cfg"
proof (cases "pe_has_live env")
  case False
  then show thesis using assms that(1) by (simp add: runLive_def)
next
  case True
  then obtain pre where "bind_outcome (setup_logging env cfg) (\<lambda>t1.
      bind_outcome (setup_engine cfg) (\<lambda>t2. Inr (t1 @ setup_bridge cfg @ t2))) = Inr pre"
    using assms by (auto simp: runLive_def split: sum.splits)
  with True assms prepared_setup [OF this] that(2-4) show thesis
    by (auto simp: runLive_def Let_def split: if_splits)
qed


section \<open>Properties\<close>

definition is_start :: "effect \<Rightarrow> bool" where
  "is_start x \<longleftrightarrow> x \<in> {Start_engine, Start_gateway, Start_md} \<or> (\<exists>c. x = Start_user_stream c)"

definition is_stop :: "effect \<Rightarrow> bool" where
  "is_stop x \<longleftrightarrow> x \<in> {Stop_md, Stop_user_stream, Stop_gateway, Stop_engine, Stop_bridge, Flush_log, Stop_log}"

lemma shutdown_effects:
  "\<forall>x \<in> set shutdown. is_stop x \<and> \<not> is_start x \<and> \<not> is_register x \<and> x \<noteq> Start_engine"
  by (auto simp: is_stop_def is_start_def shutdown_def)

lemma setup_effects: "is_setup x \<Longrightarrow> \<not> is_start x \<and> \<not> is_stop x \<and> x \<noteq> Start_engine \<and> x \<noteq> Set_http_client"
  by (cases x) (auto simp: is_start_def is_stop_def shutdown_def)

lemma gateway_effects:
  "x \<in> set (live_gateway cfg) \<Longrightarrow> \<not> is_start x \<and> \<not> is_stop x \<and> \<not> is_register x \<and> x \<noteq> Start_engine"
  by (auto simp: live_gateway_def createOrderGateway_def is_start_def is_stop_def shutdown_def split: if_splits)

lemma subscription_effects:
  "x \<in> set (subscriptions cfg) \<Longrightarrow> \<not> is_start x \<and> \<not> is_stop x \<and> \<not> is_register x \<and> x \<noteq> Start_engine"
  by (auto simp: subscriptions_def is_start_def is_stop_def shutdown_def split: if_splits)

text \<open>How a run that reports success looks, in either mode.\<close>

definition full_run :: "AppConfig \<Rightarrow> effect list \<Rightarrow> bool" where
  "full_run cfg tr \<longleftrightarrow> (\<exists>pre mid.
     tr = pre @ Start_engine # mid @ [Stop_gateway, Stop_engine, Stop_bridge, Flush_log, Stop_log] \<and> registered cfg pre \<and>
     (\<forall>x \<in> set pre. \<not> is_start x \<and> \<not> is_stop x) \<and>
     (\<forall>x \<in> set mid. \<not> is_register x \<and> x \<noteq> Start_engine \<and>
        x \<notin> {Stop_gateway, Stop_engine, Stop_bridge, Flush_log, Stop_log}))"

lemma full_runI:
  assumes "prepared cfg pre" and "\<forall>x \<in> set ext. \<not> is_start x \<and> \<not> is_stop x \<and> \<not> is_register x"
    and "\<forall>x \<in> set mid. \<not> is_register x \<and> x \<noteq> Start_engine \<and> x \<notin> set shutdown"
  shows "full_run cfg (Install_handlers # (pre @ ext) @ Start_engine # mid @ shutdown)"
proof -
  have "registered cfg (Install_handlers # pre @ ext)"
    using assms(1,2) by (simp add: prepared_def registered_def filter_False)
  moreover have "\<forall>x \<in> set (Install_handlers # pre @ ext). \<not> is_start x \<and> \<not> is_stop x"
    using assms(1,2) by (auto simp: prepared_def dest: setup_effects) (simp_all add: is_start_def is_stop_def shutdown_def)
  ultimately show ?thesis
    using assms(3) unfolding full_run_def shutdown_def
    by (intro exI [of _ "Install_handlers # pre @ ext"] exI [of _ mid]) simp
qed

lemma full_run_replay:
  assumes "prepared cfg pre"
  shows "full_run cfg (Install_handlers # pre @ [Create_gateway ex 0 True, Start_engine, Start_gateway, Replay_ticks ts] @ shutdown)"
  using full_runI [OF assms, of "[Create_gateway ex 0 True]" "[Start_gateway, Replay_ticks ts]"]
  by (simp add: is_start_def is_stop_def shutdown_def)

lemma full_run_live:
  assumes "prepared cfg pre"
  shows "full_run cfg (Install_handlers # (pre @ live_gateway cfg @ [Create_md_gateway nm ex]) @
    subscriptions cfg @ live_start env cfg @ Run_until_signal # live_stop env cfg)"
proof -
  let ?stops = "Stop_md # (if useRealExecution cfg \<and> pe_user_stream_running env then [Stop_user_stream] else [])"
  let ?mid = "tl (live_start env cfg) @ Run_until_signal # ?stops"
  have "live_start env cfg = Start_engine # tl (live_start env cfg)"
    by (simp add: live_start_def)
  moreover have "live_stop env cfg = ?stops @ shutdown"
    by (simp add: live_stop_def)
  moreover have "\<forall>x \<in> set (live_gateway cfg @ [Create_md_gateway nm ex] @ subscriptions cfg). \<not> is_start x \<and> \<not> is_stop x \<and> \<not> is_register x"
    by (auto dest: gateway_effects subscription_effects simp: is_start_def is_stop_def shutdown_def)
  moreover have "\<forall>x \<in> set ?mid. \<not> is_register x \<and> x \<noteq> Start_engine \<and> x \<notin> set shutdown"
    by (auto simp: live_start_def live_stop_def shutdown_def split: if_splits)
  ultimately show ?thesis
    using full_runI [OF assms, of "live_gateway cfg @ [Create_md_gateway nm ex] @ subscriptions cfg" ?mid]
    by (metis append.assoc append_Cons)
qed

lemma map_sum_Inr_iff: "map_sum id f q = Inr x \<longleftrightarrow> (\<exists>z. q = Inr z \<and> x = f z)"
  by (cases q) auto

lemma main_loaded_cases:
  assumes "main_loaded env cfg = Some (Inr (code, tr))"
  shows "code = 0 \<and> full_run cfg tr \<or> code = 1 \<and> (\<forall>x \<in> set tr. \<not> is_start x \<and> \<not> is_stop x)"
proof -
  have start: "\<forall>x \<in> set (Install_handlers # pre). \<not> is_start x \<and> \<not> is_stop x" if "\<forall>x \<in> set pre. is_setup x" for pre
    using that by (auto dest: setup_effects) (simp_all add: is_start_def is_stop_def shutdown_def)
  consider (live) tr' where "runLive env cfg = Some (Inr (code, tr'))" "tr = Install_handlers # tr'"
    | (none) "code = 1" "tr = [Install_handlers]"
    | (replay) tr' st where "runFileReplay env cfg = Some (Inr ((code, tr'), st))" "tr = Install_handlers # tr'"
    using assms by (auto simp: main_loaded_def map_sum_Inr_iff split: if_splits)
  then show ?thesis
  proof cases
    case live
    from live(1) show ?thesis
    proof (cases rule: runLiveE)
      case 1
      then show ?thesis using live(2) start [of "[]"] by simp
    next
      case (2 pre)
      then show ?thesis using live(2) start [of pre] by (simp add: prepared_def)
    next
      case (3 pre)
      then show ?thesis
        using start [of pre] live(2) gateway_effects [of _ cfg]
        by (auto simp: prepared_def) (auto simp: is_start_def is_stop_def shutdown_def)
    next
      case (4 pre)
      then show ?thesis using live(2) full_run_live [OF 4(2), of "ac_exchange_name cfg" "live_exchange cfg" env] by simp
    qed
  next
    case none
    then show ?thesis using start [of "[]"] by simp
  next
    case replay
    from replay(1) show ?thesis
    proof (cases rule: runFileReplayE)
      case 1
      then show ?thesis using replay(2) start [of "[]"] by simp
    next
      case (2 pre s)
      then show ?thesis using replay(2) full_run_replay [OF 2(2)] by simp
    qed
  qed
qed

lemma main_outcomes:
  assumes "main env y getenv flags argv = Some (Inr (code, tr))"
  shows "code = 1 \<and> (\<forall>x \<in> set tr. \<not> is_start x \<and> \<not> is_stop x) \<or>
    code = 0 \<and> (\<exists>cfg. loadConfig y getenv (ac_config_path (snd (parseArgs flags argv AppConfig_init)))
        (snd (parseArgs flags argv AppConfig_init)) = Inr (True, cfg) \<and> full_run cfg tr)"
proof (cases "fst (parseArgs flags argv AppConfig_init)")
  case False
  then show ?thesis using assms by (auto simp: main_def split: prod.splits)
next
  case True
  then obtain loaded cfg where load: "loadConfig y getenv (ac_config_path (snd (parseArgs flags argv AppConfig_init)))
        (snd (parseArgs flags argv AppConfig_init)) = Inr (loaded, cfg)"
    and rest: "(if \<not> loaded then Some (Inr (1, [])) else main_loaded env cfg) = Some (Inr (code, tr))"
    using assms by (auto simp: main_def split: prod.splits sum.splits)
  then show ?thesis
    using main_loaded_cases [of env cfg code tr] by (cases loaded) auto
qed


lemma parseArgs_strategies [simp]: "ac_strategies (snd (parseArgs flags argv cfg)) = ac_strategies cfg"
  by (simp add: parseArgs_def Let_def)

lemma full_run_registers: "full_run cfg tr \<Longrightarrow> registered cfg tr"
  by (auto simp: full_run_def registered_def filter_False)

text \<open>
  Property C6: from the file to the engine. When \<^verbatim>\<open>main\<close> returns status 0, the strategies it has
  registered are exactly these, in this order: for every entry of the list \<^verbatim>\<open>strategies\<close> of the YAML
  file that is not switched off and names a grid, the grid that the constructor builds from that entry's
  parameters. Entries of any other name are loaded and skipped, with a warning.
\<close>

theorem main_registers_yaml_grids:
  assumes run: "main env y getenv flags argv = Some (Inr (0, tr))"
    and doc: "y_load y (ac_config_path (snd (parseArgs flags argv AppConfig_init))) = Some doc"
    and sec: "y_get y doc ''strategies'' = Inr v" "y_defined y v" "y_is_seq y v"
  shows "\<exists>scs gs. list_all2 (\<lambda>s sc. load_strategy y s = Inr sc) (filter (enabled y) (y_elems y v)) scs \<and>
    map Inr gs = map (\<lambda>sc. GridStrategy_new (grid_config sc)) (filter is_grid scs) \<and>
    filter is_register tr = map Register_strategy gs"
proof -
  obtain cfg where load: "loadConfig y getenv (ac_config_path (snd (parseArgs flags argv AppConfig_init)))
      (snd (parseArgs flags argv AppConfig_init)) = Inr (True, cfg)" and "full_run cfg tr"
    using main_outcomes [OF run] by auto
  moreover have "ac_strategies AppConfig_init = []" by (simp add: AppConfig_init_def)
  ultimately show ?thesis
    using loadConfig_appends [OF load doc sec] full_run_registers [of cfg tr]
    by (fastforce simp: registered_def)
qed

text \<open>
  Real or simulated execution. A live run that ends with status 0 used the exchange exactly
  when simulation was not forced and both credentials were there: only then the gateway was told not to
  simulate, was given an HTTP client, and a user stream was started.
\<close>

theorem live_execution_mode:
  assumes "runLive env cfg = Some (Inr (0, tr))"
  shows "(Set_http_client \<in> set tr \<longleftrightarrow> useRealExecution cfg) \<and>
    (Create_gateway ex i simulate \<in> set tr \<longleftrightarrow> ex = live_exchange cfg \<and> i = 0 \<and> simulate = (\<not> useRealExecution cfg)) \<and>
    (Start_user_stream ex \<in> set tr \<longleftrightarrow> useRealExecution cfg \<and> ex = live_exchange cfg)"
  using assms
proof (cases rule: runLiveE)
  case (4 pre)
  then have "\<forall>x \<in> set pre. is_setup x" by (simp add: prepared_def)
  then have "Set_http_client \<notin> set pre" "Create_gateway ex i simulate \<notin> set pre" "Start_user_stream ex \<notin> set pre"
    by auto
  with 4 show ?thesis
    by (auto simp: live_gateway_def createOrderGateway_def subscriptions_def live_start_def live_stop_def shutdown_def
        split: if_splits)
qed simp_all

text \<open>
  The proxy port of the configuration is an \<^verbatim>\<open>int\<close>, that of the exchange a \<^verbatim>\<open>uint16_t\<close> in
  which 0 stands for no proxy: exactly the multiples of 65536 turn the proxy off.
\<close>

theorem proxy_port_truncated:
  "exc_proxy_port (live_exchange cfg) = 0 \<longleftrightarrow> 65536 dvd ac_proxy_port cfg"
  by (simp add: live_exchange_def word_of_int_eq_0_iff)


text \<open>
  A whole replay. When the directory has a tick log, the set-up succeeds, the library's set-up
  calls leave the tick queue alone and no signal comes, \<^verbatim>\<open>runFileReplay\<close> returns 0 after it has published
  all ticks of the log in order, counted them, and shut everything down.
\<close>

theorem replay_run_complete:
  assumes "isOpen (lf_tick (pe_open_logs env (ac_log_dir cfg) (ac_date cfg)))" and "replay_setup env cfg = Inr tr"
    and keeps: "\<And>x e. se_tick_queue (pe_library env x e) = se_tick_queue e"
    and evs: "replays (pe_replay env) (pe_add_stream env (lf_tick (pe_open_logs env (ac_log_dir cfg) (ac_date cfg)))
      (TimeReplayer_init (pe_streams env))) evs" "length evs \<le> 2 ^ 62"
    and pops: "\<And>n. only_pops (rv_engine_thread (pe_replay env) n)" and run: "\<And>n. rv_running (pe_replay env) n"
  shows "\<exists>s. runFileReplay env cfg = Some (Inr ((0, tr @ [Replay_ticks (ticks_of evs), Stop_gateway, Stop_engine,
      Stop_bridge, Flush_log, Stop_log]), Some s)) \<and>
    rs_tick_count s = of_nat (length (ticks_of evs))"
proof -
  have "se_tick_queue (fold (pe_library env) xs e) = se_tick_queue e" for xs e
    by (induction xs arbitrary: e) (simp_all add: keeps)
  then have "replay_ready (length evs) (Replay_init (engine_after env tr))"
    using fresh_replay_ready [OF evs(2)] by (simp add: replay_ready_def Replay_init_def engine_after_def)
  moreover have "stays_down (rv_running (pe_replay env))"
    by (simp add: stays_down_def run)
  ultimately obtain s ts where s: "replay_loop (pe_replay env) (pe_add_stream env
      (lf_tick (pe_open_logs env (ac_log_dir cfg) (ac_date cfg))) (TimeReplayer_init (pe_streams env)))
      (Replay_init (engine_after env tr)) = Some (Inr s)"
    and "replay_result (pe_replay env) evs (Replay_init (engine_after env tr)) s ts"
    using replay_loop_returns [OF evs(1) _ pops] by blast
  then have "rs_published s = ticks_of evs" "rs_tick_count s = of_nat (length (ticks_of evs))"
    using run by (simp_all add: replay_result_def Replay_init_def)
  then show ?thesis
    using assms(1,2) s by (simp add: runFileReplay_def Let_def shutdown_def)
qed

text \<open>
  What the fill callback does. The fill is always published, and the result of \<^verbatim>\<open>pushFill\<close> is
  ignored: when the engine's fill queue is full, the callback returns as if nothing had happened, and the
  strategy will not hear of the fill.
\<close>

theorem fill_callback_ignores_full_queue:
  assumes ok: "queue_ok (se_fill_queue e)" and room: "0 < queue_room (se_fill_queue e)"
  shows "\<exists>e'. fill_callback fill (e, published) = Some (Inr (e', published @ [fill])) \<and>
    queue_content (se_fill_queue e') = queue_content (se_fill_queue e) @
      (if length (queue_content (se_fill_queue e)) < capacity (se_fill_queue e) then [fill] else [])"
proof (cases "length (queue_content (se_fill_queue e)) < capacity (se_fill_queue e)")
  case True
  obtain q where "try_push (se_fill_queue e) fill = Some (Inr (True, q))"
    and "queue_content q = queue_content (se_fill_queue e) @ [fill]"
    using mpmc.push_accepts [OF ok True room] by blast
  with True show ?thesis
    by (simp add: fill_callback_def pushFill_def on_queue_def)
next
  case False
  then have "length (queue_content (se_fill_queue e)) = capacity (se_fill_queue e)"
    using mpmc.within_cap [OF ok] by simp
  from mpmc.push_full [OF ok this, of fill] False show ?thesis
    by (simp add: fill_callback_def pushFill_def on_queue_def)
qed

section \<open>Concrete runs\<close>

definition example_env :: "replay_event list process_env" where
  "example_env =
     \<lparr>pe_mkdir = (\<lambda>d. True),
      pe_open_logs = (\<lambda>dir date. \<lparr>lf_tick = LogReader_init\<lparr>lr_mapped_data := Some []\<rparr>, lf_order = LogReader_init,
        lf_fill = LogReader_init\<rparr>),
      pe_streams = [], pe_add_stream = (\<lambda>l r. three_events), pe_replay = list_env (\<lambda>n. True),
      pe_library = (\<lambda>x e. e), pe_has_live = True, pe_md_created = (\<lambda>nm ex. True), pe_user_stream_started = True,
      pe_user_stream_running = True, pe_live_ends = True\<rparr>"

lemma example_capital: "\<exists>c. toDecimal (Fin 100000) = Inr c"
  using toDecimal_Fin(1) [of 100000] representable_of_int [of 100000] by simp

text \<open>A configuration with no strategies.\<close>

definition plain_config :: AppConfig where
  "plain_config = AppConfig_init\<lparr>ac_log_dir := ''logs'', ac_exchange_url := ''wss://host'', ac_exchange_api_key := ''k'',
     ac_exchange_api_secret := ''s''\<rparr>"

lemma plain_setup: "\<exists>c. setup_logging example_env plain_config = Inr
      [Create_directories ''./logs'', Log_initialize ''./logs'' (LogConfig_init\<lparr>lc_log_dir := ''./logs''\<rparr>)] \<and>
    setup_engine plain_config = Inr [Update_risk_parameters RiskParameters_init, Set_available_capital c]"
  using example_capital
  by (auto simp: setup_logging_def setup_engine_def plain_config_def AppConfig_init_def example_env_def Let_def)

theorem replay_run_complete_witness:
  "\<exists>tr s. runFileReplay example_env plain_config = Some (Inr ((0, tr), Some s)) \<and> rs_tick_count s = 2"
proof -
  obtain tr where tr: "replay_setup example_env plain_config = Inr tr"
    using plain_setup by (auto simp: replay_setup_def)
  have "\<exists>s. runFileReplay example_env plain_config = Some (Inr ((0, tr @ [Replay_ticks (ticks_of
      [Tick_event (Tick_init\<lparr>tick_symbol_id := 1\<rparr>), Order_event OrderRequest_init,
       Tick_event (Tick_init\<lparr>tick_symbol_id := 2\<rparr>)]), Stop_gateway, Stop_engine, Stop_bridge, Flush_log, Stop_log]), Some s)) \<and>
    rs_tick_count s = of_nat (length (ticks_of [Tick_event (Tick_init\<lparr>tick_symbol_id := 1\<rparr>),
      Order_event OrderRequest_init, Tick_event (Tick_init\<lparr>tick_symbol_id := 2\<rparr>)]))"
    by (rule replay_run_complete [OF _ tr])
      (use list_env_pops [of "\<lambda>n. True"] three_events_replays [of "\<lambda>n. True"]
        in \<open>simp_all add: example_env_def isOpen_def list_env_def\<close>)
  then show ?thesis by auto
qed

lemma example_env_simps:
  "pe_open_logs example_env dir date =
     \<lparr>lf_tick = LogReader_init\<lparr>lr_mapped_data := Some []\<rparr>, lf_order = LogReader_init, lf_fill = LogReader_init\<rparr>"
  "pe_streams example_env = []" "pe_add_stream example_env l r = three_events"
  "pe_replay example_env = list_env (\<lambda>n. True)" "pe_library example_env x e = e"
  by (simp_all add: example_env_def)

lemma example_replay:
  assumes "replay_setup example_env cfg = Inr tr"
  shows "\<exists>s. runFileReplay example_env cfg = Some (Inr ((0, tr @ Replay_ticks (rs_published s) # shutdown), Some s))"
proof -
  obtain s where "replay_loop (list_env (\<lambda>n. True)) three_events (Replay_init StrategyEngine_init) = Some (Inr s)"
    using replay_loop_returns [OF three_events_replays [of "\<lambda>n. True"] fresh_replay_ready list_env_pops]
    by (fastforce simp: stays_down_def list_env_def)
  moreover have "fold (pe_library example_env) xs e = e" for xs e
    by (induction xs) (simp_all add: example_env_simps)
  ultimately show ?thesis
    using assms by (simp add: runFileReplay_def engine_after_def example_env_simps isOpen_def)
qed


text \<open>A replay with one strategy that is switched off, one of another kind, and one grid.\<close>

definition grid_doc :: ynode where
  "grid_doc = Dict [(''strategies'', Sequence
     [Dict [(''name'', Scalar ''grid''), (''enabled'', Scalar ''false'')], Dict [(''name'', Scalar ''momentum'')],
      Dict [(''name'', Scalar ''grid'')]])]"

abbreviation grid_yaml :: "ynode yaml" where
  "grid_yaml \<equiv> example_yaml\<lparr>y_load := (\<lambda>p. Some grid_doc)\<rparr>"

definition grid_file_config :: AppConfig where
  "grid_file_config = AppConfig_init\<lparr>ac_log_dir := ''logs'', ac_config_path := ''grid.yaml'',
     ac_strategies := [StrategyCfg_init\<lparr>sc_type := ''momentum''\<rparr>, StrategyCfg_init\<lparr>sc_type := ''grid''\<rparr>]\<rparr>"

lemma grid_file_loads:
  "loadConfig grid_yaml example_getenv ''grid.yaml''
     (AppConfig_init\<lparr>ac_log_dir := ''logs'', ac_config_path := ''grid.yaml''\<rparr>) = Inr (True, grid_file_config)"
  by (simp add: loadConfig_def load_root_def when_defined_def example_yaml_def or_default_def grid_doc_def
      load_strategies_section_def load_strategy_def field_def grid_file_config_def AppConfig_init_def)

lemma default_grid_new: "\<exists>g. GridStrategy_new (grid_config (StrategyCfg_init\<lparr>sc_type := t\<rparr>)) = Inr g"
proof -
  have "case push_levels (Fin 95) (d_div (d_sub (Fin 105) (Fin 95)) (d_of_int 5)) [0..5] of Inr ls \<Rightarrow> True | Inl f \<Rightarrow> False"
    by code_simp
  then show ?thesis
    by (auto simp: GridStrategy_new_def grid_config_def StrategyCfg_init_def reserve_limit_def Let_def split: sum.splits)
qed

theorem main_registers_yaml_grids_witness:
  "\<exists>tr g. main example_env grid_yaml example_getenv (Flags_default\<lparr>FLAGS_replay := ''logs''\<rparr>) [''app'', ''grid.yaml''] =
      Some (Inr (0, tr)) \<and> filter is_register tr = [Register_strategy g]"
proof -
  let ?f = "Flags_default\<lparr>FLAGS_replay := ''logs''\<rparr>"
  let ?cfg = "AppConfig_init\<lparr>ac_log_dir := ''logs'', ac_config_path := ''grid.yaml''\<rparr>"
  have parse: "parseArgs ?f [''app'', ''grid.yaml''] AppConfig_init = (True, ?cfg)"
    by (simp add: parseArgs_def Flags_default_def AppConfig_init_def)
  obtain g where g: "GridStrategy_new (grid_config (StrategyCfg_init\<lparr>sc_type := ''grid''\<rparr>)) = Inr g"
    using default_grid_new by blast
  have "\<exists>tr. registerStrategies (ac_strategies grid_file_config) = Inr tr"
    using g by (simp add: grid_file_config_def grid_config_def)
  then obtain tr where tr: "replay_setup example_env grid_file_config = Inr tr"
    using example_capital
    by (auto simp: replay_setup_def setup_logging_def setup_engine_def grid_file_config_def AppConfig_init_def
        example_env_def Let_def)
  obtain s where "runFileReplay example_env grid_file_config = Some (Inr ((0, tr @ Replay_ticks (rs_published s) # shutdown), Some s))"
    using example_replay [OF tr] by blast
  then have run: "main example_env grid_yaml example_getenv ?f [''app'', ''grid.yaml''] =
      Some (Inr (0, Install_handlers # tr @ Replay_ticks (rs_published s) # shutdown))"
    using parse grid_file_loads by (simp add: main_def main_loaded_def grid_file_config_def AppConfig_init_def)
  let ?momentum = "Dict [(''name'', Scalar ''momentum'')]" and ?grid = "Dict [(''name'', Scalar ''grid'')]"
  let ?v = "Sequence [Dict [(''name'', Scalar ''grid''), (''enabled'', Scalar ''false'')], ?momentum, ?grid]"
  have v: "y_get grid_yaml grid_doc ''strategies'' = Inr ?v" "y_defined grid_yaml ?v" "y_is_seq grid_yaml ?v"
      "y_load grid_yaml path = Some grid_doc" for path
    by (simp_all add: grid_doc_def example_yaml_def or_default_def)
  have on: "filter (enabled grid_yaml) (y_elems grid_yaml ?v) = [?momentum, ?grid]"
    by (simp add: example_yaml_def enabled_def or_default_def)
  obtain scs gs where
    entries: "list_all2 (\<lambda>s sc. load_strategy grid_yaml s = Inr sc) [?momentum, ?grid] scs"
    and built: "map Inr gs = map (\<lambda>sc. GridStrategy_new (grid_config sc)) (filter is_grid scs)"
    and reg: "filter is_register (Install_handlers # tr @ Replay_ticks (rs_published s) # shutdown) = map Register_strategy gs"
    using main_registers_yaml_grids [OF run v(4,1-3)] unfolding on by blast
  have "scs = [StrategyCfg_init\<lparr>sc_type := ''momentum''\<rparr>, StrategyCfg_init\<lparr>sc_type := ''grid''\<rparr>]"
    using entries by (auto simp: list_all2_Cons1 load_strategy_def field_def when_defined_def example_yaml_def or_default_def)
  with built g have "gs = [g]"
    by (auto simp: is_grid_def)
  with run reg show ?thesis by auto
qed

theorem live_execution_mode_witness:
  "\<exists>tr. runLive example_env plain_config = Some (Inr (0, tr)) \<and> Set_http_client \<in> set tr"
proof -
  have cfg: "exc_websocket_url (live_exchange plain_config) \<noteq> []" "useRealExecution plain_config"
    by (simp_all add: live_exchange_def plain_config_def useRealExecution_def AppConfig_init_def)
  have "\<exists>tr. runLive example_env plain_config = Some (Inr (0, tr))"
    using plain_setup cfg(1) by (auto simp: runLive_def example_env_def)
  then obtain tr where "runLive example_env plain_config = Some (Inr (0, tr))" ..
  with live_execution_mode [OF this] cfg(2) show ?thesis by blast
qed

theorem fill_callback_ignores_full_queue_witness:
  "\<exists>e'. fill_callback Fill_init (StrategyEngine_init, []) = Some (Inr (e', [Fill_init]))"
proof -
  have "se_fill_queue StrategyEngine_init = MPMCQueue_new engine_queue_size Fill_init"
    by (simp add: StrategyEngine_init_def)
  then have "queue_ok (se_fill_queue StrategyEngine_init)" "0 < queue_room (se_fill_queue StrategyEngine_init)"
    using queue_ok_new(1) [OF engine_queue_good, of Fill_init] new_room [OF engine_queue_good, of Fill_init] by auto
  from fill_callback_ignores_full_queue [OF this, of Fill_init "[]"] show ?thesis by auto
qed

end
