(* ===== verification/Live_Threads.thy ===== *)
theory Live_Threads
  imports Pipeline "HOL-Library.Sublist"
begin

text \<open>
  The running phase of the live mode, \<^verbatim>\<open>runLive\<close> of \<^verbatim>\<open>src/main.cpp\<close>: the market data gateway fills a queue,
  the thread \<^verbatim>\<open>md_bridge\<close> moves its ticks into the engine, the publisher and the log, the main thread waits
  for \<^verbatim>\<open>g_running\<close> to become false and shuts everything down, and the signal handler sets \<^verbatim>\<open>g_running\<close> at
  any time. One transition is one access of one thread. The queue between gateway and bridge is the
  bounded FIFO that \<^verbatim>\<open>Mpmc_Concurrent\<close> shows it to be, whose \<^verbatim>\<open>try_pop\<close> may also report empty without reason;
  the queue of the engine, which the engine's thread empties until it is stopped, is another, whose \<^verbatim>\<open>try_push\<close>
  may also report full without reason, and whose answer the bridge does not look at. The threads of the order
  gateway and of the user stream call the fill callback until they are stopped; that their \<^verbatim>\<open>stop\<close> waits for a
  callback under way is assumed of the library.
\<close>

section \<open>The threads\<close>

datatype bridge =
    B_outer             \<comment> \<open>about to load \<^verbatim>\<open>g_running\<close>\<close>
  | B_pop               \<comment> \<open>about to call \<^verbatim>\<open>try_pop\<close>\<close>
  | B_push Tick
  | B_publish Tick
  | B_log Tick
  | B_sleep
  | B_done

datatype main_thread =
    M_loop              \<comment> \<open>about to load \<^verbatim>\<open>g_running\<close>\<close>
  | M_join
  | M_stopping "effect list"
  | M_done

datatype live_event =
    Push_tick Tick | Publish_tick Tick | Log_tick Tick | Push_fill Fill | Publish_fill Fill | Did effect

text \<open>
  A thread that delivers fills, outside the fill callback or between its two calls; the order gateway's I/O
  thread and the read thread of the user stream are such threads.
\<close>

datatype filler = F_idle | F_publish Fill

text \<open>
  The atomics in which the bridge leaves the latest tick for the main thread, and what the two threads
  print: the bridge every fiftieth tick, the main thread the latest one every two seconds.
\<close>

record latest =
  lt_count :: u32
  lt_price :: Double
  lt_qty :: Double
  lt_side :: u8
  lt_ts :: u64

definition latest_init :: latest where
  "latest_init = \<lparr>lt_count = 0, lt_price = Fin 0, lt_qty = Fin 0, lt_side = 0, lt_ts = 0\<rparr>"

definition note_tick :: "Tick \<Rightarrow> latest \<Rightarrow> latest" where
  "note_tick t l =
     \<lparr>lt_count = lt_count l + 1, lt_price = toDouble (tick_price t), lt_qty = toDouble (tick_quantity t),
      lt_side = TickSide_value (tick_side t), lt_ts = tick_exchange_timestamp_us t\<rparr>"

definition tick_line :: "Tick \<Rightarrow> latest \<Rightarrow> (u32 \<times> Double \<times> Double \<times> string \<times> u32) option" where
  "tick_line t l =
     (let cnt = lt_count l + 1 in
      if cnt mod 50 = 0 then Some (cnt, toDouble (tick_price t), toDouble (tick_quantity t),
        if tick_side t = BID then ''BID'' else ''ASK'', tick_symbol_id t) else None)"

definition latest_line :: "latest \<Rightarrow> (Double \<times> Double \<times> string) option" where
  "latest_line l =
     (if d_less (Fin 0) (lt_price l) then Some (lt_price l, lt_qty l, if lt_side l = 0 then ''BID'' else ''ASK'') else None)"

record live =
  lv_running :: bool
  lv_md_active :: bool
  lv_queue :: "Tick list"
  lv_engine_active :: bool
  lv_engine_queue :: "Tick list"
  lv_latest :: latest
  lv_bridge :: bridge
  lv_main :: main_thread
  lv_gateway :: filler
  lv_user_stream :: filler
  lv_trace :: "live_event list"     \<comment> \<open>ghost: what the threads have asked of the components\<close>
  lv_received :: "Tick list"        \<comment> \<open>ghost: what the gateway has put into the queue\<close>
  lv_taken :: "Tick list"           \<comment> \<open>ghost: what the engine's thread has taken out of its queue\<close>

definition live_init :: live where
  "live_init =
     \<lparr>lv_running = True, lv_md_active = True, lv_queue = [], lv_engine_active = True, lv_engine_queue = [],
      lv_latest = latest_init, lv_bridge = B_outer, lv_main = M_loop, lv_gateway = F_idle, lv_user_stream = F_idle, lv_trace = [], lv_received = [], lv_taken = []\<rparr>"

definition md_queue_size :: nat where
  "md_queue_size = 65536"

definition handleSignal :: "live \<Rightarrow> live" where
  "handleSignal s = s\<lparr>lv_running := False\<rparr>"

definition emit :: "live_event \<Rightarrow> live \<Rightarrow> live" where
  "emit ev s = s\<lparr>lv_trace := lv_trace s @ [ev]\<rparr>"

text \<open>The gateway's thread, the engine's, and the bridge. The log is written to if it is running.\<close>

inductive md_step :: "live \<Rightarrow> live \<Rightarrow> bool" where
  md_push: "lv_md_active s \<Longrightarrow> length (lv_queue s) < md_queue_size \<Longrightarrow>
    md_step s (s\<lparr>lv_queue := lv_queue s @ [t], lv_received := lv_received s @ [t]\<rparr>)"

inductive engine_step :: "live \<Rightarrow> live \<Rightarrow> bool" where
  e_pop: "lv_engine_active s \<Longrightarrow> lv_engine_queue s = t # ts \<Longrightarrow>
    engine_step s (s\<lparr>lv_engine_queue := ts, lv_taken := lv_taken s @ [t]\<rparr>)"

inductive bridge_step :: "live \<Rightarrow> live \<Rightarrow> bool" where
  b_enter: "lv_bridge s = B_outer \<Longrightarrow> lv_running s \<Longrightarrow> bridge_step s (s\<lparr>lv_bridge := B_pop\<rparr>)"
| b_exit: "lv_bridge s = B_outer \<Longrightarrow> \<not> lv_running s \<Longrightarrow> bridge_step s (s\<lparr>lv_bridge := B_done\<rparr>)"
| b_pop: "lv_bridge s = B_pop \<Longrightarrow> lv_queue s = t # ts \<Longrightarrow> 
    bridge_step s (s\<lparr>lv_bridge := B_push t, lv_queue := ts, lv_latest := note_tick t (lv_latest s)\<rparr>)"
| b_empty: "lv_bridge s = B_pop \<Longrightarrow> bridge_step s (s\<lparr>lv_bridge := B_sleep\<rparr>)"
| b_push: "lv_bridge s = B_push t \<Longrightarrow> length (lv_engine_queue s) < engine_queue_size \<Longrightarrow>
    bridge_step s (emit (Push_tick t) (s\<lparr>lv_bridge := B_publish t, lv_engine_queue := lv_engine_queue s @ [t]\<rparr>))"
| b_push_full: "lv_bridge s = B_push t \<Longrightarrow> bridge_step s (emit (Push_tick t) (s\<lparr>lv_bridge := B_publish t\<rparr>))"
| b_publish: "lv_bridge s = B_publish t \<Longrightarrow> bridge_step s (emit (Publish_tick t) (s\<lparr>lv_bridge := B_log t\<rparr>))"
| b_log: "lv_bridge s = B_log t \<Longrightarrow> bridge_step s (emit (Log_tick t) (s\<lparr>lv_bridge := B_pop\<rparr>))"
| b_no_log: "lv_bridge s = B_log t \<Longrightarrow> bridge_step s (s\<lparr>lv_bridge := B_pop\<rparr>)"
| b_wake: "lv_bridge s = B_sleep \<Longrightarrow> bridge_step s (s\<lparr>lv_bridge := B_outer\<rparr>)"

text \<open>
  What the main thread has still to stop, of the list \<open>stops\<close> of what it does after the bridge has ended. A
  thread delivers fills until it is stopped, and stopping it waits for the callback it is in.
\<close>

fun to_stop :: "effect list \<Rightarrow> main_thread \<Rightarrow> effect list" where
  "to_stop stops (M_stopping xs) = xs"
| "to_stop stops M_done = []"
| "to_stop stops _ = stops"

inductive fill_begin :: "effect list \<Rightarrow> live \<Rightarrow> live \<Rightarrow> bool" for stops where
  gateway_fill: "Stop_gateway \<in> set (to_stop stops (lv_main s)) \<Longrightarrow> lv_gateway s = F_idle \<Longrightarrow>
    fill_begin stops s (emit (Push_fill f) (s\<lparr>lv_gateway := F_publish f\<rparr>))"
| user_fill: "Stop_user_stream \<in> set (to_stop stops (lv_main s)) \<Longrightarrow> lv_user_stream s = F_idle \<Longrightarrow>
    fill_begin stops s (emit (Push_fill f) (s\<lparr>lv_user_stream := F_publish f\<rparr>))"

inductive fill_end :: "live \<Rightarrow> live \<Rightarrow> bool" where
  gateway_publish: "lv_gateway s = F_publish f \<Longrightarrow> fill_end s (emit (Publish_fill f) (s\<lparr>lv_gateway := F_idle\<rparr>))"
| user_publish: "lv_user_stream s = F_publish f \<Longrightarrow> fill_end s (emit (Publish_fill f) (s\<lparr>lv_user_stream := F_idle\<rparr>))"

text \<open>The main thread.\<close>

inductive main_step :: "effect list \<Rightarrow> live \<Rightarrow> live \<Rightarrow> bool" for stops where
  m_leave: "lv_main s = M_loop \<Longrightarrow> \<not> lv_running s \<Longrightarrow> main_step stops s (s\<lparr>lv_main := M_join, lv_running := False\<rparr>)"
| m_join: "lv_main s = M_join \<Longrightarrow> lv_bridge s = B_done \<Longrightarrow> main_step stops s (s\<lparr>lv_main := M_stopping stops\<rparr>)"
| m_stop: "lv_main s = M_stopping (x # xs) \<Longrightarrow> x = Stop_gateway \<longrightarrow> lv_gateway s = F_idle \<Longrightarrow>
    x = Stop_user_stream \<longrightarrow> lv_user_stream s = F_idle \<Longrightarrow>
    main_step stops s (emit (Did x) (s\<lparr>lv_main := M_stopping xs, lv_md_active := (lv_md_active s \<and> x \<noteq> Stop_md),
      lv_engine_active := (lv_engine_active s \<and> x \<noteq> Stop_engine)\<rparr>))"
| m_return: "lv_main s = M_stopping [] \<Longrightarrow> main_step stops s (s\<lparr>lv_main := M_done\<rparr>)"

inductive live_step :: "effect list \<Rightarrow> live \<Rightarrow> live \<Rightarrow> bool" for stops where
  signal: "live_step stops s (handleSignal s)"
| md: "md_step s s' \<Longrightarrow> live_step stops s s'"
| engine: "engine_step s s' \<Longrightarrow> live_step stops s s'"
| bridge: "bridge_step s s' \<Longrightarrow> live_step stops s s'"
| fill_begin: "fill_begin stops s s' \<Longrightarrow> live_step stops s s'"
| fill_end: "fill_end s s' \<Longrightarrow> live_step stops s s'"
| main_thread: "main_step stops s s' \<Longrightarrow> live_step stops s s'"

inductive live_reachable :: "effect list \<Rightarrow> live \<Rightarrow> bool" for stops where
  start: "live_reachable stops live_init"
| step: "live_reachable stops s \<Longrightarrow> live_step stops s s' \<Longrightarrow> live_reachable stops s'"

inductive_cases md_stepE: "md_step s s'"
inductive_cases engine_stepE: "engine_step s s'"
inductive_cases fill_beginE: "fill_begin stops s s'"
inductive_cases fill_endE: "fill_end s s'"
inductive_cases bridge_stepE: "bridge_step s s'"
inductive_cases main_stepE: "main_step stops s s'"

section \<open>The invariant\<close>

text \<open>Which stop makes an event impossible, and that none has come before it.\<close>

fun stop_of :: "live_event \<Rightarrow> effect option" where
  "stop_of (Push_tick t) = Some Stop_engine"
| "stop_of (Publish_tick t) = Some Stop_bridge"
| "stop_of (Log_tick t) = Some Stop_log"
| "stop_of (Push_fill f) = Some Stop_engine"
| "stop_of (Publish_fill f) = Some Stop_bridge"
| "stop_of (Did x) = None"

definition usable :: "live_event list \<Rightarrow> live_event \<Rightarrow> bool" where
  "usable tr e \<longleftrightarrow> (case stop_of e of None \<Rightarrow> True | Some x \<Rightarrow> Did x \<notin> set tr)"

definition uses_ok :: "live_event list \<Rightarrow> bool" where
  "uses_ok tr \<longleftrightarrow> (\<forall>i < length tr. usable (take i tr) (tr ! i))"

lemma uses_ok_snoc [simp]: "uses_ok (tr @ [e]) \<longleftrightarrow> uses_ok tr \<and> usable tr e"
  by (auto simp: uses_ok_def nth_append less_Suc_eq)

lemma usable_Did [simp]: "usable tr (Did x)"
  by (simp add: usable_def)

fun stops_of :: "live_event list \<Rightarrow> effect list" where
  "stops_of [] = []"
| "stops_of (Did x # es) = x # stops_of es"
| "stops_of (_ # es) = stops_of es"

lemma stops_of_append [simp]: "stops_of (xs @ ys) = stops_of xs @ stops_of ys"
  by (induction xs rule: stops_of.induct) simp_all

lemma stops_of_iff [simp]: "Did x \<in> set tr \<longleftrightarrow> x \<in> set (stops_of tr)"
  by (induction tr rule: stops_of.induct) auto

text \<open>The engine and the publisher are stopped after the threads that deliver fills.\<close>

definition fillers_first :: "effect list \<Rightarrow> bool" where
  "fillers_first stops \<longleftrightarrow> (\<forall>ys zs. stops = ys @ zs \<longrightarrow> Stop_gateway \<in> set zs \<or> Stop_user_stream \<in> set zs \<longrightarrow>
     Stop_engine \<notin> set ys \<and> Stop_bridge \<notin> set ys)"

lemma live_stop_fillers_first: "fillers_first (live_stop env cfg)"
  by (auto simp: fillers_first_def live_stop_def shutdown_def Cons_eq_append_conv split: if_splits)

fun pushed_of :: "live_event list \<Rightarrow> Tick list" where
  "pushed_of [] = []"
| "pushed_of (Push_tick t # es) = t # pushed_of es"
| "pushed_of (_ # es) = pushed_of es"

fun published_of :: "live_event list \<Rightarrow> Tick list" where
  "published_of [] = []"
| "published_of (Publish_tick t # es) = t # published_of es"
| "published_of (_ # es) = published_of es"

lemma pushed_of_append [simp]: "pushed_of (xs @ ys) = pushed_of xs @ pushed_of ys"
  by (induction xs rule: pushed_of.induct) simp_all

lemma published_of_append [simp]: "published_of (xs @ ys) = published_of xs @ published_of ys"
  by (induction xs rule: published_of.induct) simp_all

text \<open>The tick a bridge has in hand, before the engine has it and before the publisher has it.\<close>

fun unpushed :: "bridge \<Rightarrow> Tick list" where
  "unpushed (B_push t) = [t]"
| "unpushed _ = []"

fun unpublished :: "bridge \<Rightarrow> Tick list" where
  "unpublished (B_publish t) = [t]"
| "unpublished _ = []"

definition live_ok :: "effect list \<Rightarrow> live \<Rightarrow> bool" where
  "live_ok stops s \<longleftrightarrow>
     stops = stops_of (lv_trace s) @ to_stop stops (lv_main s) \<and>
     (fillers_first stops \<longrightarrow> uses_ok (lv_trace s)) \<and>
     (lv_gateway s \<noteq> F_idle \<longrightarrow> Stop_gateway \<in> set (to_stop stops (lv_main s))) \<and>
     (lv_user_stream s \<noteq> F_idle \<longrightarrow> Stop_user_stream \<in> set (to_stop stops (lv_main s))) \<and>
     (lv_bridge s = B_done \<longrightarrow> \<not> lv_running s) \<and>
     (lv_main s \<noteq> M_loop \<longrightarrow> \<not> lv_running s) \<and>
     (lv_main s \<notin> {M_loop, M_join} \<longrightarrow> lv_bridge s = B_done)"

lemma live_ok_init: "live_ok stops live_init"
  by (simp add: live_ok_def live_init_def uses_ok_def)

text \<open>While the bridge works, the main thread has stopped nothing.\<close>

lemma usable_before_stops: "stops_of tr = [] \<Longrightarrow> usable tr e"
  by (simp add: usable_def split: option.split)

lemma live_ok_bridge:
  assumes ok: "live_ok stops s" and step: "bridge_step s s'"
  shows "live_ok stops s'"
proof -
  have "lv_bridge s \<noteq> B_done" using step by (auto elim: bridge_stepE)
  then have m: "lv_main s = M_loop \<or> lv_main s = M_join"
    using ok by (auto simp: live_ok_def)
  then have none: "stops_of (lv_trace s) = []"
    using ok by (auto simp: live_ok_def)
  show ?thesis
    using step
  proof cases
    case b_exit
    then show ?thesis using ok m by (auto simp: live_ok_def)
  qed (use ok m none in \<open>auto simp: live_ok_def emit_def usable_before_stops\<close>)
qed

text \<open>A fill is delivered while the thread that delivers it has still to be stopped.\<close>

lemma fill_usable:
  assumes "live_ok stops s"
    and "Stop_gateway \<in> set (to_stop stops (lv_main s)) \<or> Stop_user_stream \<in> set (to_stop stops (lv_main s))"
  shows "fillers_first stops \<longrightarrow> usable (lv_trace s) (Push_fill f) \<and> usable (lv_trace s) (Publish_fill f)"
  using assms unfolding live_ok_def fillers_first_def usable_def by auto

lemma live_ok_fill_begin:
  assumes ok: "live_ok stops s" and step: "fill_begin stops s s'"
  shows "live_ok stops s'"
  using step
proof cases
  case (gateway_fill f)
  with ok fill_usable [OF ok, of f] show ?thesis by (simp add: live_ok_def emit_def)
next
  case (user_fill f)
  with ok fill_usable [OF ok, of f] show ?thesis by (simp add: live_ok_def emit_def)
qed

lemma live_ok_fill_end:
  assumes ok: "live_ok stops s" and step: "fill_end s s'"
  shows "live_ok stops s'"
  using step
proof cases
  case (gateway_publish f)
  with ok fill_usable [OF ok, of f] show ?thesis by (simp add: live_ok_def emit_def)
next
  case (user_publish f)
  with ok fill_usable [OF ok, of f] show ?thesis by (simp add: live_ok_def emit_def)
qed

lemma live_ok_main:
  assumes ok: "live_ok stops s" and step: "main_step stops s s'"
  shows "live_ok stops s'"
  using step
proof cases
  case m_leave
  with ok show ?thesis by (simp add: live_ok_def)
next
  case m_join
  with ok show ?thesis by (simp add: live_ok_def)
next
  case (m_stop x xs)
  with ok show ?thesis unfolding live_ok_def emit_def by (simp; blast)
next
  case m_return
  with ok show ?thesis by (simp add: live_ok_def)
qed

lemma live_ok_same:
  assumes "live_ok stops s" and "lv_trace s' = lv_trace s" "lv_main s' = lv_main s" "lv_bridge s' = lv_bridge s"
    and "lv_gateway s' = lv_gateway s" "lv_user_stream s' = lv_user_stream s" "lv_running s' \<longrightarrow> lv_running s"
  shows "live_ok stops s'"
  using assms unfolding live_ok_def by metis

lemma live_ok_step:
  assumes "live_ok stops s" and "live_step stops s s'"
  shows "live_ok stops s'"
  using assms(2)
proof cases
  case signal
  show ?thesis by (rule live_ok_same [OF assms(1)]) (simp_all add: signal handleSignal_def)
next
  case md
  then show ?thesis by (rule md_stepE) (rule live_ok_same [OF assms(1)], simp_all)
next
  case engine
  then show ?thesis by (rule engine_stepE) (rule live_ok_same [OF assms(1)], simp_all)
qed (use assms(1) live_ok_bridge live_ok_main live_ok_fill_begin live_ok_fill_end in blast)+

lemma live_reachable_ok: "live_reachable stops s \<Longrightarrow> live_ok stops s"
  by (induction rule: live_reachable.induct) (auto intro: live_ok_init live_ok_step)

text \<open>The ticks on their way.\<close>

definition ticks_ok :: "live \<Rightarrow> bool" where
  "ticks_ok s \<longleftrightarrow>
     lv_received s = pushed_of (lv_trace s) @ unpushed (lv_bridge s) @ lv_queue s \<and>
     pushed_of (lv_trace s) = published_of (lv_trace s) @ unpublished (lv_bridge s) \<and>
     lv_latest s = fold note_tick (pushed_of (lv_trace s) @ unpushed (lv_bridge s)) latest_init"

lemma ticks_ok_bridge: "ticks_ok s \<Longrightarrow> bridge_step s s' \<Longrightarrow> ticks_ok s'"
  by (erule bridge_stepE) (simp_all add: ticks_ok_def emit_def)

lemma ticks_ok_step: "ticks_ok s \<Longrightarrow> live_step stops s s' \<Longrightarrow> ticks_ok s'"
  by (auto simp: emit_def handleSignal_def intro: ticks_ok_bridge
      elim!: live_step.cases md_stepE engine_stepE fill_beginE fill_endE main_stepE)
    (simp_all add: ticks_ok_def)

lemma live_reachable_ticks: "live_reachable stops s \<Longrightarrow> ticks_ok s"
proof (induction rule: live_reachable.induct)
  case start
  show ?case by (simp add: ticks_ok_def live_init_def)
qed (rule ticks_ok_step)

text \<open>What the engine's thread receives.\<close>

definition engine_fed :: "live \<Rightarrow> bool" where
  "engine_fed s \<longleftrightarrow> subseq (lv_taken s @ lv_engine_queue s) (pushed_of (lv_trace s)) \<and>
     length (lv_engine_queue s) \<le> engine_queue_size"

lemma subseq_accept: "subseq (xs @ ys) zs \<Longrightarrow> subseq (xs @ ys @ [t]) (zs @ [t])"
  using list_emb_append_mono [of "(=)" "xs @ ys" zs "[t]" "[t]"] by simp

lemma subseq_drop: "subseq xs zs \<Longrightarrow> subseq xs (zs @ [t])"
  by (rule subseq_rev_drop_many)

lemma engine_fed_step: "engine_fed s \<Longrightarrow> live_step stops s s' \<Longrightarrow> engine_fed s'"
  by (auto simp: engine_fed_def emit_def handleSignal_def subseq_accept subseq_drop
      elim!: live_step.cases md_stepE engine_stepE fill_beginE fill_endE bridge_stepE main_stepE)

lemma live_reachable_fed: "live_reachable stops s \<Longrightarrow> engine_fed s"
proof (induction rule: live_reachable.induct)
  case start
  show ?case by (simp add: engine_fed_def live_init_def)
qed (rule engine_fed_step)

section \<open>Properties\<close>



text \<open>How much the bridge and the main thread have left to do once \<^verbatim>\<open>g_running\<close> is false.\<close>

fun bridge_work :: "bridge \<Rightarrow> nat" where
  "bridge_work B_done = 0"
| "bridge_work B_outer = 1"
| "bridge_work B_sleep = 2"
| "bridge_work B_pop = 3"
| "bridge_work (B_log t) = 4"
| "bridge_work (B_publish t) = 5"
| "bridge_work (B_push t) = 6"

fun main_work :: "effect list \<Rightarrow> main_thread \<Rightarrow> nat" where
  "main_work stops M_loop = length stops + 3"
| "main_work stops M_join = length stops + 2"
| "main_work stops (M_stopping xs) = length xs + 1"
| "main_work stops M_done = 0"

fun filler_work :: "filler \<Rightarrow> nat" where
  "filler_work F_idle = 0"
| "filler_work (F_publish f) = 1"

definition live_work :: "effect list \<Rightarrow> live \<Rightarrow> nat" where
  "live_work stops s = 4 * length (lv_queue s) + bridge_work (lv_bridge s) + main_work stops (lv_main s) +
     filler_work (lv_gateway s) + filler_work (lv_user_stream s)"

text \<open>The steps the shutdown consists of: those of the two threads, and the end of a fill callback.\<close>

definition finish_step :: "effect list \<Rightarrow> live \<Rightarrow> live \<Rightarrow> bool" where
  "finish_step stops s s' \<longleftrightarrow> bridge_step s s' \<or> fill_end s s' \<or> main_step stops s s'"

lemma finish_step_possible:
  assumes "live_ok stops s" and down: "\<not> lv_running s" and "lv_main s \<noteq> M_done"
  shows "\<exists>s'. finish_step stops s s'"
proof (cases "lv_main s")
  case M_loop
  then show ?thesis
    unfolding finish_step_def using main_step.m_leave [OF _ down] by blast
next
  case M_join
  then show ?thesis
  proof (cases "lv_bridge s")
    case B_outer
    then show ?thesis
      unfolding finish_step_def using bridge_step.b_exit [OF _ down] by blast
  qed (unfold finish_step_def, (blast intro: bridge_step.intros main_step.intros)+)
next
  case (M_stopping xs)
  show ?thesis
  proof (cases "lv_gateway s = F_idle \<and> lv_user_stream s = F_idle")
    case True
    then show ?thesis
      unfolding finish_step_def using M_stopping by (cases xs) (blast intro: main_step.intros)+
  next
    case False
    then show ?thesis
      unfolding finish_step_def by (cases "lv_gateway s"; cases "lv_user_stream s") (blast intro: fill_end.intros)+
  qed
qed (use assms in simp)

lemma finish_step_work:
  assumes "finish_step stops s s'" and "\<not> lv_running s"
  shows "live_work stops s' < live_work stops s" and "\<not> lv_running s'"
  using assms by (auto simp: finish_step_def live_work_def emit_def elim!: bridge_stepE fill_endE main_stepE)

lemma finish_step_ok: "live_ok stops s \<Longrightarrow> finish_step stops s s' \<Longrightarrow> live_ok stops s'"
  by (auto simp: finish_step_def intro: live_ok_bridge live_ok_fill_end live_ok_main)

lemma finish_returns:
  "live_ok stops s \<Longrightarrow> \<not> lv_running s \<Longrightarrow> \<exists>s'. rtranclp (finish_step stops) s s' \<and> lv_main s' = M_done"
proof (induction "live_work stops s" arbitrary: s rule: less_induct)
  case less
  show ?case
  proof (cases "lv_main s = M_done")
    case False
    then obtain s' where s': "finish_step stops s s'"
      using finish_step_possible [OF less.prems] by blast
    with less.hyps [OF finish_step_work(1) [OF s' less.prems(2)] finish_step_ok [OF less.prems(1) s']
        finish_step_work(2) [OF s' less.prems(2)]]
    show ?thesis by (meson converse_rtranclp_into_rtranclp)
  qed blast
qed


text \<open>The signal finds the bridge inside its inner loop, and the main thread waits for it.\<close>

definition joining :: live where
  "joining = live_init\<lparr>lv_running := False, lv_bridge := B_pop, lv_main := M_join\<rparr>"

lemma joining_reachable: "live_reachable stops joining"
proof -
  let ?s1 = "live_init\<lparr>lv_bridge := B_pop\<rparr>"
  have "live_step stops live_init ?s1"
    by (intro live_step.bridge bridge_step.b_enter) (simp_all add: live_init_def)
  moreover have "live_step stops ?s1 (handleSignal ?s1)"
    by (rule live_step.signal)
  moreover have "live_step stops (handleSignal ?s1) ((handleSignal ?s1)\<lparr>lv_main := M_join, lv_running := False\<rparr>)"
    by (intro live_step.main_thread main_step.m_leave) (simp_all add: live_init_def handleSignal_def)
  moreover have "(handleSignal ?s1)\<lparr>lv_main := M_join, lv_running := False\<rparr> = joining"
    by (simp add: joining_def handleSignal_def live_init_def)
  ultimately show ?thesis
    by (metis live_reachable.intros)
qed

definition busy :: "Tick list \<Rightarrow> live" where
  "busy ts = joining\<lparr>lv_latest := fold note_tick ts latest_init, lv_received := ts, lv_taken := ts, lv_trace := concat (map (\<lambda>t. [Push_tick t, Publish_tick t, Log_tick t]) ts)\<rparr>"

lemma six_steps: "r a b \<Longrightarrow> r b c \<Longrightarrow> r c d \<Longrightarrow> r d e \<Longrightarrow> r e f \<Longrightarrow> r f g \<Longrightarrow> rtranclp r a g"
  by (meson converse_rtranclp_into_rtranclp r_into_rtranclp)

lemma busy_step: "rtranclp (live_step stops) (busy ts) (busy (ts @ [t]))"
proof -
  let ?s1 = "(busy ts)\<lparr>lv_queue := lv_queue (busy ts) @ [t], lv_received := lv_received (busy ts) @ [t]\<rparr>"
  let ?s2 = "?s1\<lparr>lv_bridge := B_push t, lv_queue := [], lv_latest := note_tick t (lv_latest ?s1)\<rparr>"
  let ?s3 = "emit (Push_tick t) (?s2\<lparr>lv_bridge := B_publish t, lv_engine_queue := lv_engine_queue ?s2 @ [t]\<rparr>)"
  let ?s4 = "?s3\<lparr>lv_engine_queue := [], lv_taken := lv_taken ?s3 @ [t]\<rparr>"
  let ?s5 = "emit (Publish_tick t) (?s4\<lparr>lv_bridge := B_log t\<rparr>)"
  let ?s6 = "emit (Log_tick t) (?s5\<lparr>lv_bridge := B_pop\<rparr>)"
  have 1: "live_step stops (busy ts) ?s1"
    by (intro live_step.md md_step.md_push) (simp_all add: busy_def joining_def live_init_def md_queue_size_def)
  have 2: "live_step stops ?s1 ?s2"
    by (intro live_step.bridge bridge_step.b_pop) (simp_all add: busy_def joining_def live_init_def)
  have 3: "live_step stops ?s2 ?s3"
    by (intro live_step.bridge bridge_step.b_push) (simp_all add: busy_def joining_def live_init_def engine_queue_size_def)
  have 4: "live_step stops ?s3 ?s4"
    by (intro live_step.engine engine_step.e_pop) (simp_all add: busy_def joining_def live_init_def emit_def)
  have 5: "live_step stops ?s4 ?s5"
    by (intro live_step.bridge bridge_step.b_publish) (simp add: emit_def)
  have 6: "live_step stops ?s5 ?s6"
    by (intro live_step.bridge bridge_step.b_log) (simp add: emit_def)
  have 7: "?s6 = busy (ts @ [t])"
    by (simp add: busy_def joining_def live_init_def emit_def)
  have "rtranclp (live_step stops) (busy ts) ?s6"
    by (rule six_steps [where r = "live_step stops", OF 1 2 3 4 5 6])
  then show ?thesis unfolding 7 .
qed

text \<open>
  Property C34: shutdown can be kept waiting for ever. The inner loop of the bridge does not look at
  \<^verbatim>\<open>g_running\<close>, and the main thread stops the gateway only after it has joined the bridge. From the state in
  which it joins, with nothing pushed yet, the gateway can deliver any list of ticks, all of which the
  bridge handles and the engine takes, while the main thread is still waiting.
\<close>

theorem live_shutdown_can_hang:
  "\<exists>s. live_reachable stops s \<and> \<not> lv_running s \<and> lv_main s = M_join \<and> lv_trace s = [] \<and>
     (\<exists>s'. rtranclp (live_step stops) s s' \<and> lv_main s' = M_join \<and> lv_bridge s' = B_pop \<and> pushed_of (lv_trace s') = ts \<and>
        lv_taken s' = ts)"
proof -
  have "rtranclp (live_step stops) (busy []) (busy ts)"
    by (induction ts rule: rev_induct) (auto intro: rtranclp_trans busy_step)
  moreover have "busy [] = joining"
    by (simp add: busy_def joining_def live_init_def)
  moreover have "pushed_of (lv_trace (busy ts)) = ts"
    by (induction ts) (simp_all add: busy_def)
  moreover have "lv_main (busy ts) = M_join" "lv_bridge (busy ts) = B_pop" "lv_taken (busy ts) = ts"
    by (simp_all add: busy_def joining_def)
  ultimately show ?thesis
    using joining_reachable by (intro exI [of _ joining]) (auto simp: joining_def live_init_def)
qed

section \<open>A concrete run\<close>

lemma busy_reachable: "live_reachable stops (busy ts)"
proof -
  have "rtranclp (live_step stops) (busy []) (busy ts)"
    by (induction ts rule: rev_induct) (auto intro: rtranclp_trans busy_step)
  moreover have "live_reachable stops (busy [])"
    using joining_reachable [of stops] by (simp add: busy_def joining_def live_init_def)
  ultimately show ?thesis
    by (induction rule: rtranclp_induct) (auto intro: live_reachable.step)
qed

text \<open>The gateway delivers a fill while the main thread joins the bridge.\<close>

definition filling :: live where
  "filling = emit (Publish_fill Fill_init) (emit (Push_fill Fill_init) joining)"

lemma filling_reachable:
  assumes "Stop_gateway \<in> set stops"
  shows "live_reachable stops filling"
proof -
  let ?s = "emit (Push_fill Fill_init) (joining\<lparr>lv_gateway := F_publish Fill_init\<rparr>)"
  have "live_step stops joining ?s"
    by (intro live_step.fill_begin fill_begin.gateway_fill) (simp_all add: assms joining_def live_init_def)
  moreover have "live_step stops ?s (emit (Publish_fill Fill_init) (?s\<lparr>lv_gateway := F_idle\<rparr>))"
    by (intro live_step.fill_end fill_end.gateway_publish) (simp add: emit_def)
  moreover have "emit (Publish_fill Fill_init) (?s\<lparr>lv_gateway := F_idle\<rparr>) = filling"
    by (simp add: filling_def emit_def joining_def live_init_def)
  ultimately show ?thesis
    using joining_reachable [of stops] by (metis live_reachable.step)
qed




end
