(* ===== verification/Demo_Logs.thy ===== *)
theory Demo_Logs
  imports Log_Bridge Grid_Strategy
begin

text \<open>
  The tool \<^verbatim>\<open>tools/generate_demo_logs.cpp\<close>, which writes the logs that the file replay mode reads. The log
  writer is in the library: its operations are the record \<open>writer_ops\<close>. The lemmas bound the roundings of
  the tool's floating point expressions, in units of \<open>2^-12\<close>.
\<close>

section \<open>The program\<close>

record 'w writer_ops =
  lw_initialize :: "string \<Rightarrow> LogConfig \<Rightarrow> 'w \<Rightarrow> bool \<times> 'w"
  lw_writeTick :: "Tick \<Rightarrow> 'w \<Rightarrow> bool \<times> 'w"
  lw_writeOrder :: "OrderRequest \<Rightarrow> 'w \<Rightarrow> bool \<times> 'w"
  lw_writeFill :: "Fill \<Rightarrow> 'w \<Rightarrow> bool \<times> 'w"
  lw_flush :: "'w \<Rightarrow> 'w"
  lw_stop :: "'w \<Rightarrow> 'w"

definition demo_config :: LogConfig where
  "demo_config = LogConfig_init
     \<lparr>lc_log_dir := ''/tmp/chronos_demo_logs'', lc_buffer_size := 65536, lc_flush_interval_ms := 100,
      lc_retention_days := 7, lc_enable_tick_logging := True, lc_enable_order_logging := True,
      lc_enable_fill_logging := True\<rparr>"

text \<open>The literals \<^verbatim>\<open>0.01\<close> and \<^verbatim>\<open>0.05\<close>; \<^verbatim>\<open>0.1\<close> is \<^const>\<open>d_tenth\<close>.\<close>

definition d_hundredth :: Double where
  "d_hundredth = rnd (1 / 100)"

definition d_twentieth :: Double where
  "d_twentieth = rnd (1 / 20)"

definition demo_tick :: "nat \<Rightarrow> Tick outcome" where
  "demo_tick i =
     bind_outcome (toDecimal (d_add (Fin 100) (d_mul (d_of_int (int (i mod 100))) d_hundredth))) (\<lambda>p.
     bind_outcome (toDecimal (d_add d_tenth (d_mul (d_of_int (int (i mod 10))) d_twentieth))) (\<lambda>q.
       Inr (Tick_init
         \<lparr>tick_price := p, tick_quantity := q, tick_symbol_id := 1, tick_side := BID,
          tick_exchange_timestamp_us := of_nat (1000000 + i * 1000),
          tick_receive_timestamp_us := of_nat (2000000 + i * 1000)\<rparr>)))"

definition demo_price :: "nat \<Rightarrow> Double" where
  "demo_price i = d_add (Fin 100) (d_mul (d_of_int (int (i mod 20))) (Fin (1 / 2)))"

definition demo_order :: "nat \<Rightarrow> OrderRequest outcome" where
  "demo_order i =
     bind_outcome (toDecimal (demo_price i)) (\<lambda>p.
     bind_outcome (toDecimal d_tenth) (\<lambda>q.
       Inr (OrderRequest_init
         \<lparr>req_order_id := of_nat (1000 + i), req_price := p, req_quantity := q, req_symbol_id := 1,
          req_side := (if i mod 2 = 0 then BUY else SELL), req_type := LIMIT\<rparr>)))"

definition demo_fill :: "nat \<Rightarrow> Fill outcome" where
  "demo_fill i =
     bind_outcome (toDecimal (demo_price i)) (\<lambda>p.
     bind_outcome (toDecimal d_tenth) (\<lambda>q.
       Inr (Fill_init
         \<lparr>fill_order_id := of_nat (1000 + i), fill_fill_price := p, fill_fill_quantity := q, fill_symbol_id := 1\<rparr>)))"

text \<open>One of the three loops: build the record, hand it to the writer, ignore the answer.\<close>

fun write_all :: "(nat \<Rightarrow> 'r outcome) \<Rightarrow> ('r \<Rightarrow> 'w \<Rightarrow> bool \<times> 'w) \<Rightarrow> nat list \<Rightarrow> 'w \<Rightarrow> 'w outcome" where
  "write_all build put [] w = Inr w"
| "write_all build put (i # is) w =
     bind_outcome (build i) (\<lambda>r. write_all build put is (snd (put r w)))"

definition demo_main :: "'w writer_ops \<Rightarrow> 'w \<Rightarrow> (int \<times> 'w) outcome" where
  "demo_main ops w =
     (let (ok, w1) = lw_initialize ops (lc_log_dir demo_config) demo_config w in
      if \<not> ok then Inr (1, w1)
      else bind_outcome (write_all demo_tick (lw_writeTick ops) [0..<1000] w1) (\<lambda>w2.
        bind_outcome (write_all demo_order (lw_writeOrder ops) [0..<50] w2) (\<lambda>w3.
        bind_outcome (write_all demo_fill (lw_writeFill ops) [0..<30] w3) (\<lambda>w4.
          Inr (0, lw_stop ops (lw_flush ops w4))))))"

section \<open>Bounds on roundings\<close>

definition in_steps :: "int \<Rightarrow> int \<Rightarrow> Double \<Rightarrow> bool" where
  "in_steps a b v \<longleftrightarrow> (\<exists>y. v = Fin y \<and> of_int a / 2 ^ 12 \<le> y \<and> y \<le> of_int b / 2 ^ 12)"

lemma rnd_between:
  assumes "\<bar>m\<bar> \<le> 2 ^ 53" and "\<bar>n\<bar> \<le> 2 ^ 53" and "k \<le> 1074"
    and "of_int m / 2 ^ k \<le> x" and "x \<le> of_int n / 2 ^ k"
  shows "\<exists>z. rnd x = Fin z \<and> of_int m / 2 ^ k \<le> z \<and> z \<le> of_int n / 2 ^ k"
proof -
  let ?z = "round_finite x"
  have lo: "of_int m / 2 ^ k \<le> ?z"
    using round_finite_mono [OF assms(4)] round_finite_of_int_pow2 [OF assms(3,1)] by simp
  have hi: "?z \<le> of_int n / 2 ^ k"
    using round_finite_mono [OF assms(5)] round_finite_of_int_pow2 [OF assms(3,2)] by simp
  have bound: "\<bar>of_int j / 2 ^ k\<bar> \<le> (2::rat) ^ 53" if "\<bar>j\<bar> \<le> 2 ^ 53" for j :: int
  proof -
    have "\<bar>of_int j / 2 ^ k\<bar> \<le> (of_int \<bar>j\<bar> :: rat)"
      by (simp add: divide_le_eq mult_le_cancel_left1)
    also have "\<dots> \<le> of_int (2 ^ 53)"
      using that by (simp only: of_int_le_iff)
    finally show ?thesis by simp
  qed
  have "\<bar>?z\<bar> \<le> 2 ^ 53"
    using lo hi bound [OF assms(1)] bound [OF assms(2)] by (simp only: abs_le_iff) linarith
  also have "(2::rat) ^ 53 \<le> 2 ^ 1000"
    by (rule power_increasing) simp_all
  finally have "\<not> overflows ?z"
    by (rule not_overflows)
  then show ?thesis
    using lo hi by (simp add: rnd_def Let_def)
qed

lemma steps_rnd:
  assumes "of_int a / 2 ^ 12 \<le> x" and "x \<le> of_int b / 2 ^ 12" and "\<bar>a\<bar> \<le> 2 ^ 20" and "\<bar>b\<bar> \<le> 2 ^ 20"
  shows "in_steps a b (rnd x)"
  unfolding in_steps_def by (rule rnd_between) (use assms in simp_all)

lemma steps_d_add:
  assumes "in_steps a b u" and "in_steps c d v" and "\<bar>a + c\<bar> \<le> 2 ^ 20" and "\<bar>b + d\<bar> \<le> 2 ^ 20"
  shows "in_steps (a + c) (b + d) (d_add u v)"
proof -
  obtain x y where "u = Fin x" "v = Fin y" "of_int a / 2 ^ 12 \<le> x" "x \<le> of_int b / 2 ^ 12"
    "of_int c / 2 ^ 12 \<le> y" "y \<le> of_int d / 2 ^ 12"
    using assms(1,2) by (auto simp: in_steps_def)
  then show ?thesis
    using assms(3,4) by (auto intro!: steps_rnd simp: add_divide_distrib)
qed

text \<open>A whole number of steps \<open>0 \<dots> m\<close> of a size of at most \<open>b\<close>.\<close>

lemma steps_d_mul:
  assumes n: "0 \<le> n" "n \<le> m" "m \<le> 2 ^ 8" and "in_steps a b v" and "0 \<le> a" and "m * b \<le> 2 ^ 20"
  shows "in_steps 0 (m * b) (d_mul (d_of_int n) v)"
proof -
  obtain y where y: "v = Fin y" "of_int a / 2 ^ 12 \<le> y" "y \<le> of_int b / 2 ^ 12"
    using assms(4) by (auto simp: in_steps_def)
  have "0 \<le> of_int a / (2 ^ 12 :: rat)" using assms(5) by simp
  then have y0: "0 \<le> y" and "0 \<le> of_int b / (2 ^ 12 :: rat)"
    using y(2,3) by linarith+
  then have b: "0 \<le> b" by (simp add: zero_le_divide_iff)
  have "\<bar>n\<bar> \<le> 2 ^ 53" using n by simp
  from rnd_of_int_pow2 [OF this, of 0] have d: "d_of_int n = Fin (of_int n)"
    by (simp add: d_of_int_def)
  have "of_int n \<le> (of_int m :: rat)"
    using n(2) by (simp only: of_int_le_iff)
  then have "of_int n * y \<le> of_int m * (of_int b / 2 ^ 12)"
    using n y0 y(3) by (intro mult_mono) simp_all
  then have "in_steps 0 (m * b) (rnd (of_int n * y))"
    using n b y0 assms(6) by (intro steps_rnd) simp_all
  then show ?thesis by (simp add: d y(1))
qed

lemma toDecimal_steps:
  assumes "in_steps a b v" and "\<bar>a\<bar> \<le> 2 ^ 20" and "\<bar>b\<bar> \<le> 2 ^ 20"
  shows "\<exists>d. toDecimal v = Inr d \<and> of_int a / 2 ^ 12 \<le> decimal_rat d \<and> decimal_rat d \<le> of_int b / 2 ^ 12"
proof -
  obtain y where y: "v = Fin y" "of_int a / 2 ^ 12 \<le> y" "y \<le> of_int b / 2 ^ 12"
    using assms(1) by (auto simp: in_steps_def)
  have "\<exists>z. rnd (y * 2 ^ 32) = Fin z \<and> of_int (a * 2 ^ 20) / 2 ^ 0 \<le> z \<and> z \<le> of_int (b * 2 ^ 20) / 2 ^ 0"
    using assms(2,3) y(2,3) by (intro rnd_between) (simp_all add: divide_le_eq le_divide_eq)
  then obtain z where z: "rnd (y * 2 ^ 32) = Fin z" "of_int (a * 2 ^ 20) \<le> z" "z \<le> of_int (b * 2 ^ 20)"
    by auto
  have t: "a * 2 ^ 20 \<le> trunc_rat z" "trunc_rat z \<le> b * 2 ^ 20"
    using trunc_rat_mono [OF z(2)] trunc_rat_mono [OF z(3)] unfolding trunc_rat_of_int .
  then have n: "- (2 ^ 63) \<le> trunc_rat z" "trunc_rat z < 2 ^ 63"
    using assms(2,3) by simp_all
  have dec: "decimal_rat (from_raw_value (word_of_int (trunc_rat z))) = of_int (trunc_rat z) / 2 ^ 32"
    by (rule decimal_rat_word [OF n])
  have "(of_int (a * 2 ^ 20) :: rat) \<le> of_int (trunc_rat z)" "(of_int (trunc_rat z) :: rat) \<le> of_int (b * 2 ^ 20)"
    using t by (simp_all only: of_int_le_iff)
  then have "of_int a / 2 ^ 12 \<le> (of_int (trunc_rat z) / 2 ^ 32 :: rat)"
    "of_int (trunc_rat z) / 2 ^ 32 \<le> (of_int b / 2 ^ 12 :: rat)"
    by (simp_all add: divide_le_eq le_divide_eq)
  moreover have "toDecimal v = Inr (from_raw_value (word_of_int (trunc_rat z)))"
    using n z(1) by (simp add: toDecimal_def decimal_scale_def y(1) Let_def)
  ultimately show ?thesis using dec by auto
qed

lemma steps_d_hundredth: "in_steps 40 41 d_hundredth"
  unfolding d_hundredth_def by (rule steps_rnd) simp_all

lemma steps_d_twentieth: "in_steps 204 205 d_twentieth"
  unfolding d_twentieth_def by (rule steps_rnd) simp_all

lemma steps_d_tenth: "in_steps 409 410 d_tenth"
  unfolding d_tenth_def by (rule steps_rnd) simp_all

lemma steps_Fin: "of_int a / 2 ^ 12 \<le> y \<Longrightarrow> y \<le> of_int b / 2 ^ 12 \<Longrightarrow> in_steps a b (Fin y)"
  by (simp add: in_steps_def)

section \<open>The records\<close>

definition tick_ok :: "nat \<Rightarrow> Tick \<Rightarrow> bool" where
  "tick_ok i t \<longleftrightarrow>
     unat (tick_exchange_timestamp_us t) = 1000000 + i * 1000 \<and>
     tick_receive_timestamp_us t = tick_exchange_timestamp_us t + 1000000 \<and>
     100 \<le> decimal_rat (tick_price t) \<and> decimal_rat (tick_price t) < 101 \<and>
     0 < decimal_rat (tick_quantity t) \<and> decimal_rat (tick_quantity t) < 3 / 5 \<and>
     tick_symbol_id t = 1 \<and> tick_side t = BID"

lemma demo_tick_defined:
  assumes "i < 1000"
  shows "\<exists>t. demo_tick i = Inr t \<and> tick_ok i t"
proof -
  have "in_steps (100 * 2 ^ 12 + 0) (100 * 2 ^ 12 + 99 * 41)
      (d_add (Fin 100) (d_mul (d_of_int (int (i mod 100))) d_hundredth))"
    by (intro steps_d_add steps_Fin steps_d_mul [OF _ _ _ steps_d_hundredth]) (simp_all add: nat_le_iff)
  from toDecimal_steps [OF this] obtain p where
    p: "toDecimal (d_add (Fin 100) (d_mul (d_of_int (int (i mod 100))) d_hundredth)) = Inr p"
      "100 \<le> decimal_rat p" "decimal_rat p < 101"
    by auto
  have "in_steps (409 + 0) (410 + 9 * 205) (d_add d_tenth (d_mul (d_of_int (int (i mod 10))) d_twentieth))"
    by (intro steps_d_add steps_d_tenth steps_d_mul [OF _ _ _ steps_d_twentieth]) (simp_all add: nat_le_iff)
  from toDecimal_steps [OF this] obtain q where
    q: "toDecimal (d_add d_tenth (d_mul (d_of_int (int (i mod 10))) d_twentieth)) = Inr q"
      "0 < decimal_rat q" "decimal_rat q < 3 / 5"
    by auto
  have "unat (of_nat (1000000 + i * 1000) :: u64) = 1000000 + i * 1000"
    using assms by (simp add: unsigned_of_nat take_bit_nat_eq_self del: of_nat_add of_nat_mult)
  then show ?thesis
    using p q by (simp add: demo_tick_def tick_ok_def)
qed

text \<open>The prices of the orders and fills are multiples of a half, which convert exactly.\<close>

lemma demo_price_exact: "\<exists>p. toDecimal (demo_price i) = Inr p \<and> decimal_rat p = 100 + of_nat (i mod 20) / 2"
proof -
  let ?n = "int (i mod 20)"
  have n: "0 \<le> ?n" "?n < 20" by simp_all
  have "demo_price i = Fin (of_int (200 + ?n) / 2 ^ 1)"
  proof -
    have "rnd (of_int ?n / 2 ^ 0) = Fin (of_int ?n / 2 ^ 0)" "rnd (of_int ?n / 2 ^ 1) = Fin (of_int ?n / 2 ^ 1)"
      "rnd (of_int (200 + ?n) / 2 ^ 1) = Fin (of_int (200 + ?n) / 2 ^ 1)"
      by (rule rnd_of_int_pow2; use n in simp)+
    then show ?thesis by (simp add: demo_price_def d_of_int_def add_divide_distrib)
  qed
  then have "in_steps ((200 + ?n) * 2 ^ 11) ((200 + ?n) * 2 ^ 11) (demo_price i)"
    by (simp only:) (rule steps_Fin; simp)
  from toDecimal_steps [OF this] n obtain p where "toDecimal (demo_price i) = Inr p"
    "decimal_rat p = of_int ((200 + ?n) * 2 ^ 11) / 2 ^ 12"
    by force
  then show ?thesis by (simp add: add_divide_distrib)
qed

lemma tenth_defined: "\<exists>q. toDecimal d_tenth = Inr q \<and> 0 < decimal_rat q"
  using toDecimal_steps [OF steps_d_tenth] by force

definition order_ok :: "nat \<Rightarrow> OrderRequest \<Rightarrow> bool" where
  "order_ok i r \<longleftrightarrow>
     req_order_id r = of_nat (1000 + i) \<and> decimal_rat (req_price r) = 100 + of_nat (i mod 20) / 2 \<and>
     0 < decimal_rat (req_quantity r) \<and> (req_side r = BUY \<longleftrightarrow> even i)"

definition fill_ok :: "nat \<Rightarrow> Fill \<Rightarrow> bool" where
  "fill_ok i f \<longleftrightarrow>
     fill_order_id f = of_nat (1000 + i) \<and> decimal_rat (fill_fill_price f) = 100 + of_nat (i mod 20) / 2 \<and>
     0 < decimal_rat (fill_fill_quantity f) \<and> fill_side f = BUY"

lemma demo_order_defined: "\<exists>r. demo_order i = Inr r \<and> order_ok i r"
  using demo_price_exact [of i] tenth_defined by (auto simp: demo_order_def order_ok_def even_iff_mod_2_eq_zero)

lemma demo_fill_defined: "\<exists>f. demo_fill i = Inr f \<and> fill_ok i f"
  using demo_price_exact [of i] tenth_defined by (auto simp: demo_fill_def fill_ok_def Fill_init_def)

lemma write_all_defined:
  assumes "\<forall>i \<in> set is. \<exists>r. build i = Inr r \<and> ok i r"
  shows "\<exists>rs. list_all2 ok is rs \<and> write_all build put is w = Inr (fold (\<lambda>r w. snd (put r w)) rs w)"
  using assms
proof (induction "is" arbitrary: w)
  case (Cons i "is")
  then obtain r where r: "build i = Inr r" "ok i r" by auto
  from Cons.IH [of "snd (put r w)"] Cons.prems obtain rs where
    "list_all2 ok is rs" "write_all build put is (snd (put r w)) = Inr (fold (\<lambda>r w. snd (put r w)) rs (snd (put r w)))"
    by auto
  with r show ?case by (intro exI [of _ "r # rs"]) simp
qed simp

section \<open>Properties\<close>

text \<open>
  The demo generator runs to its end without an undefined conversion. If the writer can be
  initialised, it hands over exactly 1000 ticks, 50 orders and 30 fills, flushes and stops. Tick \<open>i\<close> carries
  the time \<open>1000000 + 1000 * i\<close>, so that the times increase strictly, a price in \<open>[100, 101)\<close> and a positive
  quantity below 0.6, whatever the roundings do; the orders alternate between the sides; and every fill
  says it is a buy, also those of sell orders.
\<close>

theorem demo_main_writes:
  assumes "lw_initialize ops ''/tmp/chronos_demo_logs'' demo_config w = (True, w1)"
  shows "\<exists>ts os fs. list_all2 tick_ok [0..<1000] ts \<and> list_all2 order_ok [0..<50] os \<and> list_all2 fill_ok [0..<30] fs \<and>
    demo_main ops w = Inr (0, lw_stop ops (lw_flush ops
      (fold (\<lambda>r w. snd (lw_writeFill ops r w)) fs
        (fold (\<lambda>r w. snd (lw_writeOrder ops r w)) os (fold (\<lambda>r w. snd (lw_writeTick ops r w)) ts w1)))))"
proof -
  have "\<forall>i \<in> set [0..<1000]. \<exists>t. demo_tick i = Inr t \<and> tick_ok i t"
    using demo_tick_defined by simp
  from write_all_defined [OF this, of "lw_writeTick ops" w1] obtain ts where ts: "list_all2 tick_ok [0..<1000] ts"
    "write_all demo_tick (lw_writeTick ops) [0..<1000] w1 = Inr (fold (\<lambda>r w. snd (lw_writeTick ops r w)) ts w1)"
    by blast
  let ?w2 = "fold (\<lambda>r w. snd (lw_writeTick ops r w)) ts w1"
  have "\<forall>i \<in> set [0..<50]. \<exists>r. demo_order i = Inr r \<and> order_ok i r"
    using demo_order_defined by simp
  from write_all_defined [OF this, of "lw_writeOrder ops" ?w2] obtain os where os: "list_all2 order_ok [0..<50] os"
    "write_all demo_order (lw_writeOrder ops) [0..<50] ?w2 = Inr (fold (\<lambda>r w. snd (lw_writeOrder ops r w)) os ?w2)"
    by blast
  let ?w3 = "fold (\<lambda>r w. snd (lw_writeOrder ops r w)) os ?w2"
  have "\<forall>i \<in> set [0..<30]. \<exists>f. demo_fill i = Inr f \<and> fill_ok i f"
    using demo_fill_defined by simp
  from write_all_defined [OF this, of "lw_writeFill ops" ?w3] obtain fs where fs: "list_all2 fill_ok [0..<30] fs"
    "write_all demo_fill (lw_writeFill ops) [0..<30] ?w3 = Inr (fold (\<lambda>r w. snd (lw_writeFill ops r w)) fs ?w3)"
    by blast
  have "lc_log_dir demo_config = ''/tmp/chronos_demo_logs''"
    by (simp add: demo_config_def)
  with assms ts os fs show ?thesis
    by (intro exI [of _ ts] exI [of _ os] exI [of _ fs])
      (simp add: demo_main_def del: upt_conv_Cons upt_rec_numeral)
qed

lemma message_sizes:
  "sizeof_struct 64 Tick_members = 64" "sizeof_struct 64 OrderRequest_members = 128" "sizeof_struct 64 Fill_members = 128"
  by (simp_all add: Tick_members_def OrderRequest_members_def Fill_members_def sizeof_struct_def align_up_def)

text \<open>
  No record of the demo is lost to a full buffer, even if nothing is flushed in between: with
  buffers of the configured size, the 1000 ticks, the 50 orders and the 30 fills are all accepted, in 64000,
  6400 and 3840 of the 65536 bytes.
\<close>

theorem demo_records_fit:
  assumes "(k, n) \<in> {(sizeof_struct 64 Tick_members, 1000), (sizeof_struct 64 OrderRequest_members, 50),
      (sizeof_struct 64 Fill_members, 30)}"
    and "length rs = n" and "\<forall>r \<in> set rs. length r = k"
  shows "fst (append_records \<lparr>lb_data = replicate (unat (lc_buffer_size demo_config)) 0, lb_write_pos = 0\<rparr> rs) = replicate n True"
proof -
  let ?b = "\<lparr>lb_data = replicate (unat (lc_buffer_size demo_config)) 0, lb_write_pos = 0\<rparr>"
  have size: "length (lb_data ?b) = 65536"
    by (simp add: demo_config_def)
  have kn: "(k, n) \<in> {(64, 1000), (128, 50), (128, 30)}"
    using assms(1) by (simp add: message_sizes)
  then have "n \<le> 65536 div k" and k: "0 < k" "k < 2 ^ 63" by auto
  moreover have "buffer_ok ?b" unfolding buffer_ok_def size by simp
  ultimately have "fst (append_records ?b rs) = map (\<lambda>i. 0 + i < 65536 div k) [0..<length rs]"
    using append_records_content [of ?b k rs 0 "65536 div k"] assms(3) size by (simp add: buffer_content_def)
  also have "\<dots> = map (\<lambda>i. True) [0..<length rs]"
    using \<open>n \<le> 65536 div k\<close> assms(2) by (intro map_cong) auto
  also have "\<dots> = replicate n True"
    by (simp add: map_replicate_const assms(2))
  finally show ?thesis .
qed

section \<open>A concrete writer\<close>

text \<open>A writer that counts the records of each kind.\<close>

definition counting_writer :: "(nat \<times> nat \<times> nat) writer_ops" where
  "counting_writer =
     \<lparr>lw_initialize = (\<lambda>d c w. (True, (0, 0, 0))), lw_writeTick = (\<lambda>t (a, b, c). (True, (a + 1, b, c))),
      lw_writeOrder = (\<lambda>r (a, b, c). (True, (a, b + 1, c))), lw_writeFill = (\<lambda>f (a, b, c). (True, (a, b, c + 1))),
      lw_flush = id, lw_stop = id\<rparr>"

lemma counting_folds:
  "fold (\<lambda>r w. snd (lw_writeTick counting_writer r w)) ts (a, b, c) = (a + length ts, b, c)"
  "fold (\<lambda>r w. snd (lw_writeOrder counting_writer r w)) os (a, b, c) = (a, b + length os, c)"
  "fold (\<lambda>r w. snd (lw_writeFill counting_writer r w)) fs (a, b, c) = (a, b, c + length fs)"
  by (induction ts arbitrary: a, simp_all add: counting_writer_def,
      induction os arbitrary: b, simp_all, induction fs arbitrary: c, simp_all)

theorem demo_main_writes_witness: "demo_main counting_writer (7, 7, 7) = Inr (0, (1000, 50, 30))"
proof -
  have "lw_initialize counting_writer ''/tmp/chronos_demo_logs'' demo_config (7, 7, 7) = (True, (0, 0, 0))"
    by (simp add: counting_writer_def)
  from demo_main_writes [OF this] obtain ts os fs where
    "list_all2 tick_ok [0..<1000] ts" "list_all2 order_ok [0..<50] os" "list_all2 fill_ok [0..<30] fs"
    "demo_main counting_writer (7, 7, 7) = Inr (0, lw_stop counting_writer (lw_flush counting_writer
      (fold (\<lambda>r w. snd (lw_writeFill counting_writer r w)) fs
        (fold (\<lambda>r w. snd (lw_writeOrder counting_writer r w)) os
          (fold (\<lambda>r w. snd (lw_writeTick counting_writer r w)) ts (0, 0, 0))))))"
    by blast
  moreover from this(1-3) have "length ts = 1000" "length os = 50" "length fs = 30"
    by (auto dest!: list_all2_lengthD simp del: upt_conv_Cons upt_rec_numeral)
  ultimately show ?thesis
    by (simp only: counting_folds) (simp add: counting_writer_def)
qed

theorem demo_records_fit_witness:
  "fst (append_records \<lparr>lb_data = replicate (unat (lc_buffer_size demo_config)) 0, lb_write_pos = 0\<rparr>
     (replicate 1000 (replicate 64 7))) = replicate 1000 True"
  by (rule demo_records_fit [of 64 1000]) (simp_all add: message_sizes)

end
