(* ===== verification/Any_Gateway.thy ===== *)
theory Any_Gateway
  imports Mpmc_Queue Config_Records
begin

text \<open>
  The type-erased market data gateway of \<^verbatim>\<open>market_data/any_gateway.hpp\<close>. \<open>adapter_ops\<close> is what the concept
  \<^verbatim>\<open>ExchangeAdapter\<close> asks of an adapter with the state \<open>'a\<close>; an \<open>AnyGateway\<close> owns one adapter or none, and
  every operation forwards to it. The adapters themselves are in the library. The locale
  \<open>answers_alike\<close> is the contract of two components that no sequence of calls can tell apart.
\<close>

section \<open>Adapters\<close>

text \<open>
  An operation answers and leaves the adapter in a new state; \<^verbatim>\<open>initialize\<close> and \<^verbatim>\<open>start\<close> may also put
  ticks into the queue they have been given, which is why the state holds it.
\<close>

record 'a adapter_ops =
  ad_initialize :: "ExchangeConfig \<Rightarrow> Tick MPMCQueue \<Rightarrow> 'a \<Rightarrow> bool \<times> 'a"
  ad_start :: "'a \<Rightarrow> bool \<times> 'a"
  ad_stop :: "'a \<Rightarrow> 'a"
  ad_subscribe :: "string \<Rightarrow> 'a \<Rightarrow> bool \<times> 'a"
  ad_unsubscribe :: "string \<Rightarrow> 'a \<Rightarrow> bool \<times> 'a"
  ad_isRunning :: "'a \<Rightarrow> bool"
  ad_getStatus :: "'a \<Rightarrow> ConnectionStatus"
  ad_getStatistics :: "'a \<Rightarrow> GatewayStatistics"

section \<open>The wrapper\<close>

type_synonym 'a AnyGateway = "'a option"

definition AnyGateway_default :: "'a AnyGateway" where
  "AnyGateway_default = None"

definition AnyGateway_of :: "'a \<Rightarrow> 'a AnyGateway" where
  "AnyGateway_of adapter = Some adapter"

text \<open>\<^verbatim>\<open>impl_ && impl_->f()\<close>: nothing is called on an empty wrapper.\<close>

definition guarded :: "('a \<Rightarrow> bool \<times> 'a) \<Rightarrow> 'a AnyGateway \<Rightarrow> bool \<times> 'a AnyGateway" where
  "guarded f g = (case g of None \<Rightarrow> (False, None) | Some a \<Rightarrow> map_prod id Some (f a))"

definition gw_initialize :: "'a adapter_ops \<Rightarrow> ExchangeConfig \<Rightarrow> Tick MPMCQueue \<Rightarrow> 'a AnyGateway \<Rightarrow> bool \<times> 'a AnyGateway" where
  "gw_initialize ops cfg queue = guarded (ad_initialize ops cfg queue)"

definition gw_start :: "'a adapter_ops \<Rightarrow> 'a AnyGateway \<Rightarrow> bool \<times> 'a AnyGateway" where
  "gw_start ops = guarded (ad_start ops)"

definition gw_stop :: "'a adapter_ops \<Rightarrow> 'a AnyGateway \<Rightarrow> 'a AnyGateway" where
  "gw_stop ops g = (case g of None \<Rightarrow> None | Some a \<Rightarrow> Some (ad_stop ops a))"

definition gw_subscribe :: "'a adapter_ops \<Rightarrow> string \<Rightarrow> 'a AnyGateway \<Rightarrow> bool \<times> 'a AnyGateway" where
  "gw_subscribe ops symbol = guarded (ad_subscribe ops symbol)"

definition gw_unsubscribe :: "'a adapter_ops \<Rightarrow> string \<Rightarrow> 'a AnyGateway \<Rightarrow> bool \<times> 'a AnyGateway" where
  "gw_unsubscribe ops symbol = guarded (ad_unsubscribe ops symbol)"

definition gw_isRunning :: "'a adapter_ops \<Rightarrow> 'a AnyGateway \<Rightarrow> bool" where
  "gw_isRunning ops g = (case g of None \<Rightarrow> False | Some a \<Rightarrow> ad_isRunning ops a)"

definition gw_getStatus :: "'a adapter_ops \<Rightarrow> 'a AnyGateway \<Rightarrow> ConnectionStatus" where
  "gw_getStatus ops g = (case g of None \<Rightarrow> DISCONNECTED | Some a \<Rightarrow> ad_getStatus ops a)"

definition gw_getStatistics :: "'a adapter_ops \<Rightarrow> 'a AnyGateway \<Rightarrow> GatewayStatistics" where
  "gw_getStatistics ops g = (case g of None \<Rightarrow> GatewayStatistics_init | Some a \<Rightarrow> ad_getStatistics ops a)"

definition gw_valid :: "'a AnyGateway \<Rightarrow> bool" where
  "gw_valid g \<longleftrightarrow> g \<noteq> None"

text \<open>Moving out of a gateway leaves it empty (the defaulted move operations of \<^verbatim>\<open>unique_ptr\<close>).\<close>

definition gw_move :: "'a AnyGateway \<Rightarrow> 'a AnyGateway \<times> 'a AnyGateway" where
  "gw_move g = (g, None)"

section \<open>Sequences of calls\<close>

datatype gw_request =
    Initialize ExchangeConfig "Tick MPMCQueue"
  | Start
  | Stop
  | Subscribe_to string
  | Unsubscribe string
  | IsRunning
  | GetStatus
  | GetStatistics

datatype gw_answer = Answer bool | No_answer | Status ConnectionStatus | Statistics GatewayStatistics

fun adapter_call :: "'a adapter_ops \<Rightarrow> gw_request \<Rightarrow> 'a \<Rightarrow> gw_answer \<times> 'a" where
  "adapter_call ops (Initialize cfg q) a = map_prod Answer id (ad_initialize ops cfg q a)"
| "adapter_call ops Start a = map_prod Answer id (ad_start ops a)"
| "adapter_call ops Stop a = (No_answer, ad_stop ops a)"
| "adapter_call ops (Subscribe_to s) a = map_prod Answer id (ad_subscribe ops s a)"
| "adapter_call ops (Unsubscribe s) a = map_prod Answer id (ad_unsubscribe ops s a)"
| "adapter_call ops IsRunning a = (Answer (ad_isRunning ops a), a)"
| "adapter_call ops GetStatus a = (Status (ad_getStatus ops a), a)"
| "adapter_call ops GetStatistics a = (Statistics (ad_getStatistics ops a), a)"

fun gw_call :: "'a adapter_ops \<Rightarrow> gw_request \<Rightarrow> 'a AnyGateway \<Rightarrow> gw_answer \<times> 'a AnyGateway" where
  "gw_call ops (Initialize cfg q) g = map_prod Answer id (gw_initialize ops cfg q g)"
| "gw_call ops Start g = map_prod Answer id (gw_start ops g)"
| "gw_call ops Stop g = (No_answer, gw_stop ops g)"
| "gw_call ops (Subscribe_to s) g = map_prod Answer id (gw_subscribe ops s g)"
| "gw_call ops (Unsubscribe s) g = map_prod Answer id (gw_unsubscribe ops s g)"
| "gw_call ops IsRunning g = (Answer (gw_isRunning ops g), g)"
| "gw_call ops GetStatus g = (Status (gw_getStatus ops g), g)"
| "gw_call ops GetStatistics g = (Statistics (gw_getStatistics ops g), g)"

fun calls :: "('c \<Rightarrow> 's \<Rightarrow> 'r \<times> 's) \<Rightarrow> 'c list \<Rightarrow> 's \<Rightarrow> 'r list \<times> 's" where
  "calls f [] s = ([], s)"
| "calls f (c # cs) s = (let (r, s') = f c s; (rs, s'') = calls f cs s' in (r # rs, s''))"

locale answers_alike =
  fixes impl :: "'c \<Rightarrow> 's \<Rightarrow> 'r \<times> 's"
    and spec :: "'c \<Rightarrow> 't \<Rightarrow> 'r \<times> 't"
    and rel :: "'s \<Rightarrow> 't \<Rightarrow> bool"
  assumes same_answer: "rel s t \<Longrightarrow> fst (impl c s) = fst (spec c t)"
    and still_related: "rel s t \<Longrightarrow> rel (snd (impl c s)) (snd (spec c t))"
begin

lemma calls_alike:
  "rel s t \<Longrightarrow> fst (calls impl cs s) = fst (calls spec cs t) \<and> rel (snd (calls impl cs s)) (snd (calls spec cs t))"
proof (induction cs arbitrary: s t)
  case (Cons c cs)
  obtain r s' where i: "impl c s = (r, s')" by fastforce
  obtain r' t' where p: "spec c t = (r', t')" by fastforce
  have "r = r'" and "rel s' t'"
    using same_answer [OF Cons.prems, of c] still_related [OF Cons.prems, of c] by (simp_all add: i p)
  with Cons.IH [of s' t'] show ?case
    by (simp add: i p case_prod_beta)
qed simp

end

text \<open>A wrapped adapter answers as the adapter does; an empty wrapper as a gateway that refuses everything.\<close>

fun null_call :: "gw_request \<Rightarrow> unit \<Rightarrow> gw_answer \<times> unit" where
  "null_call Stop u = (No_answer, u)"
| "null_call GetStatus u = (Status DISCONNECTED, u)"
| "null_call GetStatistics u = (Statistics GatewayStatistics_init, u)"
| "null_call _ u = (Answer False, u)"

lemmas gw_defs = gw_initialize_def gw_start_def gw_stop_def gw_subscribe_def gw_unsubscribe_def gw_isRunning_def
  gw_getStatus_def gw_getStatistics_def guarded_def

interpretation wrapped: answers_alike "gw_call ops" "adapter_call ops" "\<lambda>g a. g = Some a" for ops :: "'a adapter_ops"
proof unfold_locales
  fix g :: "'a AnyGateway" and a c
  assume "g = Some a"
  then show "fst (gw_call ops c g) = fst (adapter_call ops c a)" and "snd (gw_call ops c g) = Some (snd (adapter_call ops c a))"
    by (cases c; simp add: gw_defs)+
qed

interpretation empty_wrapper: answers_alike "gw_call ops" null_call "\<lambda>g u. g = None" for ops :: "'a adapter_ops"
proof unfold_locales
  fix g :: "'a AnyGateway" and u c
  assume "g = None"
  then show "fst (gw_call ops c g) = fst (null_call c u)" and "snd (gw_call ops c g) = None"
    by (cases c; simp add: gw_defs)+
qed

section \<open>Properties\<close>


text \<open>
  An empty gateway (a failed factory, or one moved from) never touches an adapter. Every call
  that can fail answers false, \<^verbatim>\<open>stop\<close> does nothing, the status is \<^verbatim>\<open>DISCONNECTED\<close> with zero statistics, and
  the gateway stays empty.
\<close>

theorem empty_gateway_refuses:
  "snd (gw_move g) = AnyGateway_default \<and>
   calls (gw_call ops) cs AnyGateway_default = (map (\<lambda>c. fst (null_call c ())) cs, AnyGateway_default)"
proof -
  have "fst (calls null_call cs ()) = map (\<lambda>c. fst (null_call c ())) cs" for cs
    by (induction cs) (simp_all add: case_prod_beta)
  with empty_wrapper.calls_alike [of None ops cs "()"] show ?thesis
    by (simp add: AnyGateway_default_def gw_move_def prod_eq_iff)
qed

end
