(* ===== verification/Io_Protocols.thy ===== *)
theory Io_Protocols
  imports Core_Types
begin

text \<open>
  The wire protocols of \<^verbatim>\<open>io/protocols\<close> and the default of \<^verbatim>\<open>io/transports/transport.hpp\<close>, as far as their
  bodies are in the headers: how the heartbeat is done and the default address. Parsing and the request
  texts are in the library. The locale \<open>heartbeat\<close> states what the comments of \<^verbatim>\<open>protocol.hpp\<close> promise the
  adapter that drives a protocol.
\<close>

section \<open>The interface and its two implementations\<close>

record Protocol =
  pr_isPingMessage :: "string \<Rightarrow> bool"
  pr_isPongMessage :: "string \<Rightarrow> bool"
  pr_heartbeatPayload :: string
  pr_usesWsPing :: bool
  pr_defaultUrl :: string

definition BinanceJsonProtocol :: Protocol where
  "BinanceJsonProtocol =
     \<lparr>pr_isPingMessage = (\<lambda>msg. False), pr_isPongMessage = (\<lambda>msg. False), pr_heartbeatPayload = [],
      pr_usesWsPing = True, pr_defaultUrl = ''wss://stream.binance.com:9443/ws''\<rparr>"

definition OKXJsonProtocol :: Protocol where
  "OKXJsonProtocol =
     \<lparr>pr_isPingMessage = (\<lambda>msg. msg = ''ping''), pr_isPongMessage = (\<lambda>msg. msg = ''pong''),
      pr_heartbeatPayload = ''ping'', pr_usesWsPing = False,
      pr_defaultUrl = ''wss://ws.okx.com:8443/ws/v5/public''\<rparr>"

text \<open>\<^verbatim>\<open>Transport::sendPing\<close>, for transports that do not override it.\<close>

definition sendPing_default :: bool where
  "sendPing_default = True"

section \<open>The contract\<close>

locale heartbeat =
  fixes p :: Protocol
  assumes one_mechanism: "pr_usesWsPing p \<longleftrightarrow> pr_heartbeatPayload p = []"
    and no_ping_pong: "\<not> (pr_isPingMessage p msg \<and> pr_isPongMessage p msg)"
    and own_heartbeat: "pr_heartbeatPayload p \<noteq> [] \<Longrightarrow> pr_isPingMessage p (pr_heartbeatPayload p)"
    and closed_is_data: "\<not> pr_isPingMessage p [] \<and> \<not> pr_isPongMessage p []"
begin

text \<open>A heartbeat text is never empty, never a pong, and is not sent where the transport pings.\<close>

lemma text_heartbeat:
  "\<not> pr_usesWsPing p \<longleftrightarrow>
     pr_heartbeatPayload p \<noteq> [] \<and> pr_isPingMessage p (pr_heartbeatPayload p) \<and> \<not> pr_isPongMessage p (pr_heartbeatPayload p)"
  using one_mechanism own_heartbeat no_ping_pong by blast

end

interpretation binance: heartbeat BinanceJsonProtocol
  by unfold_locales (simp_all add: BinanceJsonProtocol_def)

interpretation okx: heartbeat OKXJsonProtocol
  by unfold_locales (auto simp: OKXJsonProtocol_def)

section \<open>Properties\<close>

text \<open>
  Each protocol has exactly one kind of heartbeat. Where it is done with WebSocket pings the
  payload is empty and no message is a control message; where it is a text, the text is one the protocol
  itself recognises as a ping and not as a pong, and no message is both.
\<close>

theorem protocol_heartbeats:
  "p = BinanceJsonProtocol \<or> p = OKXJsonProtocol \<Longrightarrow>
     (pr_usesWsPing p \<longleftrightarrow> pr_heartbeatPayload p = []) \<and>
     (\<not> pr_usesWsPing p \<longleftrightarrow> pr_heartbeatPayload p \<noteq> [] \<and> pr_isPingMessage p (pr_heartbeatPayload p) \<and>
        \<not> pr_isPongMessage p (pr_heartbeatPayload p)) \<and>
     \<not> (pr_isPingMessage p msg \<and> pr_isPongMessage p msg)"
  using binance.text_heartbeat binance.one_mechanism binance.no_ping_pong
    okx.text_heartbeat okx.one_mechanism okx.no_ping_pong by blast

end
