(* ===== verification/Order_Books.thy ===== *)
theory Order_Books
  imports Core_Types Risk_Params
begin

text \<open>
  The data of the two order books, \<^verbatim>\<open>market_data/orderbook_v2.hpp\<close> and \<^verbatim>\<open>market_data/orderbook.hpp\<close>, with what
  the headers define on it: initial values, layout, \<^verbatim>\<open>is_valid\<close>, \<^verbatim>\<open>clear\<close>, and the optimistic read of the hot
  data. Updates, insertion into the levels and the buffer swap are in the library. The concurrent
  behaviour of the optimistic read is the subject of \<^verbatim>\<open>Seqlock\<close>; here it is the loop of one reader.
\<close>

section \<open>The order book with five hot levels\<close>

definition MAX_DEPTH :: nat where
  "MAX_DEPTH = 20"

definition HOT_DEPTH :: nat where
  "HOT_DEPTH = 5"

record BookStatistics =
  bs_total_updates :: u64
  bs_hot_path_reads :: u64
  bs_cold_path_reads :: u64
  bs_buffer_swaps :: u64
  bs_version_retries :: u64
  bs_avg_update_latency_ns :: i64
  bs_avg_hot_read_latency_ns :: i64
  bs_avg_cold_read_latency_ns :: i64

definition BookStatistics_init :: BookStatistics where
  "BookStatistics_init =
     \<lparr>bs_total_updates = 0, bs_hot_path_reads = 0, bs_cold_path_reads = 0, bs_buffer_swaps = 0,
      bs_version_retries = 0, bs_avg_update_latency_ns = 0, bs_avg_hot_read_latency_ns = 0,
      bs_avg_cold_read_latency_ns = 0\<rparr>"

record HotData =
  hd_bid_prices :: "Decimal list"
  hd_bid_quantities :: "Decimal list"
  hd_ask_prices :: "Decimal list"
  hd_ask_quantities :: "Decimal list"
  hd_version :: u64
  hd_last_update_time :: u64
  hd_bid_count :: u8
  hd_ask_count :: u8
  hd_padding :: "u8 list"

definition HotData_init :: HotData where
  "HotData_init =
     \<lparr>hd_bid_prices = replicate HOT_DEPTH decimal_zero, hd_bid_quantities = replicate HOT_DEPTH decimal_zero,
      hd_ask_prices = replicate HOT_DEPTH decimal_zero, hd_ask_quantities = replicate HOT_DEPTH decimal_zero,
      hd_version = 0, hd_last_update_time = 0, hd_bid_count = 0, hd_ask_count = 0, hd_padding = replicate 78 0\<rparr>"

definition HotData_members :: "member list" where
  "HotData_members =
     [(''bid_prices'', 8 * HOT_DEPTH, 8), (''bid_quantities'', 8 * HOT_DEPTH, 8), (''ask_prices'', 8 * HOT_DEPTH, 8),
      (''ask_quantities'', 8 * HOT_DEPTH, 8), (''version'', 8, 8), (''last_update_time'', 8, 8), (''bid_count'', 1, 1),
      (''ask_count'', 1, 1), (''padding'', 78, 1)]"

record Level =
  lvl_price :: Decimal
  lvl_quantity :: Decimal

definition Level_init :: Level where
  "Level_init = \<lparr>lvl_price = decimal_zero, lvl_quantity = decimal_zero\<rparr>"

definition is_valid :: "fpm_ops \<Rightarrow> Level \<Rightarrow> bool" where
  "is_valid F l = fpm_less F (fpm_of_int F 0) (lvl_quantity l)"

record ColdData =
  cd_bids :: "Level list"
  cd_asks :: "Level list"
  cd_bid_count :: u8
  cd_ask_count :: u8
  cd_last_update_time :: u64

definition ColdData_init :: ColdData where
  "ColdData_init =
     \<lparr>cd_bids = replicate MAX_DEPTH Level_init, cd_asks = replicate MAX_DEPTH Level_init, cd_bid_count = 0,
      cd_ask_count = 0, cd_last_update_time = 0\<rparr>"

fun clear_levels :: "nat list \<Rightarrow> ColdData \<Rightarrow> ColdData" where
  "clear_levels [] c = c"
| "clear_levels (i # is) c =
     clear_levels is (c\<lparr>cd_bids := (cd_bids c)[i := Level_init], cd_asks := (cd_asks c)[i := Level_init]\<rparr>)"

definition clear_cold :: "ColdData \<Rightarrow> ColdData" where
  "clear_cold c = clear_levels [0..<MAX_DEPTH] (c\<lparr>cd_bid_count := 0, cd_ask_count := 0\<rparr>)"

record OrderBookV2 =
  ob_hot_data :: HotData
  ob_cold_buffers :: "ColdData list"
  ob_active_cold_buffer :: nat
  ob_write_buffer_index :: nat
  ob_stats :: BookStatistics
  ob_hot_data_dirty :: bool

section \<open>The optimistic read\<close>

text \<open>
  \<open>obs i\<close> is what attempt \<open>i\<close> observes: the version before, the hot data, the version after. The loop has
  no bound, but its counter \<open>retries\<close> is an \<^verbatim>\<open>int\<close>, whose increment past \<open>2^31 - 1\<close> is undefined.
\<close>

function read_hot :: "(HotData \<Rightarrow> 'r) \<Rightarrow> (nat \<Rightarrow> u64 \<times> HotData \<times> u64) \<Rightarrow> nat \<Rightarrow> u64 \<Rightarrow> ('r \<times> u64) outcome" where
  "read_hot func obs retries version_retries =
     (case obs retries of (v1, d, v2) \<Rightarrow>
        if and v1 1 = 0 \<and> v1 = v2 then Inr (func d, version_retries)
        else if 2 ^ 31 - 1 \<le> retries then Inl UB_signed_overflow
        else read_hot func obs (retries + 1) (version_retries + 1))"
  by pat_completeness auto
termination
  by (relation "measure (\<lambda>(func, obs, retries, n). 2 ^ 31 - 1 - retries)") auto

definition readHotDataOptimistic ::
  "(HotData \<Rightarrow> 'r) \<Rightarrow> (nat \<Rightarrow> u64 \<times> HotData \<times> u64) \<Rightarrow> OrderBookV2 \<Rightarrow> ('r \<times> OrderBookV2) outcome" where
  "readHotDataOptimistic func obs b =
     bind_outcome (read_hot func obs 0 (bs_version_retries (ob_stats b))) (\<lambda>(r, n).
       Inr (r, b\<lparr>ob_stats := (ob_stats b)\<lparr>bs_version_retries := n\<rparr>\<rparr>))"

declare read_hot.simps [simp del]

section \<open>The first order book\<close>

record BookV1Statistics =
  b1_total_updates :: u64
  b1_bid_updates :: u64
  b1_ask_updates :: u64
  b1_level_additions :: u64
  b1_level_removals :: u64
  b1_hot_path_reads :: u64
  b1_cold_path_reads :: u64
  b1_avg_update_latency_us :: i64

definition BookV1Statistics_init :: BookV1Statistics where
  "BookV1Statistics_init =
     \<lparr>b1_total_updates = 0, b1_bid_updates = 0, b1_ask_updates = 0, b1_level_additions = 0, b1_level_removals = 0,
      b1_hot_path_reads = 0, b1_cold_path_reads = 0, b1_avg_update_latency_us = 0\<rparr>"

record BookV1Hot =
  h1_best_bid_price :: Decimal
  h1_best_bid_quantity :: Decimal
  h1_best_ask_price :: Decimal
  h1_best_ask_quantity :: Decimal
  h1_last_update_time :: u64
  h1_version :: u64
  h1_has_bids :: bool
  h1_has_asks :: bool

definition BookV1Hot_init :: BookV1Hot where
  "BookV1Hot_init =
     \<lparr>h1_best_bid_price = decimal_zero, h1_best_bid_quantity = decimal_zero, h1_best_ask_price = decimal_zero,
      h1_best_ask_quantity = decimal_zero, h1_last_update_time = 0, h1_version = 0, h1_has_bids = False,
      h1_has_asks = False\<rparr>"

text \<open>The two sorted maps, as finite maps from price to quantity.\<close>

record BookV1Cold =
  c1_bids :: "Decimal \<rightharpoonup> Decimal"
  c1_asks :: "Decimal \<rightharpoonup> Decimal"
  c1_statistics :: BookV1Statistics

definition BookV1Cold_init :: BookV1Cold where
  "BookV1Cold_init = \<lparr>c1_bids = Map.empty, c1_asks = Map.empty, c1_statistics = BookV1Statistics_init\<rparr>"

record OrderBook =
  o1_hot_data :: BookV1Hot
  o1_cold_data :: BookV1Cold
  o1_hot_lock :: bool

definition OrderBook_members :: OrderBook where
  "OrderBook_members = \<lparr>o1_hot_data = BookV1Hot_init, o1_cold_data = BookV1Cold_init, o1_hot_lock = False\<rparr>"

section \<open>Properties\<close>

definition hot_consistent :: "u64 \<times> HotData \<times> u64 \<Rightarrow> bool" where
  "hot_consistent ob = (case ob of (v1, d, v2) \<Rightarrow> even (unat v1) \<and> v1 = v2)"

lemma even_version: "and v 1 = 0 \<longleftrightarrow> even (unat v)" for v :: u64
proof -
  have "and v 1 = of_bool (odd v)"
    by (rule and_one_eq [unfolded mod_2_eq_odd])
  then show ?thesis
    using odd_version [of v] by (cases "odd v") auto
qed

lemma read_hot_step:
  "hot_consistent (obs k) \<Longrightarrow> read_hot func obs k n = Inr (func (fst (snd (obs k))), n)"
  "\<not> hot_consistent (obs k) \<Longrightarrow> 2 ^ 31 - 1 \<le> k \<Longrightarrow> read_hot func obs k n = Inl UB_signed_overflow"
  "\<not> hot_consistent (obs k) \<Longrightarrow> k < 2 ^ 31 - 1 \<Longrightarrow> read_hot func obs k n = read_hot func obs (k + 1) (n + 1)"
  by (subst read_hot.simps; auto simp: hot_consistent_def even_version split: prod.splits)+

lemma read_hot_fails:
  assumes "\<And>i. k \<le> i \<Longrightarrow> i < m \<Longrightarrow> \<not> hot_consistent (obs i)" and "k \<le> m" and "m \<le> 2 ^ 31 - 1"
  shows "read_hot func obs k n = read_hot func obs m (n + of_nat (m - k))"
  using assms
proof (induction "m - k" arbitrary: k n)
  case (Suc d)
  then have "k < m" "k < 2 ^ 31 - 1" "\<not> hot_consistent (obs k)" by auto
  then have "read_hot func obs k n = read_hot func obs (k + 1) (n + 1)"
    by (intro read_hot_step) auto
  also have "\<dots> = read_hot func obs m (n + 1 + of_nat (m - (k + 1)))"
    using Suc by (intro Suc.hyps(1)) auto
  also have "n + 1 + of_nat (m - (k + 1)) = n + of_nat (m - k)"
    using \<open>k < m\<close> by (simp add: algebra_simps flip: of_nat_Suc)
  finally show ?case .
qed simp

text \<open>
  The optimistic read of the order book returns the function of the first attempt that sees an
  even version unchanged, and has counted the failed attempts before it; it has no bound of its own, but
  when the first \<open>2^31\<close> attempts all fail its counter overflows, which is undefined behaviour.
\<close>

theorem readHotDataOptimistic_result:
  "(hot_consistent (obs k) \<longrightarrow> (\<forall>i < k. \<not> hot_consistent (obs i)) \<longrightarrow> k < 2 ^ 31 \<longrightarrow>
     readHotDataOptimistic func obs b = Inr (func (fst (snd (obs k))),
       b\<lparr>ob_stats := (ob_stats b)\<lparr>bs_version_retries := bs_version_retries (ob_stats b) + of_nat k\<rparr>\<rparr>)) \<and>
   ((\<forall>i < 2 ^ 31. \<not> hot_consistent (obs i)) \<longrightarrow> readHotDataOptimistic func obs b = Inl UB_signed_overflow)"
proof (intro conjI impI)
  assume k: "hot_consistent (obs k)" "\<forall>i < k. \<not> hot_consistent (obs i)" "k < 2 ^ 31"
  have "read_hot func obs 0 n = read_hot func obs k (n + of_nat (k - 0))" for n
    using k by (intro read_hot_fails) auto
  then show "readHotDataOptimistic func obs b = Inr (func (fst (snd (obs k))),
       b\<lparr>ob_stats := (ob_stats b)\<lparr>bs_version_retries := bs_version_retries (ob_stats b) + of_nat k\<rparr>\<rparr>)"
    using read_hot_step(1) [where obs = obs and k = k and func = func, OF k(1)] by (simp add: readHotDataOptimistic_def)
next
  assume none: "\<forall>i < 2 ^ 31. \<not> hot_consistent (obs i)"
  have fails: "read_hot func obs 0 n = read_hot func obs (2 ^ 31 - 1) (n + of_nat (2 ^ 31 - 1 - 0))" for n
    using none by (intro read_hot_fails) auto
  have "\<not> hot_consistent (obs (2 ^ 31 - 1))" using none by simp
  then have stop: "read_hot func obs (2 ^ 31 - 1) n = Inl UB_signed_overflow" for n
    by (rule read_hot_step(2)) (rule order_refl)
  show "readHotDataOptimistic func obs b = Inl UB_signed_overflow"
    unfolding readHotDataOptimistic_def fails stop by (rule bind_outcome_simps)
qed

lemma clear_levels_from:
  assumes "length (cd_bids c) = m" and "length (cd_asks c) = m" and "k \<le> m"
  shows "clear_levels [k..<m] c =
    c\<lparr>cd_bids := take k (cd_bids c) @ replicate (m - k) Level_init, cd_asks := take k (cd_asks c) @ replicate (m - k) Level_init\<rparr>"
  using assms
proof (induction "m - k" arbitrary: k c)
  case (Suc d)
  then have k: "k < m" by simp
  then have "[k..<m] = k # [Suc k..<m]" by (simp add: upt_conv_Cons)
  moreover have "clear_levels [Suc k..<m] (c\<lparr>cd_bids := (cd_bids c)[k := Level_init], cd_asks := (cd_asks c)[k := Level_init]\<rparr>) =
    c\<lparr>cd_bids := take (Suc k) ((cd_bids c)[k := Level_init]) @ replicate (m - Suc k) Level_init,
      cd_asks := take (Suc k) ((cd_asks c)[k := Level_init]) @ replicate (m - Suc k) Level_init\<rparr>"
    using Suc k by (subst Suc.hyps(1)) auto
  moreover have "take (Suc k) (xs[k := Level_init]) @ replicate (m - Suc k) Level_init =
      take k xs @ replicate (m - k) Level_init" if "length xs = m" for xs :: "Level list"
    using k that by (simp add: take_Suc_conv_app_nth Suc_diff_Suc [symmetric])
  ultimately show ?case using Suc.prems by simp
qed simp

text \<open>
  \<^verbatim>\<open>ColdData::clear\<close> empties a buffer of the right size, but for the time of its last update,
  which it keeps.
\<close>

theorem clear_cold_result:
  assumes "length (cd_bids c) = MAX_DEPTH" and "length (cd_asks c) = MAX_DEPTH"
  shows "clear_cold c = ColdData_init\<lparr>cd_last_update_time := cd_last_update_time c\<rparr>"
  using clear_levels_from [of "c\<lparr>cd_bid_count := 0, cd_ask_count := 0\<rparr>" MAX_DEPTH 0] assms
  by (simp add: clear_cold_def ColdData_init_def del: upt_Suc)

text \<open>
  The hot data of the order book is 256 bytes, four cache lines, with the version behind the
  160 bytes of levels; it starts even and empty.
\<close>

theorem HotData_layout:
  "sizeof_struct 256 HotData_members = 256 \<and> offsetof HotData_members ''version'' = Some 160 \<and>
   offsetof HotData_members ''padding'' = Some 178"
  by (simp add: HotData_members_def HOT_DEPTH_def sizeof_struct_def offsetof_def align_up_def)

theorem readHotDataOptimistic_result_witness:
  "\<exists>b'. readHotDataOptimistic hd_bid_count (\<lambda>i. if i < 2 then (1, HotData_init\<lparr>hd_bid_count := 9\<rparr>, 1) else (2, HotData_init, 2))
     \<lparr>ob_hot_data = HotData_init, ob_cold_buffers = [ColdData_init, ColdData_init], ob_active_cold_buffer = 0,
      ob_write_buffer_index = 1, ob_stats = BookStatistics_init, ob_hot_data_dirty = False\<rparr> = Inr (0, b') \<and>
     bs_version_retries (ob_stats b') = 2"
  using readHotDataOptimistic_result [of "\<lambda>i. if i < 2 then (1, HotData_init\<lparr>hd_bid_count := 9\<rparr>, 1) else (2, HotData_init, 2)" 2
      hd_bid_count "\<lparr>ob_hot_data = HotData_init, ob_cold_buffers = [ColdData_init, ColdData_init], ob_active_cold_buffer = 0,
      ob_write_buffer_index = 1, ob_stats = BookStatistics_init, ob_hot_data_dirty = False\<rparr>"]
  by (simp add: hot_consistent_def HotData_init_def BookStatistics_init_def)

theorem clear_cold_result_witness:
  "clear_cold (ColdData_init\<lparr>cd_bid_count := 3, cd_last_update_time := 7\<rparr>) = ColdData_init\<lparr>cd_last_update_time := 7\<rparr>"
  using clear_cold_result [of "ColdData_init\<lparr>cd_bid_count := 3, cd_last_update_time := 7\<rparr>"]
  by (simp add: ColdData_init_def)

end
