(* ===== verification/Services.thy ===== *)
theory Services
  imports Strategy_Engine File_Replay Order_Books
begin

text \<open>
  The remaining components whose headers hold state and small operations but whose work is done in the
  library: CPU affinity, the performance metrics, the backtest engine, health monitoring, security, the
  position manager's cached total, the execution handler, the base class of the first-generation market
  data gateways and the error macros.
\<close>

section \<open>CPU affinity (\<^verbatim>\<open>utils/cpu_affinity.hpp\<close>)\<close>

text \<open>
  The branches of the preprocessor are a parameter. What the operating system answers is the record
  \<open>affinity_os\<close>; \<^verbatim>\<open>CPU_SET\<close> ignores an index that its mask has no bit for.
\<close>

datatype platform = Linux | Apple | Other_platform

record affinity_os =
  os_nprocessors :: int                       \<comment> \<open>\<^verbatim>\<open>sysconf(_SC_NPROCESSORS_ONLN)\<close>\<close>
  os_setaffinity :: "nat set \<Rightarrow> int"         \<comment> \<open>\<^verbatim>\<open>pthread_setaffinity_np\<close> on the calling thread\<close>
  os_policy_set :: "int \<Rightarrow> bool"              \<comment> \<open>\<^verbatim>\<open>thread_policy_set\<close> with this affinity tag\<close>
  os_logicalcpu :: "int option"               \<comment> \<open>\<^verbatim>\<open>sysctlbyname\<close>\<close>

definition CPU_SETSIZE :: nat where
  "CPU_SETSIZE = 1024"

definition CPU_SET :: "nat \<Rightarrow> nat set \<Rightarrow> nat set" where
  "CPU_SET i s = (if i < CPU_SETSIZE then insert i s else s)"

definition cpu_mask :: "affinity_os \<Rightarrow> int \<Rightarrow> nat set" where
  "cpu_mask os cpu =
     (if 0 \<le> cpu then CPU_SET (nat cpu) {}
      else fold CPU_SET [0..<(if 0 < os_nprocessors os then nat (os_nprocessors os) else CPU_SETSIZE)] {})"

definition setThreadAffinity :: "platform \<Rightarrow> affinity_os \<Rightarrow> int \<Rightarrow> bool" where
  "setThreadAffinity pf os cpu =
     (case pf of
        Linux \<Rightarrow> os_setaffinity os (cpu_mask os cpu) = 0
      | Apple \<Rightarrow> os_policy_set os (if 0 \<le> cpu then cpu else 0)
      | Other_platform \<Rightarrow> False)"

definition numCores :: "platform \<Rightarrow> affinity_os \<Rightarrow> int" where
  "numCores pf os =
     (case pf of
        Linux \<Rightarrow> if 0 < os_nprocessors os then signed_take_bit 31 (os_nprocessors os) else 1
      | Apple \<Rightarrow> (case os_logicalcpu os of None \<Rightarrow> 1 | Some count \<Rightarrow> count)
      | Other_platform \<Rightarrow> 1)"

lemma fold_CPU_SET: "fold CPU_SET xs s = s \<union> {i \<in> set xs. i < CPU_SETSIZE}"
  by (induction xs arbitrary: s) (auto simp: CPU_SET_def)

text \<open>
  On Linux, pinning a thread asks for exactly the one core, and clearing for every core the
  system has, as long as the mask has room for it; past the mask the request is for no core at all. On
  macOS, pinning to core 0 is the same request as clearing the affinity.
\<close>

theorem setThreadAffinity_requests:
  "0 \<le> cpu \<and> cpu < int CPU_SETSIZE \<Longrightarrow>
     setThreadAffinity Linux os cpu = (os_setaffinity os {nat cpu} = 0) \<and>
     (0 < os_nprocessors os \<and> os_nprocessors os \<le> int CPU_SETSIZE \<longrightarrow>
        setThreadAffinity Linux os (- 1) = (os_setaffinity os {0..<nat (os_nprocessors os)} = 0)) \<and>
     setThreadAffinity Linux os (cpu + int CPU_SETSIZE) = (os_setaffinity os {} = 0) \<and>
     setThreadAffinity Apple os 0 = setThreadAffinity Apple os (- 1)"
proof -
  assume cpu: "0 \<le> cpu \<and> cpu < int CPU_SETSIZE"
  then have "nat cpu < CPU_SETSIZE" and "\<not> nat (cpu + int CPU_SETSIZE) < CPU_SETSIZE"
    by linarith+
  moreover have "{i. i < nat (os_nprocessors os) \<and> i < CPU_SETSIZE} = {0..<nat (os_nprocessors os)}"
    if "os_nprocessors os \<le> int CPU_SETSIZE"
    using that by auto
  ultimately show ?thesis
    using cpu by (simp add: setThreadAffinity_def cpu_mask_def fold_CPU_SET CPU_SET_def)
qed

theorem setThreadAffinity_requests_witness:
  "setThreadAffinity Linux
     \<lparr>os_nprocessors = 8, os_setaffinity = (\<lambda>s. if s = {3} then 0 else 22), os_policy_set = (\<lambda>t. True), os_logicalcpu = None\<rparr> 3"
  by (subst setThreadAffinity_requests [THEN conjunct1]) (simp_all add: CPU_SETSIZE_def)

section \<open>Performance metrics (\<^verbatim>\<open>backtest/metrics.hpp\<close>)\<close>

record Trade =
  tr_entry_time_us :: u64
  tr_exit_time_us :: u64
  tr_symbol_id :: u32
  tr_entry_price :: Decimal
  tr_exit_price :: Decimal
  tr_quantity :: Decimal
  tr_pnl :: Decimal
  tr_direction :: OrderSide

record MetricsCollector =
  mc_trades :: "Trade list"
  mc_equity_snaps :: "(u64 \<times> Decimal) list"
  mc_total_return :: Decimal
  mc_annualized_return :: Double
  mc_sharpe_ratio :: Double
  mc_sortino_ratio :: Double
  mc_calmar_ratio :: Double
  mc_max_drawdown :: Decimal
  mc_max_drawdown_pct :: Double
  mc_max_dd_duration_us :: u64
  mc_win_rate :: Double
  mc_profit_factor :: Double
  mc_avg_win :: Decimal
  mc_avg_loss :: Decimal
  mc_winning_trades :: u64
  mc_losing_trades :: u64
  mc_equity_curve :: "(u64 \<times> Double) list"
  mc_drawdown_curve :: "(u64 \<times> Double) list"

definition MetricsCollector_init :: MetricsCollector where
  "MetricsCollector_init =
     \<lparr>mc_trades = [], mc_equity_snaps = [], mc_total_return = decimal_zero, mc_annualized_return = Fin 0,
      mc_sharpe_ratio = Fin 0, mc_sortino_ratio = Fin 0, mc_calmar_ratio = Fin 0, mc_max_drawdown = decimal_zero,
      mc_max_drawdown_pct = Fin 0, mc_max_dd_duration_us = 0, mc_win_rate = Fin 0, mc_profit_factor = Fin 0,
      mc_avg_win = decimal_zero, mc_avg_loss = decimal_zero, mc_winning_trades = 0, mc_losing_trades = 0,
      mc_equity_curve = [], mc_drawdown_curve = []\<rparr>"

text \<open>The accessors return the members; the number of trades is the length of the list.\<close>

definition totalReturn :: "MetricsCollector \<Rightarrow> Decimal" where
  "totalReturn m = mc_total_return m"

definition annualizedReturn :: "MetricsCollector \<Rightarrow> Double" where
  "annualizedReturn m = mc_annualized_return m"

definition sharpeRatio :: "MetricsCollector \<Rightarrow> Double" where
  "sharpeRatio m = mc_sharpe_ratio m"

definition sortinoRatio :: "MetricsCollector \<Rightarrow> Double" where
  "sortinoRatio m = mc_sortino_ratio m"

definition calmarRatio :: "MetricsCollector \<Rightarrow> Double" where
  "calmarRatio m = mc_calmar_ratio m"

definition maxDrawdown :: "MetricsCollector \<Rightarrow> Decimal" where
  "maxDrawdown m = mc_max_drawdown m"

definition maxDrawdownPct :: "MetricsCollector \<Rightarrow> Double" where
  "maxDrawdownPct m = mc_max_drawdown_pct m"

definition maxDrawdownDurationUs :: "MetricsCollector \<Rightarrow> u64" where
  "maxDrawdownDurationUs m = mc_max_dd_duration_us m"

definition winRate :: "MetricsCollector \<Rightarrow> Double" where
  "winRate m = mc_win_rate m"

definition profitFactor :: "MetricsCollector \<Rightarrow> Double" where
  "profitFactor m = mc_profit_factor m"

definition avgWin :: "MetricsCollector \<Rightarrow> Decimal" where
  "avgWin m = mc_avg_win m"

definition avgLoss :: "MetricsCollector \<Rightarrow> Decimal" where
  "avgLoss m = mc_avg_loss m"

definition totalTrades :: "MetricsCollector \<Rightarrow> nat" where
  "totalTrades m = length (mc_trades m)"

definition winningTrades :: "MetricsCollector \<Rightarrow> u64" where
  "winningTrades m = mc_winning_trades m"

definition losingTrades :: "MetricsCollector \<Rightarrow> u64" where
  "losingTrades m = mc_losing_trades m"

definition equityCurve :: "MetricsCollector \<Rightarrow> (u64 \<times> Double) list" where
  "equityCurve m = mc_equity_curve m"

definition drawdownCurve :: "MetricsCollector \<Rightarrow> (u64 \<times> Double) list" where
  "drawdownCurve m = mc_drawdown_curve m"

section \<open>Backtest engine (\<^verbatim>\<open>backtest/backtest_engine.hpp\<close>)\<close>

datatype FillMode = IMMEDIATE | NEXT_TICK | CONSERVATIVE

record BacktestConfig =
  bk_fill_mode :: FillMode
  bk_initial_capital :: Decimal
  bk_maker_fee :: Double
  bk_taker_fee :: Double
  bk_record_equity_every_tick :: bool

definition BacktestConfig_init :: BacktestConfig where
  "BacktestConfig_init =
     \<lparr>bk_fill_mode = NEXT_TICK, bk_initial_capital = decimal_zero, bk_maker_fee = Fin 0, bk_taker_fee = Fin 0,
      bk_record_equity_every_tick = True\<rparr>"

record 'h BacktestEngine =
  be_config :: BacktestConfig
  be_book :: OrderBookV2
  be_pm :: PositionManager
  be_risk :: RiskEngine
  be_id_gen :: OrderIDGenerator
  be_metrics :: MetricsCollector
  be_order_queue :: "OrderRequest MPMCQueue"
  be_orders_submitted :: u64
  be_orders_risk_rejected :: u64
  be_orders_queue_dropped :: u64
  be_pending :: "(OrderRequest \<times> u64) list"
  be_replayer :: "'h TimeReplayer"
  be_current_tick_ts :: u64
  be_last_tick :: Tick
  be_has_last_tick :: bool
  be_initial_equity :: Decimal

definition backtest_config :: "'h BacktestEngine \<Rightarrow> BacktestConfig" where
  "backtest_config b = be_config b"

definition backtest_metrics :: "'h BacktestEngine \<Rightarrow> MetricsCollector" where
  "backtest_metrics b = be_metrics b"

definition backtest_positions :: "'h BacktestEngine \<Rightarrow> PositionManager" where
  "backtest_positions b = be_pm b"

definition backtest_orderBook :: "'h BacktestEngine \<Rightarrow> OrderBookV2" where
  "backtest_orderBook b = be_book b"

section \<open>Health monitoring (\<^verbatim>\<open>monitoring/health_monitor.hpp\<close>)\<close>

datatype HealthStatus = HEALTHY | DEGRADED | UNHEALTHY

record ComponentInfo =
  ci_name :: string
  ci_status :: HealthStatus
  ci_message :: string
  ci_last_heartbeat_us :: u64

definition ComponentInfo_init :: ComponentInfo where
  "ComponentInfo_init = \<lparr>ci_name = [], ci_status = HEALTHY, ci_message = [], ci_last_heartbeat_us = 0\<rparr>"

record HealthReport =
  hr_overall_healthy :: bool
  hr_components :: "ComponentInfo list"
  hr_timestamp_us :: u64
  hr_ticks_total :: u64
  hr_orders_total :: u64
  hr_fills_total :: u64
  hr_ticks_per_sec :: Double
  hr_orders_per_sec :: Double

definition HealthReport_init :: HealthReport where
  "HealthReport_init =
     \<lparr>hr_overall_healthy = True, hr_components = [], hr_timestamp_us = 0, hr_ticks_total = 0, hr_orders_total = 0,
      hr_fills_total = 0, hr_ticks_per_sec = Fin 0, hr_orders_per_sec = Fin 0\<rparr>"

record HealthMonitor =
  hm_components :: "ComponentInfo list"
  hm_ticks :: u64
  hm_orders :: u64
  hm_fills :: u64
  hm_last_report_us :: u64
  hm_prev_ticks :: u64
  hm_prev_orders :: u64

definition HealthMonitor_members :: HealthMonitor where
  "HealthMonitor_members =
     \<lparr>hm_components = [], hm_ticks = 0, hm_orders = 0, hm_fills = 0, hm_last_report_us = 0, hm_prev_ticks = 0,
      hm_prev_orders = 0\<rparr>"

definition recordTick :: "HealthMonitor \<Rightarrow> HealthMonitor" where
  "recordTick h = h\<lparr>hm_ticks := hm_ticks h + 1\<rparr>"

definition recordOrder :: "HealthMonitor \<Rightarrow> HealthMonitor" where
  "recordOrder h = h\<lparr>hm_orders := hm_orders h + 1\<rparr>"

definition recordFill :: "HealthMonitor \<Rightarrow> HealthMonitor" where
  "recordFill h = h\<lparr>hm_fills := hm_fills h + 1\<rparr>"

section \<open>Security (\<^verbatim>\<open>io/security/security.hpp\<close>)\<close>

record ApiKeyEncryptor =
  ak_master_key :: "u8 list"

definition isConfigured :: "ApiKeyEncryptor \<Rightarrow> bool" where
  "isConfigured e \<longleftrightarrow> ak_master_key e \<noteq> []"

record SanitizerConfig =
  sz_mask_api_keys :: bool
  sz_mask_private_keys :: bool
  sz_mask_tokens :: bool
  sz_mask_char :: char

definition SanitizerConfig_init :: SanitizerConfig where
  "SanitizerConfig_init =
     \<lparr>sz_mask_api_keys = True, sz_mask_private_keys = True, sz_mask_tokens = True, sz_mask_char = CHR ''*''\<rparr>"

record LogSanitizer =
  sz_config :: SanitizerConfig

definition LogSanitizer_new :: LogSanitizer where
  "LogSanitizer_new = \<lparr>sz_config = SanitizerConfig_init\<rparr>"

definition LogSanitizer_of :: "SanitizerConfig \<Rightarrow> LogSanitizer" where
  "LogSanitizer_of cfg = \<lparr>sz_config = cfg\<rparr>"

record TokenConfig =
  tk_valid_token :: string
  tk_max_requests_per_second :: u32

definition TokenConfig_init :: TokenConfig where
  "TokenConfig_init = \<lparr>tk_valid_token = [], tk_max_requests_per_second = 10\<rparr>"

record TokenValidator =
  tv_config :: TokenConfig
  tv_current_second :: u32
  tv_requests_this_second :: u32
  tv_accepted :: u64
  tv_rejected :: u64

definition TokenValidator_new :: "TokenConfig \<Rightarrow> TokenValidator" where
  "TokenValidator_new cfg =
     \<lparr>tv_config = cfg, tv_current_second = 0, tv_requests_this_second = 0, tv_accepted = 0, tv_rejected = 0\<rparr>"

definition accepted_count :: "TokenValidator \<Rightarrow> u64" where
  "accepted_count v = tv_accepted v"

definition rejected_count :: "TokenValidator \<Rightarrow> u64" where
  "rejected_count v = tv_rejected v"

section \<open>Execution (\<^verbatim>\<open>execution/execution_handler.hpp\<close>, \<^verbatim>\<open>execution/binance_user_stream.hpp\<close>)\<close>

record ExecutionHandlerStats =
  eh_fills_processed :: u64
  eh_acks_processed :: u64
  eh_rejects_processed :: u64
  eh_avg_latency_ns :: u64

definition ExecutionHandlerStats_init :: ExecutionHandlerStats where
  "ExecutionHandlerStats_init =
     \<lparr>eh_fills_processed = 0, eh_acks_processed = 0, eh_rejects_processed = 0, eh_avg_latency_ns = 0\<rparr>"

text \<open>The handler over notifiers of type \<open>'cb\<close>; the position manager belongs to the engine.\<close>

record 'cb ExecutionHandler =
  eh_pm :: "PositionManager option"
  eh_fill_notifier :: "'cb option"
  eh_ack_notifier :: "'cb option"
  eh_reject_notifier :: "'cb option"
  eh_stats :: ExecutionHandlerStats
  eh_avg_latency :: u64

definition handler_positionManager :: "'cb ExecutionHandler \<Rightarrow> PositionManager option" where
  "handler_positionManager h = eh_pm h"

record BinanceUserStream =
  us_running :: bool

definition BinanceUserStream_members :: BinanceUserStream where
  "BinanceUserStream_members = \<lparr>us_running = False\<rparr>"

definition user_stream_isRunning :: "BinanceUserStream \<Rightarrow> bool" where
  "user_stream_isRunning u = us_running u"

section \<open>Market data gateways of the first generation (\<^verbatim>\<open>market_data/gateway.hpp\<close>)\<close>

record MdStatistics =
  md_messages_received :: u64
  md_ticks_processed :: u64
  md_errors_count :: u64
  md_reconnections :: u64
  md_avg_latency :: i64          \<comment> \<open>microseconds\<close>
  md_last_message_time :: i64    \<comment> \<open>steady clock\<close>

definition MdStatistics_init :: MdStatistics where
  "MdStatistics_init =
     \<lparr>md_messages_received = 0, md_ticks_processed = 0, md_errors_count = 0, md_reconnections = 0,
      md_avg_latency = 0, md_last_message_time = 0\<rparr>"

text \<open>\<open>'cb\<close> and \<open>'eb\<close> are the callables of the two callbacks; an empty \<^verbatim>\<open>std::function\<close> is \<open>None\<close>.\<close>

record ('cb, 'eb) MarketDataGateway =
  mg_config :: ExchangeConfig
  mg_tick_queue :: "Tick MPMCQueue option"
  mg_status :: ConnectionStatus
  mg_status_callback :: "'cb option"
  mg_error_callback :: "'eb option"
  mg_should_reconnect :: bool
  mg_reconnection_attempts :: int
  mg_statistics :: MdStatistics
  mg_running :: bool

definition MarketDataGateway_init :: "('cb, 'eb) MarketDataGateway" where
  "MarketDataGateway_init =
     \<lparr>mg_config = ExchangeConfig_init, mg_tick_queue = None, mg_status = DISCONNECTED, mg_status_callback = None,
      mg_error_callback = None, mg_should_reconnect = True, mg_reconnection_attempts = 0,
      mg_statistics = MdStatistics_init, mg_running = False\<rparr>"

definition md_getStatus :: "('cb, 'eb) MarketDataGateway \<Rightarrow> ConnectionStatus" where
  "md_getStatus g = mg_status g"

definition setStatusCallback :: "'cb option \<Rightarrow> ('cb, 'eb) MarketDataGateway \<Rightarrow> ('cb, 'eb) MarketDataGateway" where
  "setStatusCallback callback g = g\<lparr>mg_status_callback := callback\<rparr>"

definition setErrorCallback :: "'eb option \<Rightarrow> ('cb, 'eb) MarketDataGateway \<Rightarrow> ('cb, 'eb) MarketDataGateway" where
  "setErrorCallback callback g = g\<lparr>mg_error_callback := callback\<rparr>"

definition md_getStatistics :: "('cb, 'eb) MarketDataGateway \<Rightarrow> MdStatistics" where
  "md_getStatistics g = mg_statistics g"

section \<open>The error macros (\<^verbatim>\<open>core/error.hpp\<close>)\<close>

text \<open>
  The arguments with which a macro calls \<^verbatim>\<open>ErrorHandler::reportError\<close>: severity, category, component,
  message, and the defaults of the context, the recovery action and the error code. \<^verbatim>\<open>CHRONOS_FATAL\<close> has
  no counterpart: it names a severity that the enumeration does not have.
\<close>

type_synonym error_call = "ErrorSeverity \<times> ErrorCategory \<times> string \<times> string \<times> string \<times> RecoveryAction \<times> int"

definition reportError_args :: "ErrorSeverity \<Rightarrow> ErrorCategory \<Rightarrow> string \<Rightarrow> string \<Rightarrow> error_call" where
  "reportError_args sev cat component message = (sev, cat, component, message, [], Act_NONE, 0)"

definition CHRONOS_ERROR :: "ErrorCategory \<Rightarrow> string \<Rightarrow> string \<Rightarrow> error_call" where
  "CHRONOS_ERROR cat component message = reportError_args Sev_ERROR cat component message"

definition CHRONOS_WARNING :: "ErrorCategory \<Rightarrow> string \<Rightarrow> string \<Rightarrow> error_call" where
  "CHRONOS_WARNING cat component message = reportError_args Sev_WARNING cat component message"

definition CHRONOS_CRITICAL :: "ErrorCategory \<Rightarrow> string \<Rightarrow> string \<Rightarrow> error_call" where
  "CHRONOS_CRITICAL cat component message = reportError_args Sev_CRITICAL cat component message"

end
