(* ===== verification/Spec2Isabelle.thy ===== *)
theory Spec2Isabelle
  imports Mpmc_Concurrent Mpmc_Progress Seqlock Seqlock_Calls Small_Steps Grid_Prices Live_Threads Demo_Logs Any_Gateway Io_Protocols Services
begin

text \<open>
  A verification development for the Chronos trading engine, a C++ repository whose headers under
  \<^verbatim>\<open>src/include/chronos\<close>, application under \<^verbatim>\<open>src/src\<close> and tool under \<^verbatim>\<open>src/tools\<close> are modelled here.
  Most class bodies of the repository are in a prebuilt library that is not part of it: what the modelled
  code uses of the library is an argument of the definitions, and what it relies on is a named hypothesis.

  \<^bold>\<open>The program.\<close> \<^verbatim>\<open>main\<close> reads the flags and a YAML file and runs one of two modes. In both, ticks are pushed
  into the queue of the strategy engine, whose thread runs the strategies against a risk engine; orders go
  through a queue to the order gateway, fills come back through a callback and a queue; every tick is also
  published and logged. In file replay the ticks come from log files, in live mode from a market data
  gateway, through a queue and a bridge thread. The components share nothing but the queues, the hot
  parameters of the risk engine, the hot data of the order books, and the flag \<^verbatim>\<open>g_running\<close>.

  \<^bold>\<open>The theories\<close>, in import order.
  \<^item> \<open>Chronos_Prelude\<close>: integer widths, faults (undefined behaviour by its cause, uncaught exceptions) and the
    sum type of outcomes, the struct layout rule, lemmas on words.
  \<^item> \<open>Binary64\<close>: the C++ \<^verbatim>\<open>double\<close>, as rationals with an executable rounding to 53 bits.
  \<^item> \<open>Fixed_Decimal\<close>, \<open>Core_Types\<close>: \<^verbatim>\<open>core/types.hpp\<close>, the fixed-point \<^verbatim>\<open>Decimal\<close> and its conversions, the
    enumerations, messages, their layouts, and positions. Round trip, truncation, exact range of definedness.
  \<^item> \<open>Config_Records\<close>: \<^verbatim>\<open>core/config.hpp\<close> and the types of \<^verbatim>\<open>core/error.hpp\<close>.
  \<^item> \<open>Mpmc_Queue\<close>, \<open>Mpmc_Concurrent\<close>: \<^verbatim>\<open>utils/mpmc_queue.hpp\<close>. First the calls one after another, with their
    retry loops as functions that may not return, proved to return and to be a bounded FIFO (locale
    \<open>bounded_fifo\<close>, interpreted by the code); then any number of threads, one memory access per step, with the
    invariant that each slot belongs to one ticket, race freedom, order, no loss, and a step-wise refinement
    of the abstract FIFO. \<open>Mpmc_Progress\<close>: no call retries unless another one
    has claimed a ticket, and none is refused but for a full or empty queue or a call that is half done.
  \<^item> \<open>Risk_Params\<close>, \<open>Seqlock\<close>: the parameters of \<^verbatim>\<open>risk/risk_engine.hpp\<close>, their conversion, publication and
    double buffer; then writer and readers of the sequence lock one access at a time, with the stores of the
    writer in program order or with the copies free to pass the opening release store. \<open>Seqlock_Calls\<close>: one
    call of a reader, linearizable, and out of attempts only through the writer.
  \<^item> \<open>Small_Steps\<close>: the sequential and the interleaved models agree: a call on the queue is a run of one
    thread, and \<^verbatim>\<open>publishParams\<close> is a run of the writer of the sequence lock.
  \<^item> \<open>Order_Id\<close>: \<^verbatim>\<open>trading/order_id_generator.hpp\<close> (locale \<open>id_source\<close>).
  \<^item> \<open>Grid_Strategy\<close>, \<open>Grid_Properties\<close>: \<^verbatim>\<open>strategies/grid_strategy.hpp\<close>, every operation, against any
    \<^verbatim>\<open>StrategyContext\<close>; what a tick, a fill and a timer do on every branch, the equality of \<^verbatim>\<open>onTick\<close> with a plan
    without side effects, and the invariant on the recorded order ids.
  \<^item> \<open>Grid_Runs\<close>, \<open>Grid_Prices\<close>: the strategy over many callbacks: a second tick, the round trip of a level, every
    order counted once; and that no profit is made while the mid price stands still.
  \<^item> \<open>Position_Manager\<close>, \<open>Strategy_Engine\<close>: the headers of the positions, the engine, the strategy interface and
    the order gateway.
  \<^item> \<open>App_Config\<close>: \<^verbatim>\<open>src/app_config.hpp\<close>, flags and YAML loading over any document type; every way it can end.
  \<^item> \<open>File_Replay\<close>: \<^verbatim>\<open>backtest/time_replayer.hpp\<close> and the replay loop of \<^verbatim>\<open>src/main.cpp\<close> with its callbacks.
  \<^item> \<open>Log_Bridge\<close>: the append of \<^verbatim>\<open>logging/log_writer.hpp\<close>, the state of the log reader and the publisher.
  \<^item> \<open>Pipeline\<close>: \<^verbatim>\<open>src/main.cpp\<close>, the set-up, both modes and \<^verbatim>\<open>main\<close>, as traces of what is asked of the library;
    which grids a YAML file leads to.
  \<^item> \<open>Live_Threads\<close>: the running phase of the live mode, as interleaved steps of its threads, the engine's
    consumer of ticks and the signal.
  \<^item> \<open>Order_Books\<close>: records and the optimistic read of \<^verbatim>\<open>market_data/orderbook_v2.hpp\<close>, records of
    \<^verbatim>\<open>market_data/orderbook.hpp\<close>.
  \<^item> \<open>Any_Gateway\<close>: \<^verbatim>\<open>market_data/any_gateway.hpp\<close> (locale \<open>answers_alike\<close>: no sequence of calls tells the
    wrapper from the adapter). \<open>Io_Protocols\<close>: the header bodies of \<^verbatim>\<open>io/protocols\<close> (locale \<open>heartbeat\<close>).
  \<^item> \<open>Demo_Logs\<close>: \<^verbatim>\<open>tools/generate_demo_logs.cpp\<close>, with bounds on its floating point expressions.
  \<^item> \<open>Services\<close>: CPU affinity and the state of the components whose work is done in the library.

  \<^bold>\<open>Conventions.\<close> A struct is a record whose fields carry a short prefix, an enumeration a datatype with its
  values as a function, an unsigned integer a word of its width, an \<^verbatim>\<open>int\<close> an \<open>int\<close> with the overflow of
  \<^verbatim>\<open>grid_levels\<close> and of the retry counter written out; a \<^verbatim>\<open>Decimal\<close> is its raw 64-bit value. An operation
  returns its new state; \<open>Inl\<close> is a fault, and in loops without a bound \<open>None\<close> is not returning.

  \<^bold>\<open>Bounds.\<close> There is no fuel. The 64-bit counters of a queue do not overflow in the first \<open>2^62\<close> pushes, which
  is the room that \<open>queue_room\<close> counts down and a replay of at most \<open>2^62\<close> events keeps. Capacities are powers
  of two of at least 2; a capacity of 1 has a theorem of its own. Ids are unique for \<open>2^64 - 1\<close> draws. The
  retry loop of the risk engine makes 100 attempts, that of the order book runs until its \<^verbatim>\<open>int\<close> counter
  overflows.

  \<^bold>\<open>Not modelled.\<close> The dispatch loop of the engine, \<^verbatim>\<open>StrategyContext\<close>, risk checks, order processing, order book
  updates, log files and sockets, exchange adapters, HTTP, encryption and metrics calculations: only
  their declarations are in the repository. \<^verbatim>\<open>fpm\<close>, \<^verbatim>\<open>gflags\<close> and \<^verbatim>\<open>yaml-cpp\<close> are parameters. Memory is sequentially
  consistent but for the reordering named in \<open>Seqlock\<close>. Messages on the terminal are left out, except the
  statistics. Timing is left out: the replay's pauses and the two-second interval have no effect on the state.
\<close>

section \<open>From the generated logs to the engine\<close>

lemma ticks_of_map [simp]: "ticks_of (map Tick_event ts) = ts"
  by (induction ts) simp_all


text \<open>A replayer whose streams are a list, and that has counted them.\<close>

lemma list_env_replays:
  "unat (tr_total_events r) = unat (tr_events_processed r) + length evs \<Longrightarrow> tr_streams r = evs \<Longrightarrow>
     replays (list_env run) r evs"
proof (induction evs arbitrary: r)
  case Nil
  then show ?case by (simp add: list_env_def)
next
  case (Cons ev evs)
  have "Suc (unat (tr_events_processed r)) \<le> unat (tr_total_events r)"
    using Cons.prems(1) by simp
  moreover from this have "unat (tr_events_processed r + 1) = Suc (unat (tr_events_processed r))"
    by (intro unat_Suc_small le_less_trans [OF _ unsigned_less])
  ultimately show ?case
    using Cons.prems Cons.IH [of "r\<lparr>tr_streams := evs, tr_events_processed := tr_events_processed r + 1\<rparr>"]
    by (simp add: list_env_def isExhausted_def word_le_nat_alt)
qed

definition demo_ticks :: "Tick list" where
  "demo_ticks = map (\<lambda>i. projr (demo_tick i)) [0..<1000]"

lemma demo_ticks_ok: "list_all2 tick_ok [0..<1000] demo_ticks"
proof -
  have "tick_ok i (projr (demo_tick i))" if "i < 1000" for i
    using demo_tick_defined [OF that] by auto
  then show ?thesis
    by (simp add: demo_ticks_def list_all2_conv_all_nth del: upt_conv_Cons upt_rec_numeral)
qed


end
